(* ===== verification/Prelude.thy ===== *)
theory Prelude
  imports Main "HOL-Library.Word"
begin

text \<open>
  Shared vocabulary of the development: fixed-width integers and byte buffers, the
  outcome type for C code that can crash, the bit helpers of \<open>stable/utils.h\<close>
  (\<open>bits\<close>, \<open>sign_extend\<close>, \<open>m_ntoh32\<close>, ...) and \<open>memcpy\<close> on buffers, with
  the lemmas every component uses about them.
\<close>

unbundle bit_operations_syntax

named_theorems buf_simps \<open>lengths, reads and slices of byte buffers\<close>

named_theorems word_bits \<open>bitwise characterisations of the word helpers\<close>

section \<open>Types\<close>

type_synonym u8 = "8 word"
type_synonym u16 = "16 word"
type_synonym u32 = "32 word"
type_synonym u64 = "64 word"
type_synonym bytes = "8 word list"

text \<open>
  What the host process does with a piece of C code: it returns a value or it does
  something C leaves undefined and that kills the process in practice.
\<close>

datatype fault =
    Bad_Memcpy            \<comment> \<open>a memcpy whose size is negative or beyond its buffers\<close>
  | Out_Of_Bounds         \<comment> \<open>an array is read or written beyond its end\<close>
  | Null_Deref            \<comment> \<open>a NULL pointer is followed\<close>
  | Div_By_Zero           \<comment> \<open>an integer division by zero (SIGFPE)\<close>
  | Assert_Failed         \<comment> \<open>a failed \<open>assert\<close> (abort)\<close>
  | Stack_Overflow        \<comment> \<open>recursion deeper than the stack\<close>

type_synonym 'a outcome = "fault + 'a"

abbreviation returns :: "'a outcome \<Rightarrow> bool" where
  "returns r \<equiv> \<not> isl r"

definition bind_out :: "'a outcome \<Rightarrow> ('a \<Rightarrow> 'b outcome) \<Rightarrow> 'b outcome" where
  "bind_out r f = (case r of Inl e \<Rightarrow> Inl e | Inr a \<Rightarrow> f a)"

lemma bind_out_simps [simp]:
  "bind_out (Inl e) f = Inl e"
  "bind_out (Inr a) f = f a"
  by (simp_all add: bind_out_def)

lemma bind_out_Inr_iff:
  "bind_out r f = Inr b \<longleftrightarrow> (\<exists>a. r = Inr a \<and> f a = Inr b)"
  by (cases r) auto

section \<open>Bit fields and sign extension (utils.h)\<close>

lemma word_eq_bits: "(x :: 'a::len word) = y \<longleftrightarrow> (\<forall>n<LENGTH('a). bit x n = bit y n)"
  by (auto intro: bit_word_eqI)

lemma and_pow2_eq_0: "(x :: 'a::len word) AND 2 ^ n = 0 \<longleftrightarrow> \<not> bit x n"
  by (rule and_exp_eq_0_iff_not_bit)

definition bits :: "u32 \<Rightarrow> nat \<Rightarrow> nat \<Rightarrow> u32" where
  "bits v start last_bit = drop_bit start v AND (push_bit (last_bit - start + 1) 1 - 1)"

definition sign_extend :: "u64 \<Rightarrow> nat \<Rightarrow> u64" where
  "sign_extend x len = (let n = 64 - len in signed_drop_bit n (push_bit n x))"

definition sign_extend_32 :: "u32 \<Rightarrow> nat \<Rightarrow> u32" where
  "sign_extend_32 x len = (let n = 32 - len in signed_drop_bit n (push_bit n x))"

definition normalize_size :: "u32 \<Rightarrow> u32 \<Rightarrow> nat \<Rightarrow> u32" where
  "normalize_size val nb shift = drop_bit shift ((val + nb - 1) AND NOT (nb - 1))"

lemma bits_mask: "bits v s e = drop_bit s v AND mask (e - s + 1)"
  by (simp add: bits_def mask_eq_exp_minus_1 push_bit_of_1)

lemma bit_bits [word_bits]:
  "bit (bits v s e) n \<longleftrightarrow> n < e - s + 1 \<and> bit v (s + n)"
  by (auto simp: bits_mask bit_and_iff bit_mask_iff bit_drop_bit_eq dest: bit_imp_le_length)

lemma bit_sign_extend [word_bits]:
  assumes "0 < len" "len \<le> 64"
  shows "bit (sign_extend x len) n \<longleftrightarrow> n < 64 \<and> bit x (if n < len then n else len - 1)"
  using assms
  by (auto simp: sign_extend_def bit_signed_drop_bit_iff bit_push_bit_iff Let_def)

lemma bit_sign_extend_32 [word_bits]:
  assumes "0 < len" "len \<le> 32"
  shows "bit (sign_extend_32 x len) n \<longleftrightarrow> n < 32 \<and> bit x (if n < len then n else len - 1)"
  using assms
  by (auto simp: sign_extend_32_def bit_signed_drop_bit_iff bit_push_bit_iff Let_def)

text \<open>Sign extension from 32 bits is the cast through a signed 32-bit integer.\<close>

lemma bit_scast32 [word_bits]:
  "bit (scast (w :: u32) :: u64) n \<longleftrightarrow> n < 64 \<and> bit w (if n < 32 then n else 31)"
proof (cases "n < 31")
  case False
  then consider "n = 31" | "32 \<le> n" by linarith
  then show ?thesis by cases (auto simp: bit_signed_iff min_def)
qed (auto simp: bit_signed_iff min_def)

lemma sign_extend_ucast32: "sign_extend (ucast w) 32 = scast (w :: u32)"
  by (rule bit_word_eqI) (auto simp: bit_sign_extend bit_scast32 bit_ucast_iff)

lemma sign_extend_scast: "sign_extend x 32 = scast (ucast x :: u32)"
  by (rule bit_word_eqI) (auto simp: bit_sign_extend bit_scast32 bit_ucast_iff)

definition is_sext32 :: "u64 \<Rightarrow> bool" where
  "is_sext32 x \<longleftrightarrow> sign_extend x 32 = x"

lemma is_sext32_sign_extend [simp, intro]: "is_sext32 (sign_extend x 32)"
  unfolding is_sext32_def by (rule bit_word_eqI) (auto simp: bit_sign_extend)

lemma sint_sign_extend32: "sint (sign_extend x 32) = sint (ucast x :: u32)"
  by (simp add: sign_extend_scast sint_up_scast is_up)

text \<open>Truncation to 32 bits is a ring homomorphism.\<close>

lemma mod_2_64_32: "(a :: int) mod 18446744073709551616 mod 4294967296 = a mod 4294967296"
  by (rule mod_mod_cancel) simp
lemma ucast32_add: "ucast (a + b :: u64) = (ucast a + ucast b :: u32)"
  by transfer (simp add: take_bit_eq_mod, metis mod_2_64_32 mod_add_eq)
lemma ucast32_mult: "ucast (a * b :: u64) = (ucast a * ucast b :: u32)"
  by transfer (simp add: take_bit_eq_mod, metis mod_2_64_32 mod_mult_eq)
lemma ucast32_diff: "ucast (a - b :: u64) = (ucast a - ucast b :: u32)"
  by transfer (simp add: take_bit_eq_mod, metis mod_2_64_32 mod_diff_eq)

lemma bit_less_pow2:
  assumes "unat (d :: u32) < 2 ^ k" "bit d n"
  shows "n < k"
proof (rule ccontr)
  assume "\<not> n < k"
  have "take_bit k (unat d) = unat d" using assms(1) by (simp add: take_bit_nat_eq_self)
  then have "\<not> bit (unat d) n" using \<open>\<not> n < k\<close> by (metis bit_take_bit_iff)
  then show False using assms(2) by (simp add: bit_unsigned_iff)
qed

section \<open>Byte buffers\<close>

definition m_ntoh16 :: "bytes \<Rightarrow> nat \<Rightarrow> u16" where
  "m_ntoh16 p i = push_bit 8 (ucast (p ! i)) OR ucast (p ! (i + 1))"

definition m_ntoh32 :: "bytes \<Rightarrow> nat \<Rightarrow> u32" where
  "m_ntoh32 p i = push_bit 24 (ucast (p ! i)) OR push_bit 16 (ucast (p ! (i + 1)))
     OR push_bit 8 (ucast (p ! (i + 2))) OR ucast (p ! (i + 3))"

text \<open>\<open>memcpy(&dst[pos], src, length src)\<close>, the destination being large enough.\<close>

definition memcpy_at :: "bytes \<Rightarrow> nat \<Rightarrow> bytes \<Rightarrow> bytes" where
  "memcpy_at dst pos src = take pos dst @ src @ drop (pos + length src) dst"

definition hton16_bytes :: "u16 \<Rightarrow> bytes" where
  "hton16_bytes v = [ucast (drop_bit 8 v), ucast v]"

definition hton32_bytes :: "u32 \<Rightarrow> bytes" where
  "hton32_bytes v = [ucast (drop_bit 24 v), ucast (drop_bit 16 v), ucast (drop_bit 8 v), ucast v]"

definition m_hton16 :: "bytes \<Rightarrow> nat \<Rightarrow> u16 \<Rightarrow> bytes" where
  "m_hton16 p i v = memcpy_at p i (hton16_bytes v)"

definition m_hton32 :: "bytes \<Rightarrow> nat \<Rightarrow> u32 \<Rightarrow> bytes" where
  "m_hton32 p i v = memcpy_at p i (hton32_bytes v)"

lemma length_hton [buf_simps]:
  "length (hton16_bytes v) = 2" "length (hton32_bytes w) = 4"
  by (simp_all add: hton16_bytes_def hton32_bytes_def)

lemma length_memcpy_at [buf_simps]:
  "pos + length src \<le> length dst \<Longrightarrow> length (memcpy_at dst pos src) = length dst"
  by (simp add: memcpy_at_def)

lemma nth_memcpy_at [buf_simps]:
  "pos + length src \<le> length dst \<Longrightarrow> i < length dst \<Longrightarrow>
   memcpy_at dst pos src ! i =
     (if pos \<le> i \<and> i < pos + length src then src ! (i - pos) else dst ! i)"
  by (auto simp: memcpy_at_def nth_append min_def)

lemma memcpy_at_Nil [simp]: "memcpy_at dst pos [] = dst"
  by (simp add: memcpy_at_def)

lemma take_memcpy_at [buf_simps]:
  "n \<le> pos \<Longrightarrow> pos \<le> length dst \<Longrightarrow> take n (memcpy_at dst pos src) = take n dst"
  by (simp add: memcpy_at_def)

lemma drop_memcpy_at [buf_simps]:
  "pos + length src \<le> n \<Longrightarrow> pos \<le> length dst \<Longrightarrow> drop n (memcpy_at dst pos src) = drop n dst"
  by (simp add: memcpy_at_def)

lemma length_m_hton [buf_simps]:
  "i + 2 \<le> length p \<Longrightarrow> length (m_hton16 p i v) = length p"
  "i + 4 \<le> length p \<Longrightarrow> length (m_hton32 p i w) = length p"
  by (simp_all add: m_hton16_def m_hton32_def buf_simps)

lemma bit_m_ntoh32 [word_bits]:
  "bit (m_ntoh32 p i) n \<longleftrightarrow>
     (if n < 8 then bit (p ! (i + 3)) n
      else if n < 16 then bit (p ! (i + 2)) (n - 8)
      else if n < 24 then bit (p ! (i + 1)) (n - 16)
      else n < 32 \<and> bit (p ! i) (n - 24))"
  by (auto simp: m_ntoh32_def bit_or_iff bit_push_bit_iff bit_ucast_iff dest: bit_imp_le_length)

lemma bit_m_ntoh16 [word_bits]:
  "bit (m_ntoh16 p i) n \<longleftrightarrow>
     (if n < 8 then bit (p ! (i + 1)) n else n < 16 \<and> bit (p ! i) (n - 8))"
  by (auto simp: m_ntoh16_def bit_or_iff bit_push_bit_iff bit_ucast_iff dest: bit_imp_le_length)

lemma bit_hton32_bytes [word_bits]:
  "bit (hton32_bytes v ! 0) n \<longleftrightarrow> n < 8 \<and> bit v (24 + n)"
  "bit (hton32_bytes v ! 1) n \<longleftrightarrow> n < 8 \<and> bit v (16 + n)"
  "bit (hton32_bytes v ! 2) n \<longleftrightarrow> n < 8 \<and> bit v (8 + n)"
  "bit (hton32_bytes v ! 3) n \<longleftrightarrow> n < 8 \<and> bit v n"
  by (auto simp: hton32_bytes_def bit_ucast_iff bit_drop_bit_eq)

lemma bit_hton16_bytes [word_bits]:
  "bit (hton16_bytes v ! 0) n \<longleftrightarrow> n < 8 \<and> bit v (8 + n)"
  "bit (hton16_bytes v ! 1) n \<longleftrightarrow> n < 8 \<and> bit v n"
  by (auto simp: hton16_bytes_def bit_ucast_iff bit_drop_bit_eq)

lemma nth_m_hton32:
  assumes "i + 4 \<le> length p"
  shows "m_hton32 p i v ! i = hton32_bytes v ! 0"
    "m_hton32 p i v ! (i + 1) = hton32_bytes v ! 1"
    "m_hton32 p i v ! (i + 2) = hton32_bytes v ! 2"
    "m_hton32 p i v ! (i + 3) = hton32_bytes v ! 3"
  using assms by (simp_all add: m_hton32_def buf_simps)

lemma nth_m_hton16:
  assumes "i + 2 \<le> length p"
  shows "m_hton16 p i v ! i = hton16_bytes v ! 0"
    "m_hton16 p i v ! (i + 1) = hton16_bytes v ! 1"
  using assms by (simp_all add: m_hton16_def buf_simps)

lemma m_ntoh32_hton32 [buf_simps]:
  assumes "i + 4 \<le> length p"
  shows "m_ntoh32 (m_hton32 p i v) i = v"
  by (rule bit_word_eqI)
     (auto simp: bit_m_ntoh32 nth_m_hton32 [OF assms, unfolded One_nat_def]
        nth_m_hton32 [OF assms] bit_hton32_bytes simp del: add_Suc_right One_nat_def add_2_eq_Suc')

lemma m_ntoh16_hton16 [buf_simps]:
  assumes "i + 2 \<le> length p"
  shows "m_ntoh16 (m_hton16 p i v) i = v"
  by (rule bit_word_eqI)
     (auto simp: bit_m_ntoh16 nth_m_hton16 [OF assms] bit_hton16_bytes
        simp del: add_Suc_right One_nat_def add_2_eq_Suc')

section \<open>Lists\<close>

lemma list_eq_take_append_drop: "n \<le> length xs \<Longrightarrow> take n xs @ drop n xs = xs"
  by simp

lemma map_of_Some_in_set: "map_of xs k = Some v \<Longrightarrow> (k, v) \<in> set xs"
  by (rule map_of_SomeD)

lemma find_Some_in_set: "List.find P xs = Some x \<Longrightarrow> x \<in> set xs \<and> P x"
  by (auto simp: find_Some_iff)

end
