(* ===== verification/Hash.thy ===== *)
theory Hash
  imports Prelude
begin

text \<open>
  The chained hash tables of \<open>common/hash.c\<close>.  A table carries its hash function and
  its key comparison, as in C; what a client may rely on depends on a contract between
  the two, stated as the locale \<open>hash_keys\<close>: on the keys the client uses, the comparison
  is an equivalence and equivalent keys have the same hash.  Inside it the table is shown to
  behave as a finite map; the locale is interpreted for the four key kinds of \<open>hash.h\<close>
  (strings, integers, 64-bit integers, pointers).
\<close>

section \<open>Hash and comparison functions\<close>

text \<open>One round of \<open>str_hash\<close>; \<open>char\<close> is signed, as on the usual hosts.\<close>

definition str_hash_step :: "u32 \<Rightarrow> u8 \<Rightarrow> u32" where
  "str_hash_step h0 c =
     (let h = push_bit 4 h0 + scast c; g = h AND 0xf0000000
      in if g \<noteq> 0 then (h XOR drop_bit 24 g) XOR g else h)"

definition str_hash :: "string \<Rightarrow> u32" where
  "str_hash s = foldl str_hash_step 0 (map of_char s)"

definition str_equal :: "string \<Rightarrow> string \<Rightarrow> bool" where
  "str_equal s1 s2 \<longleftrightarrow> s1 = s2"

text \<open>Integer keys are pointers cast to \<open>int\<close>: only the low 32 bits count.\<close>

definition int_equal :: "u64 \<Rightarrow> u64 \<Rightarrow> bool" where
  "int_equal i1 i2 \<longleftrightarrow> (ucast i1 :: u32) = ucast i2"

definition int_hash :: "u64 \<Rightarrow> u32" where
  "int_hash i = (let val = ucast i :: u32 in val XOR drop_bit 16 val)"

definition u64_equal :: "u64 \<Rightarrow> u64 \<Rightarrow> bool" where
  "u64_equal i1 i2 \<longleftrightarrow> i1 = i2"

definition u64_hash :: "u64 \<Rightarrow> u32" where
  "u64_hash val = ucast (val XOR drop_bit 32 val)"

definition ptr_equal :: "u64 \<Rightarrow> u64 \<Rightarrow> bool" where
  "ptr_equal i1 i2 \<longleftrightarrow> i1 = i2"

definition ptr_hash :: "u64 \<Rightarrow> u32" where
  "ptr_hash val =
     ucast ((val AND 0xFFFF) XOR (drop_bit 24 val AND 0xFFFF) XOR (drop_bit 48 val AND 0xFFFF))"

section \<open>Tables\<close>

record ('k, 'v) hash_table =
  ht_size :: nat
  ht_nnodes :: int
  ht_nodes :: "nat \<Rightarrow> ('k \<times> 'v) list"
  ht_hash_func :: "'k \<Rightarrow> u32"
  ht_key_cmp :: "'k \<Rightarrow> 'k \<Rightarrow> bool"

definition hash_table_create ::
  "('k \<Rightarrow> u32) option \<Rightarrow> ('k \<Rightarrow> 'k \<Rightarrow> bool) \<Rightarrow> int \<Rightarrow> ('k, 'v) hash_table option" where
  "hash_table_create hash_func key_cmp hash_size =
     (case hash_func of None \<Rightarrow> None
      | Some f \<Rightarrow>
          if hash_size \<le> 0 then None
          else Some \<lparr>ht_size = nat hash_size, ht_nnodes = 0, ht_nodes = (\<lambda>_. []),
                     ht_hash_func = f, ht_key_cmp = key_cmp\<rparr>)"

definition ht_bucket :: "('k, 'v) hash_table \<Rightarrow> 'k \<Rightarrow> nat" where
  "ht_bucket ht key = unat (ht_hash_func ht key) mod ht_size ht"

text \<open>The chain walks: replace, unlink, find the first node whose key compares equal.\<close>

fun chain_replace :: "('k \<Rightarrow> 'k \<Rightarrow> bool) \<Rightarrow> 'k \<Rightarrow> 'v \<Rightarrow> ('k \<times> 'v) list \<Rightarrow> ('k \<times> 'v) list option" where
  "chain_replace cmp key v [] = None"
| "chain_replace cmp key v (n # ns) =
     (if cmp (fst n) key then Some ((fst n, v) # ns)
      else map_option (Cons n) (chain_replace cmp key v ns))"

fun chain_unlink :: "('k \<Rightarrow> 'k \<Rightarrow> bool) \<Rightarrow> 'k \<Rightarrow> ('k \<times> 'v) list \<Rightarrow> ('v \<times> ('k \<times> 'v) list) option" where
  "chain_unlink cmp key [] = None"
| "chain_unlink cmp key (n # ns) =
     (if cmp (fst n) key then Some (snd n, ns)
      else map_option (\<lambda>(v, r). (v, n # r)) (chain_unlink cmp key ns))"

fun chain_find :: "('k \<Rightarrow> 'k \<Rightarrow> bool) \<Rightarrow> 'k \<Rightarrow> ('k \<times> 'v) list \<Rightarrow> 'v option" where
  "chain_find cmp key [] = None"
| "chain_find cmp key (n # ns) = (if cmp (fst n) key then Some (snd n) else chain_find cmp key ns)"

definition hash_table_insert :: "('k, 'v) hash_table \<Rightarrow> 'k \<Rightarrow> 'v \<Rightarrow> ('k, 'v) hash_table" where
  "hash_table_insert ht key v =
     (let h = ht_bucket ht key
      in case chain_replace (ht_key_cmp ht) key v (ht_nodes ht h) of
           Some ns \<Rightarrow> ht\<lparr>ht_nodes := (ht_nodes ht)(h := ns)\<rparr>
         | None \<Rightarrow> ht\<lparr>ht_nodes := (ht_nodes ht)(h := (key, v) # ht_nodes ht h),
                      ht_nnodes := ht_nnodes ht + 1\<rparr>)"

definition hash_table_remove :: "('k, 'v) hash_table \<Rightarrow> 'k \<Rightarrow> 'v option \<times> ('k, 'v) hash_table" where
  "hash_table_remove ht key =
     (let h = ht_bucket ht key
      in case chain_unlink (ht_key_cmp ht) key (ht_nodes ht h) of
           None \<Rightarrow> (None, ht)
         | Some (v, ns) \<Rightarrow> (Some v, ht\<lparr>ht_nodes := (ht_nodes ht)(h := ns)\<rparr>))"

definition hash_table_lookup :: "('k, 'v) hash_table \<Rightarrow> 'k \<Rightarrow> 'v option" where
  "hash_table_lookup ht key = chain_find (ht_key_cmp ht) key (ht_nodes ht (ht_bucket ht key))"

definition hash_table_lookup_dcmp :: "('k, 'v) hash_table \<Rightarrow> 'k \<Rightarrow> 'v option" where
  "hash_table_lookup_dcmp ht key = chain_find (=) key (ht_nodes ht (ht_bucket ht key))"

definition hash_table_foreach :: "('k \<Rightarrow> 'v \<Rightarrow> 's \<Rightarrow> 's) \<Rightarrow> ('k, 'v) hash_table \<Rightarrow> 's \<Rightarrow> 's" where
  "hash_table_foreach user_fn ht s =
     fold (\<lambda>i. fold (\<lambda>(k, v). user_fn k v) (ht_nodes ht i)) [0..<ht_size ht] s"

text \<open>A client's sequence of updates, on a table and on the finite map it stands for.\<close>

datatype ('k, 'v) ht_op = Ht_Insert 'k 'v | Ht_Remove 'k

fun ht_apply :: "('k, 'v) ht_op \<Rightarrow> ('k, 'v) hash_table \<Rightarrow> ('k, 'v) hash_table" where
  "ht_apply (Ht_Insert k v) ht = hash_table_insert ht k v"
| "ht_apply (Ht_Remove k) ht = snd (hash_table_remove ht k)"

fun map_apply :: "('k, 'v) ht_op \<Rightarrow> ('k \<rightharpoonup> 'v) \<Rightarrow> ('k \<rightharpoonup> 'v)" where
  "map_apply (Ht_Insert k v) m = m(k \<mapsto> v)"
| "map_apply (Ht_Remove k) m = m(k := None)"

section \<open>The contract on keys\<close>

text \<open>Pairwise inequivalent keys on a chain.\<close>

fun chain_distinct :: "('k \<Rightarrow> 'k \<Rightarrow> bool) \<Rightarrow> ('k \<times> 'v) list \<Rightarrow> bool" where
  "chain_distinct cmp [] \<longleftrightarrow> True"
| "chain_distinct cmp (n # ns) \<longleftrightarrow> (\<forall>m\<in>set ns. \<not> cmp (fst m) (fst n)) \<and> chain_distinct cmp ns"

locale hash_keys =
  fixes hash :: "'k \<Rightarrow> u32" and cmp :: "'k \<Rightarrow> 'k \<Rightarrow> bool" and ok :: "'k \<Rightarrow> bool"
  assumes cmp_refl: "ok k \<Longrightarrow> cmp k k"
    and cmp_sym: "ok k \<Longrightarrow> ok l \<Longrightarrow> cmp k l \<Longrightarrow> cmp l k"
    and cmp_trans: "ok k \<Longrightarrow> ok l \<Longrightarrow> ok m \<Longrightarrow> cmp k l \<Longrightarrow> cmp l m \<Longrightarrow> cmp k m"
    and cmp_hash: "ok k \<Longrightarrow> ok l \<Longrightarrow> cmp k l \<Longrightarrow> hash k = hash l"
begin

definition ht_inv :: "('k, 'v) hash_table \<Rightarrow> bool" where
  "ht_inv ht \<longleftrightarrow> 0 < ht_size ht \<and> ht_hash_func ht = hash \<and> ht_key_cmp ht = cmp \<and>
     (\<forall>h. chain_distinct cmp (ht_nodes ht h)) \<and>
     (\<forall>h. \<forall>n \<in> set (ht_nodes ht h). ok (fst n) \<and> ht_bucket ht (fst n) = h)"

lemma find_replace:
  assumes "\<And>n. n \<in> set ns \<Longrightarrow> ok (fst n)" "ok k" "ok k'" "chain_replace cmp k v ns = Some ns'"
  shows "chain_find cmp k' ns' = (if cmp k k' then Some v else chain_find cmp k' ns)"
  using assms
proof (induction ns arbitrary: ns')
  case (Cons n ns)
  then have n: "ok (fst n)" by simp
  show ?case
  proof (cases "cmp (fst n) k")
    case True
    then have "cmp (fst n) k' \<longleftrightarrow> cmp k k'"
      using n Cons.prems(2,3) by (meson cmp_sym cmp_trans)
    then show ?thesis using True Cons.prems by auto
  next
    case False
    then obtain r where r: "chain_replace cmp k v ns = Some r" "ns' = n # r"
      using Cons.prems by auto
    have "\<not> cmp k k'" if "cmp (fst n) k'"
      using False that n Cons.prems(2,3) by (meson cmp_sym cmp_trans)
    then show ?thesis using r Cons by auto
  qed
qed simp

lemma replace_None:
  "chain_replace cmp k v ns = None \<longleftrightarrow> (\<forall>n \<in> set ns. \<not> cmp (fst n) k)"
  by (induction ns) auto

lemma replace_keys:
  "chain_replace cmp k v ns = Some ns' \<Longrightarrow> map fst ns' = map fst ns"
  by (induction ns arbitrary: ns') (auto split: if_splits)

lemma distinct_keys_only:
  "map fst ns = map fst ms \<Longrightarrow> chain_distinct cmp ns = chain_distinct cmp ms"
proof (induction ns arbitrary: ms)
  case (Cons n ns)
  then obtain m ms' where ms: "ms = m # ms'" "fst n = fst m" "map fst ns = map fst ms'" by auto
  have "fst ` set ns = fst ` set ms'" using ms(3) by (metis list.set_map)
  then have "(\<forall>x\<in>set ns. \<not> cmp (fst x) (fst n)) = (\<forall>x\<in>set ms'. \<not> cmp (fst x) (fst n))"
    by (metis (no_types, lifting) image_iff)
  then show ?case using ms Cons.IH by simp
qed simp

lemma find_none: "(\<forall>n \<in> set ns. \<not> cmp (fst n) k) \<longleftrightarrow> chain_find cmp k ns = None"
  by (induction ns) auto

lemma find_unlink:
  assumes "\<And>n. n \<in> set ns \<Longrightarrow> ok (fst n)" "ok k" "ok k'" "chain_distinct cmp ns"
    "chain_unlink cmp k ns = Some (v, ns')"
  shows "chain_find cmp k' ns' = (if cmp k k' then None else chain_find cmp k' ns)"
    and "chain_find cmp k ns = Some v"
    and "chain_distinct cmp ns'" and "set ns' \<subseteq> set ns"
  using assms
proof (induction ns arbitrary: ns')
  case (Cons n ns)
  {
    case 1
    then have n: "ok (fst n)" by simp
    show ?case
    proof (cases "cmp (fst n) k")
      case True
      then have e: "ns' = ns" using 1 by auto
      have k: "cmp (fst n) k' \<longleftrightarrow> cmp k k'"
        using True n 1(2,3) by (meson cmp_sym cmp_trans)
      have "\<not> cmp (fst m) k'" if "m \<in> set ns" "cmp k k'" for m
      proof
        assume "cmp (fst m) k'"
        moreover have "ok (fst m)" using 1(1) that by simp
        ultimately have "cmp (fst m) (fst n)"
          using that k n 1(3) by (meson cmp_sym cmp_trans)
        then show False using 1(4) that(1) by simp
      qed
      then have "chain_find cmp k' ns = None" if "cmp k k'"
        using that find_none [of ns k'] by blast
      then show ?thesis using e k by simp
    next
      case False
      then obtain r where r: "chain_unlink cmp k ns = Some (v, r)" "ns' = n # r" using 1 by auto
      have "\<not> cmp k k'" if "cmp (fst n) k'"
        using False that n 1(2,3) by (meson cmp_sym cmp_trans)
      then show ?thesis using r Cons.IH(1) [of r] 1 by auto
    qed
  next
    case 2
    then show ?case using Cons.IH(2) by (cases "cmp (fst n) k") auto
  next
    case 3
    then show ?case
    proof (cases "cmp (fst n) k")
      case False
      then obtain r where r: "chain_unlink cmp k ns = Some (v, r)" "ns' = n # r" using 3 by auto
      then have "chain_distinct cmp r" "set r \<subseteq> set ns"
        using Cons.IH(3,4) [of r] 3 by auto
      then show ?thesis using r 3(4) by auto
    qed auto
  next
    case 4
    then show ?case
    proof (cases "cmp (fst n) k")
      case False
      then obtain r where r: "chain_unlink cmp k ns = Some (v, r)" "ns' = n # r" using 4 by auto
      then show ?thesis using Cons.IH(4) [of r] 4 by auto
    qed auto
  }
qed simp_all

lemma unlink_None: "chain_unlink cmp k ns = None \<longleftrightarrow> chain_find cmp k ns = None"
  by (induction ns) auto

lemma same_bucket:
  "ht_inv ht \<Longrightarrow> ok k \<Longrightarrow> ok k' \<Longrightarrow> cmp k k' \<Longrightarrow> ht_bucket ht k = ht_bucket ht k'"
  unfolding ht_inv_def ht_bucket_def using cmp_hash by metis

lemma ht_inv_ok: "ht_inv ht \<Longrightarrow> n \<in> set (ht_nodes ht h) \<Longrightarrow> ok (fst n)"
  by (simp add: ht_inv_def)

lemma ht_inv_node:
  "ht_inv ht \<Longrightarrow> n \<in> set (ht_nodes ht h) \<Longrightarrow> ok (fst n) \<and> ht_bucket ht (fst n) = h"
  by (simp add: ht_inv_def)

lemma create_inv:
  assumes "0 < sz"
  obtains ht where "hash_table_create (Some hash) cmp sz = Some ht" "ht_inv ht"
    "\<And>k. hash_table_lookup ht k = None"
  using assms by (simp add: hash_table_create_def ht_inv_def ht_bucket_def hash_table_lookup_def)

lemma lookup_insert:
  assumes "ht_inv ht" "ok k" "ok k'"
  shows "hash_table_lookup (hash_table_insert ht k v) k' =
    (if cmp k k' then Some v else hash_table_lookup ht k')"
proof -
  let ?h = "ht_bucket ht k" and ?h' = "ht_bucket ht k'"
  have c: "ht_key_cmp ht = cmp" using assms(1) by (simp add: ht_inv_def)
  have b: "ht_bucket (ht\<lparr>ht_nodes := x, ht_nnodes := y\<rparr>) z = ht_bucket ht z"
    "ht_bucket (ht\<lparr>ht_nodes := x\<rparr>) z = ht_bucket ht z" for x y z by (simp_all add: ht_bucket_def)
  have s: "cmp k k' \<Longrightarrow> ?h = ?h'" using same_bucket assms by blast
  show ?thesis
  proof (cases "chain_replace cmp k v (ht_nodes ht ?h)")
    case None
    then have "chain_find cmp k' (ht_nodes ht ?h') = None" if "cmp k k'"
      using that s assms ht_inv_ok [OF assms(1)] unfolding replace_None find_none [symmetric]
      by (metis cmp_sym cmp_trans)
    then show ?thesis using None s by (auto simp: hash_table_insert_def hash_table_lookup_def Let_def c b)
  next
    case (Some ns)
    then show ?thesis
      using s find_replace [OF ht_inv_ok [OF assms(1)] assms(2,3) Some]
      by (auto simp: hash_table_insert_def hash_table_lookup_def Let_def c b)
  qed
qed

lemma insert_inv:
  assumes "ht_inv ht" "ok k"
  shows "ht_inv (hash_table_insert ht k v)"
proof -
  let ?h = "ht_bucket ht k"
  have b: "ht_bucket (ht\<lparr>ht_nodes := x, ht_nnodes := y\<rparr>) z = ht_bucket ht z"
    "ht_bucket (ht\<lparr>ht_nodes := x\<rparr>) z = ht_bucket ht z" for x y z by (simp_all add: ht_bucket_def)
  have c: "ht_key_cmp ht = cmp" using assms(1) by (simp add: ht_inv_def)
  show ?thesis
  proof (cases "chain_replace cmp k v (ht_nodes ht ?h)")
    case None
    then have "\<forall>n\<in>set (ht_nodes ht ?h). \<not> cmp (fst n) k" by (simp add: replace_None)
    moreover have "hash_table_insert ht k v =
        ht\<lparr>ht_nodes := (ht_nodes ht)(?h := (k, v) # ht_nodes ht ?h), ht_nnodes := ht_nnodes ht + 1\<rparr>"
      using None by (simp add: hash_table_insert_def Let_def c)
    ultimately show ?thesis using assms by (auto simp: ht_inv_def b)
  next
    case (Some ns)
    note keys = replace_keys [OF Some]
    have "chain_distinct cmp ns"
      using assms(1) distinct_keys_only [OF keys] by (simp add: ht_inv_def)
    moreover have "ok (fst n) \<and> ht_bucket ht (fst n) = ?h" if "n \<in> set ns" for n
    proof -
      have "fst n \<in> fst ` set (ht_nodes ht ?h)" using that keys by (metis image_eqI list.set_map)
      then obtain m where "m \<in> set (ht_nodes ht ?h)" "fst n = fst m" by blast
      then show ?thesis using ht_inv_node [OF assms(1)] by simp
    qed
    moreover have "hash_table_insert ht k v = ht\<lparr>ht_nodes := (ht_nodes ht)(?h := ns)\<rparr>"
      using Some by (simp add: hash_table_insert_def Let_def c)
    ultimately show ?thesis using assms by (auto simp: ht_inv_def b)
  qed
qed

lemma remove_laws:
  assumes "ht_inv ht" "ok k" "ok k'"
  shows "fst (hash_table_remove ht k) = hash_table_lookup ht k"
    and "hash_table_lookup (snd (hash_table_remove ht k)) k' =
      (if cmp k k' then None else hash_table_lookup ht k')"
    and "ht_inv (snd (hash_table_remove ht k))"
proof -
  let ?h = "ht_bucket ht k" and ?h' = "ht_bucket ht k'"
  have c: "ht_key_cmp ht = cmp" using assms(1) by (simp add: ht_inv_def)
  have b: "ht_bucket (ht\<lparr>ht_nodes := x\<rparr>) z = ht_bucket ht z" for x z by (simp add: ht_bucket_def)
  have s: "cmp k k' \<Longrightarrow> ?h = ?h'" using same_bucket assms by blast
  have d: "chain_distinct cmp (ht_nodes ht ?h)" using assms(1) by (simp add: ht_inv_def)
  have okn: "\<And>n. n \<in> set (ht_nodes ht ?h) \<Longrightarrow> ok (fst n)"
    and okn': "\<And>n. n \<in> set (ht_nodes ht ?h') \<Longrightarrow> ok (fst n)"
    using ht_inv_ok [OF assms(1)] by blast+
  have "fst (hash_table_remove ht k) = hash_table_lookup ht k \<and>
    hash_table_lookup (snd (hash_table_remove ht k)) k' =
      (if cmp k k' then None else hash_table_lookup ht k') \<and> ht_inv (snd (hash_table_remove ht k))"
  proof (cases "chain_unlink cmp k (ht_nodes ht ?h)")
    case None
    then have n: "chain_find cmp k (ht_nodes ht ?h) = None" by (simp add: unlink_None)
    have "chain_find cmp k' (ht_nodes ht ?h') = None" if "cmp k k'"
      using n that s assms okn' unfolding find_none [symmetric] by (metis cmp_sym cmp_trans)
    then show ?thesis
      using None n assms(1) by (simp add: hash_table_remove_def hash_table_lookup_def Let_def c)
  next
    case (Some r)
    obtain v ns where r: "r = (v, ns)" by (cases r)
    note u = find_unlink [OF okn assms(2,3) d Some [unfolded r]]
    have nodes: "\<forall>n\<in>set ns. ok (fst n) \<and> ht_bucket ht (fst n) = ?h"
      using u(4) ht_inv_node [OF assms(1)] by blast
    have inv: "ht_inv (ht\<lparr>ht_nodes := (ht_nodes ht)(?h := ns)\<rparr>)"
      using assms(1) u(3) nodes unfolding ht_inv_def by (simp add: b)
    show ?thesis
      using Some r u(1,2) s inv
      by (auto simp: hash_table_remove_def hash_table_lookup_def Let_def c b)
  qed
  then show "fst (hash_table_remove ht k) = hash_table_lookup ht k"
    "hash_table_lookup (snd (hash_table_remove ht k)) k' =
      (if cmp k k' then None else hash_table_lookup ht k')"
    "ht_inv (snd (hash_table_remove ht k))" by simp_all
qed

text \<open>When equivalent keys are equal the table refines a finite map.\<close>

lemma run_refines:
  assumes eq: "\<And>k l. cmp k l \<longleftrightarrow> k = l" and ok: "\<And>k. ok k" and inv: "ht_inv ht"
  shows "hash_table_lookup (fold ht_apply ops ht) = fold map_apply ops (hash_table_lookup ht)"
  using inv
proof (induction ops arbitrary: ht)
  case (Cons op ops)
  have "ht_inv (ht_apply op ht)"
    using insert_inv [OF Cons.prems ok] remove_laws(3) [OF Cons.prems ok ok]
    by (cases op) (simp_all only: ht_apply.simps)
  moreover have "hash_table_lookup (ht_apply op ht) = map_apply op (hash_table_lookup ht)"
    using lookup_insert [OF Cons.prems ok ok] remove_laws(2) [OF Cons.prems ok ok]
    by (cases op) (auto simp: eq fun_eq_iff)
  ultimately show ?case using Cons.IH by simp
qed simp

end

section \<open>The key kinds of hash.h\<close>

interpretation hash_string: hash_keys str_hash str_equal "\<lambda>_. True"
  by unfold_locales (simp_all add: str_equal_def)

interpretation hash_int: hash_keys int_hash int_equal "\<lambda>_. True"
  by unfold_locales (simp_all add: int_equal_def int_hash_def)

interpretation hash_u64: hash_keys u64_hash u64_equal "\<lambda>_. True"
  by unfold_locales (simp_all add: u64_equal_def)

interpretation hash_ptr: hash_keys ptr_hash ptr_equal "\<lambda>_. True"
  by unfold_locales (simp_all add: ptr_equal_def)

section \<open>What the clients rely on\<close>

text \<open>C21: A string-keyed table created with a positive size is, after any sequence of insertions
  and removals, exactly the finite map those updates describe: a lookup finds the value last
  inserted under an equal string that has not been removed since, and nothing else.\<close>

theorem hash_string_table_is_map:
  fixes ht :: "(string, 'v) hash_table"
  assumes "hash_table_create (Some str_hash) str_equal sz = Some ht"
  shows "hash_table_lookup (fold ht_apply ops ht) = fold map_apply ops Map.empty"
proof -
  have pos: "0 < sz" using assms by (simp add: hash_table_create_def split: if_splits)
  obtain ht' :: "(string, 'v) hash_table" where "hash_table_create (Some str_hash) str_equal sz = Some ht'"
    "hash_string.ht_inv ht'" "\<And>k. hash_table_lookup ht' k = None"
    using hash_string.create_inv [OF pos] by blast
  then have "hash_string.ht_inv ht" "hash_table_lookup ht = Map.empty"
    using assms by (auto simp: fun_eq_iff)
  then show ?thesis by (simp add: hash_string.run_refines str_equal_def)
qed

theorem hash_string_table_is_map_witness:
  "hash_table_lookup (fold ht_apply [Ht_Insert ''a'' (1::nat), Ht_Insert ''b'' 2, Ht_Remove ''a'']
     (the (hash_table_create (Some str_hash) str_equal 17))) = [''b'' \<mapsto> 2]"
  using hash_string_table_is_map [of 17 "the (hash_table_create (Some str_hash) str_equal 17)"
      "[Ht_Insert ''a'' (1::nat), Ht_Insert ''b'' 2, Ht_Remove ''a'']"]
  by (simp add: hash_table_create_def fun_eq_iff)

end
