(* ===== verification/Registry.thy ===== *)
theory Registry
  imports Hash
begin

text \<open>
  The object registry of \<open>common/registry.c\<close>: every simulated object (VM, NIO, switch,
  bridge, ...) is recorded under a name and a type, with a reference count. Entries sit on
  two chains at once, one bucket of the name hash table and the list of their type, so an
  entry is a cell of a store and the chains are lists of cell numbers. The abstract view
  \<open>reg_abs\<close> is the partial map from (name, type) to (data, reference count) that the
  rest of the program relies on; each operation is shown to implement it.
\<close>

section \<open>State (registry.h)\<close>

record 'd registry_entry =
  re_name :: string
  re_data :: 'd
  re_object_type :: nat
  re_ref_count :: int

record 'd registry =
  reg_entries :: "nat \<rightharpoonup> 'd registry_entry"
  ht_names :: "nat \<Rightarrow> nat list"
  ht_types :: "nat \<Rightarrow> nat list"

definition REGISTRY_HT_NAME_ENTRIES :: nat where
  "REGISTRY_HT_NAME_ENTRIES = 1024"

definition name_bucket :: "string \<Rightarrow> nat" where
  "name_bucket s = unat (str_hash s) mod REGISTRY_HT_NAME_ENTRIES"

definition registry_init :: "'d registry" where
  "registry_init = \<lparr>reg_entries = Map.empty, ht_names = (\<lambda>_. []), ht_types = (\<lambda>_. [])\<rparr>"

section \<open>Internal operations\<close>

definition entry_matches :: "'d registry \<Rightarrow> string \<Rightarrow> nat \<Rightarrow> nat \<Rightarrow> bool" where
  "entry_matches r name ty i =
     (case reg_entries r i of None \<Rightarrow> False
      | Some e \<Rightarrow> re_name e = name \<and> re_object_type e = ty)"

definition registry_find_entry :: "'d registry \<Rightarrow> string \<Rightarrow> nat \<Rightarrow> nat option" where
  "registry_find_entry r name ty = List.find (entry_matches r name ty) (ht_names r (name_bucket name))"

text \<open>Link a new cell at the head of its name bucket and of its type list.\<close>

definition registry_insert_entry :: "'d registry \<Rightarrow> nat \<Rightarrow> 'd registry_entry \<Rightarrow> 'd registry" where
  "registry_insert_entry r i e =
     r\<lparr>reg_entries := (reg_entries r)(i \<mapsto> e),
       ht_names := (ht_names r)(name_bucket (re_name e) := i # ht_names r (name_bucket (re_name e))),
       ht_types := (ht_types r)(re_object_type e := i # ht_types r (re_object_type e))\<rparr>"

text \<open>Unlink a cell from the two lists it is on, wherever they are.\<close>

definition registry_detach_entry :: "'d registry \<Rightarrow> nat \<Rightarrow> 'd registry" where
  "registry_detach_entry r i =
     r\<lparr>ht_names := (\<lambda>h. filter (\<lambda>j. j \<noteq> i) (ht_names r h)),
       ht_types := (\<lambda>t. filter (\<lambda>j. j \<noteq> i) (ht_types r t))\<rparr>"

definition registry_remove_entry :: "'d registry \<Rightarrow> nat \<Rightarrow> 'd registry" where
  "registry_remove_entry r i =
     (registry_detach_entry r i)\<lparr>reg_entries := (reg_entries r)(i := None)\<rparr>"

definition update_refs :: "'d registry \<Rightarrow> nat \<Rightarrow> (int \<Rightarrow> int) \<Rightarrow> 'd registry" where
  "update_refs r i f =
     r\<lparr>reg_entries := (reg_entries r)(i := map_option (re_ref_count_update f) (reg_entries r i))\<rparr>"

section \<open>Operations\<close>

text \<open>
  Names are pointers that may be NULL (\<open>None\<close>). \<open>cell\<close> is the answer of the memory
  pool's \<open>mp_alloc\<close>: a fresh cell, or \<open>None\<close> when it is out of memory.
\<close>

definition registry_add :: "'d registry \<Rightarrow> string option \<Rightarrow> nat \<Rightarrow> 'd \<Rightarrow> nat option \<Rightarrow> int \<times> 'd registry" where
  "registry_add r name ty d cell =
     (case name of None \<Rightarrow> (-1, r)
      | Some n \<Rightarrow>
          if registry_find_entry r n ty \<noteq> None then (-1, r)
          else (case cell of None \<Rightarrow> (-1, r)
            | Some i \<Rightarrow> (0, registry_insert_entry r i
                \<lparr>re_name = n, re_data = d, re_object_type = ty, re_ref_count = 1\<rparr>)))"

definition registry_delete :: "'d registry \<Rightarrow> string option \<Rightarrow> nat \<Rightarrow> int \<times> 'd registry" where
  "registry_delete r name ty =
     (case name of None \<Rightarrow> (-1, r)
      | Some n \<Rightarrow>
         (case registry_find_entry r n ty of None \<Rightarrow> (-1, r)
          | Some i \<Rightarrow>
              let r' = update_refs r i (\<lambda>c. c - 1) in
              (case reg_entries r' i of None \<Rightarrow> (-1, r)
               | Some e \<Rightarrow> if 0 < re_ref_count e then (0, r') else (0, registry_remove_entry r' i))))"

definition registry_rename :: "'d registry \<Rightarrow> string option \<Rightarrow> string option \<Rightarrow> nat \<Rightarrow> int \<times> 'd registry" where
  "registry_rename r name newname ty =
     (case (name, newname) of
        (Some n, Some m) \<Rightarrow>
          (case registry_find_entry r n ty of None \<Rightarrow> (-1, r)
           | Some i \<Rightarrow>
               if registry_find_entry r m ty \<noteq> None then (-1, r)
               else (case reg_entries r i of None \<Rightarrow> (-1, r)
                 | Some e \<Rightarrow>
                     (0, registry_insert_entry (registry_detach_entry r i) i (e\<lparr>re_name := m\<rparr>))))
      | _ \<Rightarrow> (-1, r))"

definition registry_find :: "'d registry \<Rightarrow> string option \<Rightarrow> nat \<Rightarrow> 'd option \<times> 'd registry" where
  "registry_find r name ty =
     (case name of None \<Rightarrow> (None, r)
      | Some n \<Rightarrow>
         (case registry_find_entry r n ty of None \<Rightarrow> (None, r)
          | Some i \<Rightarrow>
              let r' = update_refs r i (\<lambda>c. c + 1) in
              (map_option re_data (reg_entries r' i), r')))"

definition registry_exists :: "'d registry \<Rightarrow> string option \<Rightarrow> nat \<Rightarrow> 'd option" where
  "registry_exists r name ty =
     (case name of None \<Rightarrow> None
      | Some n \<Rightarrow>
         (case registry_find_entry r n ty of None \<Rightarrow> None
          | Some i \<Rightarrow> map_option re_data (reg_entries r i)))"

definition registry_unref :: "'d registry \<Rightarrow> string option \<Rightarrow> nat \<Rightarrow> int \<times> 'd registry" where
  "registry_unref r name ty =
     (case name of None \<Rightarrow> (-1, r)
      | Some n \<Rightarrow>
         (case registry_find_entry r n ty of None \<Rightarrow> (-1, r)
          | Some i \<Rightarrow>
              let r' = update_refs r i (\<lambda>c. c - 1) in
              (case reg_entries r' i of None \<Rightarrow> (-1, r)
               | Some e \<Rightarrow> (if re_ref_count e < 0 then -1 else 0, r'))))"

text \<open>
  \<open>registry_exec_refcount\<close> runs an action on the object's data; the action may itself
  change the registry (a destructor releases the NIOs the object holds).
\<close>

type_synonym 'd registry_exec = "'d \<Rightarrow> 'd registry \<Rightarrow> bool \<times> 'd registry"

definition registry_exec_refcount ::
  "'d registry \<Rightarrow> string option \<Rightarrow> nat \<Rightarrow> int \<Rightarrow> bool \<Rightarrow> 'd registry_exec option \<Rightarrow> int \<times> 'd registry" where
  "registry_exec_refcount r name ty max_ref reg_del obj_action =
     (case name of None \<Rightarrow> (-1, r)
      | Some n \<Rightarrow>
         (case registry_find_entry r n ty of None \<Rightarrow> (-1, r)
          | Some i \<Rightarrow>
             (case reg_entries r i of None \<Rightarrow> (-1, r)
              | Some e \<Rightarrow>
                  if re_ref_count e \<le> max_ref then
                    (let (status, r') = (case obj_action of None \<Rightarrow> (True, r) | Some f \<Rightarrow> f (re_data e) r)
                     in (1, if reg_del \<and> status then registry_remove_entry r' i else r'))
                  else (0, r))))"

definition registry_delete_if_unused ::
  "'d registry \<Rightarrow> string option \<Rightarrow> nat \<Rightarrow> 'd registry_exec option \<Rightarrow> int \<times> 'd registry" where
  "registry_delete_if_unused r name ty destructor = registry_exec_refcount r name ty 0 True destructor"

text \<open>
  Deletion of all unreferenced objects of a type walks the type list, reading each
  successor before the callback runs.
\<close>

fun delete_type_loop :: "'d registry_exec option \<Rightarrow> nat list \<Rightarrow> nat \<Rightarrow> 'd registry \<Rightarrow> nat \<times> 'd registry" where
  "delete_type_loop cb [] count r = (count, r)"
| "delete_type_loop cb (p # ps) count r =
     (case reg_entries r p of None \<Rightarrow> delete_type_loop cb ps count r
      | Some e \<Rightarrow>
          if re_ref_count e = 0 then
            (let (status, r') = (case cb of None \<Rightarrow> (True, r) | Some f \<Rightarrow> f (re_data e) r)
             in if status then delete_type_loop cb ps (count + 1) (registry_remove_entry r' p)
                else delete_type_loop cb ps count r')
          else delete_type_loop cb ps count r)"

definition registry_delete_type :: "'d registry \<Rightarrow> nat \<Rightarrow> 'd registry_exec option \<Rightarrow> nat \<times> 'd registry" where
  "registry_delete_type r ty cb = delete_type_loop cb (ht_types r ty) 0 r"

fun foreach_loop :: "('d registry_entry \<Rightarrow> 's \<Rightarrow> 's) \<Rightarrow> 'd registry \<Rightarrow> nat list \<Rightarrow> nat \<Rightarrow> 's \<Rightarrow> nat \<times> 's" where
  "foreach_loop cb r [] count s = (count, s)"
| "foreach_loop cb r (p # ps) count s =
     foreach_loop cb r ps (count + 1) (case reg_entries r p of None \<Rightarrow> s | Some e \<Rightarrow> cb e s)"

definition registry_foreach_type ::
  "'d registry \<Rightarrow> nat \<Rightarrow> ('d registry_entry \<Rightarrow> 's \<Rightarrow> 's) \<Rightarrow> 's \<Rightarrow> nat \<times> 's" where
  "registry_foreach_type r ty cb s = foreach_loop cb r (ht_types r ty) 0 s"

section \<open>Invariant and abstraction\<close>

definition reg_inv :: "'d registry \<Rightarrow> bool" where
  "reg_inv r \<longleftrightarrow>
     (\<forall>h i. i \<in> set (ht_names r h) \<longleftrightarrow>
        (\<exists>e. reg_entries r i = Some e \<and> h = name_bucket (re_name e))) \<and>
     (\<forall>t i. i \<in> set (ht_types r t) \<longleftrightarrow>
        (\<exists>e. reg_entries r i = Some e \<and> t = re_object_type e)) \<and>
     (\<forall>h. distinct (ht_names r h)) \<and> (\<forall>t. distinct (ht_types r t)) \<and>
     (\<forall>i j e f. reg_entries r i = Some e \<longrightarrow> reg_entries r j = Some f \<longrightarrow>
        re_name e = re_name f \<longrightarrow> re_object_type e = re_object_type f \<longrightarrow> i = j)"

definition reg_abs :: "'d registry \<Rightarrow> string \<times> nat \<rightharpoonup> 'd \<times> int" where
  "reg_abs r = (\<lambda>(name, ty). case registry_find_entry r name ty of None \<Rightarrow> None
     | Some i \<Rightarrow> map_option (\<lambda>e. (re_data e, re_ref_count e)) (reg_entries r i))"


section \<open>Lookup\<close>

lemma reg_invD:
  assumes "reg_inv r"
  shows reg_inv_names: "i \<in> set (ht_names r h) \<longleftrightarrow>
      (\<exists>e. reg_entries r i = Some e \<and> h = name_bucket (re_name e))"
    and reg_inv_types: "i \<in> set (ht_types r t) \<longleftrightarrow>
      (\<exists>e. reg_entries r i = Some e \<and> t = re_object_type e)"
    and reg_inv_distinct: "distinct (ht_names r h)" "distinct (ht_types r t)"
    and reg_inv_unique: "reg_entries r i = Some e \<Longrightarrow> reg_entries r j = Some f \<Longrightarrow>
      re_name e = re_name f \<Longrightarrow> re_object_type e = re_object_type f \<Longrightarrow> i = j"
  using assms unfolding reg_inv_def by blast+

lemma registry_find_entry_iff:
  assumes "reg_inv r"
  shows "registry_find_entry r n ty = Some i \<longleftrightarrow>
    (\<exists>e. reg_entries r i = Some e \<and> re_name e = n \<and> re_object_type e = ty)"
proof
  assume "registry_find_entry r n ty = Some i"
  then show "\<exists>e. reg_entries r i = Some e \<and> re_name e = n \<and> re_object_type e = ty"
    unfolding registry_find_entry_def
    by (auto dest!: find_Some_in_set simp: entry_matches_def split: option.splits)
next
  assume "\<exists>e. reg_entries r i = Some e \<and> re_name e = n \<and> re_object_type e = ty"
  then obtain e where e: "reg_entries r i = Some e" "re_name e = n" "re_object_type e = ty"
    by blast
  then have "i \<in> set (ht_names r (name_bucket n))" "entry_matches r n ty i"
    using reg_inv_names [OF assms] by (auto simp: entry_matches_def)
  then have "List.find (entry_matches r n ty) (ht_names r (name_bucket n)) \<noteq> None"
    by (auto simp: find_None_iff)
  then obtain j where j: "List.find (entry_matches r n ty) (ht_names r (name_bucket n)) = Some j"
    by blast
  then obtain f where "reg_entries r j = Some f" "re_name f = n" "re_object_type f = ty"
    by (auto dest!: find_Some_in_set simp: entry_matches_def split: option.splits)
  with e have "j = i" using reg_inv_unique [OF assms] by metis
  with j show "registry_find_entry r n ty = Some i" by (simp add: registry_find_entry_def)
qed

lemma registry_find_entry_None:
  assumes "reg_inv r"
  shows "registry_find_entry r n ty = None \<longleftrightarrow>
    (\<forall>i e. reg_entries r i = Some e \<longrightarrow> re_name e = n \<longrightarrow> re_object_type e \<noteq> ty)"
  by (metis registry_find_entry_iff [OF assms] not_None_eq)

abbreviation entry_key :: "'d registry_entry \<Rightarrow> string \<times> nat" where
  "entry_key e \<equiv> (re_name e, re_object_type e)"

lemma reg_abs_entry:
  assumes "reg_inv r" "reg_entries r i = Some e"
  shows "reg_abs r (entry_key e) = Some (re_data e, re_ref_count e)"
proof -
  have "registry_find_entry r (re_name e) (re_object_type e) = Some i"
    using assms by (simp add: registry_find_entry_iff)
  with assms(2) show ?thesis by (simp add: reg_abs_def)
qed

lemma reg_abs_SomeD:
  assumes "reg_inv r" "reg_abs r k = Some v"
  shows "\<exists>i e. reg_entries r i = Some e \<and> entry_key e = k \<and> v = (re_data e, re_ref_count e)"
proof -
  obtain n ty where k: "k = (n, ty)" by (cases k)
  with assms(2) obtain i where i: "registry_find_entry r n ty = Some i"
    by (auto simp: reg_abs_def split: option.splits)
  then obtain e where "reg_entries r i = Some e" "entry_key e = k"
    using k by (auto simp: registry_find_entry_iff [OF assms(1)])
  with assms(2) reg_abs_entry [OF assms(1)] show ?thesis by fastforce
qed

lemma find_entry_abs:
  assumes "reg_inv r"
  shows "registry_find_entry r n ty = None \<longleftrightarrow> reg_abs r (n, ty) = None"
proof (cases "registry_find_entry r n ty")
  case (Some i)
  then obtain e where "reg_entries r i = Some e" "entry_key e = (n, ty)"
    by (auto simp: registry_find_entry_iff [OF assms])
  with Some reg_abs_entry [OF assms, of i e] show ?thesis by simp
qed (simp add: reg_abs_def)

lemma reg_abs_None:
  assumes "reg_inv r" "reg_abs r k = None" "reg_entries r i = Some e"
  shows "entry_key e \<noteq> k"
  using reg_abs_entry [OF assms(1,3)] assms(2) by auto

lemma reg_abs_eqI:
  assumes "reg_inv r"
    and "\<And>i e. reg_entries r i = Some e \<Longrightarrow> m (entry_key e) = Some (re_data e, re_ref_count e)"
    and "\<And>k v. m k = Some v \<Longrightarrow> \<exists>i e. reg_entries r i = Some e \<and> entry_key e = k"
  shows "reg_abs r = m"
proof
  fix k
  show "reg_abs r k = m k"
  proof (cases "reg_abs r k")
    case None
    then have "m k = None"
      using assms(3) [of k] reg_abs_None [OF assms(1) None] by (cases "m k") auto
    with None show ?thesis by simp
  next
    case (Some v)
    then show ?thesis using reg_abs_SomeD [OF assms(1) Some] assms(2) by fastforce
  qed
qed

section \<open>The invariant is kept\<close>

lemma reg_inv_init: "reg_inv registry_init"
  by (simp add: reg_inv_def registry_init_def)

lemma entries_insert:
  "reg_entries (registry_insert_entry r i e) j = Some f \<longleftrightarrow>
     (j = i \<and> f = e) \<or> (j \<noteq> i \<and> reg_entries r j = Some f)"
  by (auto simp: registry_insert_entry_def)

lemma entries_remove:
  "reg_entries (registry_remove_entry r i) j = Some f \<longleftrightarrow> j \<noteq> i \<and> reg_entries r j = Some f"
  by (auto simp: registry_remove_entry_def registry_detach_entry_def)

lemma entries_update_refs:
  "reg_entries r i = Some e \<Longrightarrow>
   reg_entries (update_refs r i f) j = Some g \<longleftrightarrow>
     (j = i \<and> g = re_ref_count_update f e) \<or> (j \<noteq> i \<and> reg_entries r j = Some g)"
  by (auto simp: update_refs_def)

lemma reg_inv_insert:
  assumes inv: "reg_inv r" and free: "reg_entries r i = None"
    and new: "reg_abs r (entry_key e) = None"
  shows "reg_inv (registry_insert_entry r i e)"
proof -
  let ?r = "registry_insert_entry r i e"
  have fresh: "i \<notin> set (ht_names r h)" "i \<notin> set (ht_types r t)" for h t
    using free reg_inv_names [OF inv] reg_inv_types [OF inv] by auto
  have 1: "j \<in> set (ht_names ?r h) \<longleftrightarrow>
      (\<exists>f. reg_entries ?r j = Some f \<and> h = name_bucket (re_name f))" for h j
    using fresh by (auto simp: registry_insert_entry_def reg_inv_names [OF inv])
  have 2: "j \<in> set (ht_types ?r t) \<longleftrightarrow>
      (\<exists>f. reg_entries ?r j = Some f \<and> t = re_object_type f)" for t j
    using fresh by (auto simp: registry_insert_entry_def reg_inv_types [OF inv])
  have 3: "distinct (ht_names ?r h)" "distinct (ht_types ?r t)" for h t
    using fresh by (auto simp: registry_insert_entry_def reg_inv_distinct [OF inv])
  have 4: "j = k" if "reg_entries ?r j = Some f" "reg_entries ?r k = Some g"
    "re_name f = re_name g" "re_object_type f = re_object_type g" for j k f g
    using that reg_abs_None [OF inv new] reg_inv_unique [OF inv]
    unfolding entries_insert by (metis prod.inject)
  show ?thesis unfolding reg_inv_def using 1 2 3 4 by blast
qed

lemma reg_inv_remove:
  assumes "reg_inv r"
  shows "reg_inv (registry_remove_entry r i)"
  using reg_invD [OF assms]
  by (auto simp: reg_inv_def registry_remove_entry_def registry_detach_entry_def split: if_splits)

lemma reg_inv_update_refs:
  assumes inv: "reg_inv r"
  shows "reg_inv (update_refs r i f)"
proof (cases "reg_entries r i")
  case None
  then have "update_refs r i f = r" by (simp add: update_refs_def fun_upd_idem)
  with inv show ?thesis by simp
next
  case (Some e)
  let ?r = "update_refs r i f"
  have tabs: "ht_names ?r = ht_names r" "ht_types ?r = ht_types r"
    by (simp_all add: update_refs_def)
  have 1: "j \<in> set (ht_names ?r h) \<longleftrightarrow>
      (\<exists>g. reg_entries ?r j = Some g \<and> h = name_bucket (re_name g))" for h j
    using Some by (cases "j = i") (auto simp: entries_update_refs [OF Some] tabs reg_inv_names [OF inv])
  have 2: "j \<in> set (ht_types ?r t) \<longleftrightarrow>
      (\<exists>g. reg_entries ?r j = Some g \<and> t = re_object_type g)" for t j
    using Some by (cases "j = i") (auto simp: entries_update_refs [OF Some] tabs reg_inv_types [OF inv])
  have 3: "j = k" if "reg_entries ?r j = Some g" "reg_entries ?r k = Some h"
    "re_name g = re_name h" "re_object_type g = re_object_type h" for j k g h
    using that reg_inv_unique [OF inv] Some by (auto simp: entries_update_refs [OF Some])
  show ?thesis unfolding reg_inv_def tabs
    using 1 2 3 reg_inv_distinct [OF inv] unfolding tabs by blast
qed

lemma relink_insert:
  "registry_insert_entry (registry_detach_entry r i) i e =
   registry_insert_entry (registry_remove_entry r i) i e"
  by (simp add: registry_insert_entry_def registry_remove_entry_def registry_detach_entry_def)

section \<open>What each primitive does to the abstract map\<close>

lemma reg_abs_init: "reg_abs registry_init = Map.empty"
  by (rule reg_abs_eqI [OF reg_inv_init]) (simp_all add: registry_init_def)

lemma reg_abs_insert:
  assumes inv: "reg_inv r" and free: "reg_entries r i = None"
    and new: "reg_abs r (entry_key e) = None"
  shows "reg_abs (registry_insert_entry r i e) = (reg_abs r)(entry_key e \<mapsto> (re_data e, re_ref_count e))"
proof (rule reg_abs_eqI [OF reg_inv_insert [OF assms]])
  show "((reg_abs r)(entry_key e \<mapsto> (re_data e, re_ref_count e))) (entry_key f) =
      Some (re_data f, re_ref_count f)" if "reg_entries (registry_insert_entry r i e) j = Some f" for j f
    using that reg_abs_None [OF inv new] reg_abs_entry [OF inv]
    unfolding entries_insert by (auto split: if_splits)
  show "\<exists>j f. reg_entries (registry_insert_entry r i e) j = Some f \<and> entry_key f = k"
    if "((reg_abs r)(entry_key e \<mapsto> (re_data e, re_ref_count e))) k = Some v" for k v
  proof (cases "k = entry_key e")
    case False
    with that obtain j f where "reg_entries r j = Some f" "entry_key f = k"
      using reg_abs_SomeD [OF inv, of k v] by auto
    then show ?thesis using free unfolding entries_insert by (metis option.distinct(1))
  qed (auto simp: entries_insert)
qed

lemma reg_abs_remove:
  assumes inv: "reg_inv r" and e: "reg_entries r i = Some e"
  shows "reg_abs (registry_remove_entry r i) = (reg_abs r)(entry_key e := None)"
proof (rule reg_abs_eqI [OF reg_inv_remove [OF inv]])
  show "((reg_abs r)(entry_key e := None)) (entry_key f) = Some (re_data f, re_ref_count f)"
    if "reg_entries (registry_remove_entry r i) j = Some f" for j f
    using that e reg_inv_unique [OF inv, of i e j f] reg_abs_entry [OF inv, of j f]
    unfolding entries_remove by auto
  show "\<exists>j f. reg_entries (registry_remove_entry r i) j = Some f \<and> entry_key f = k"
    if "((reg_abs r)(entry_key e := None)) k = Some v" for k v
  proof -
    from that have ne: "k \<noteq> entry_key e" and "reg_abs r k = Some v" by (auto split: if_splits)
    then obtain j f where f: "reg_entries r j = Some f" "entry_key f = k"
      using reg_abs_SomeD [OF inv] by blast
    then have "j \<noteq> i" using ne e by auto
    with f show ?thesis unfolding entries_remove by blast
  qed
qed

lemma reg_abs_update_refs:
  assumes inv: "reg_inv r" and e: "reg_entries r i = Some e"
  shows "reg_abs (update_refs r i f) = (reg_abs r)(entry_key e \<mapsto> (re_data e, f (re_ref_count e)))"
proof (rule reg_abs_eqI [OF reg_inv_update_refs [OF inv]])
  show "((reg_abs r)(entry_key e \<mapsto> (re_data e, f (re_ref_count e)))) (entry_key g) =
      Some (re_data g, re_ref_count g)" if "reg_entries (update_refs r i f) j = Some g" for j g
  proof (cases "j = i")
    case True
    with that have "g = re_ref_count_update f e" by (simp add: entries_update_refs [OF e])
    then show ?thesis by simp
  next
    case False
    with that have g: "reg_entries r j = Some g" by (simp add: entries_update_refs [OF e])
    with False have "entry_key g \<noteq> entry_key e" using reg_inv_unique [OF inv g e] by auto
    then show ?thesis using reg_abs_entry [OF inv g] by auto
  qed
  show "\<exists>j g. reg_entries (update_refs r i f) j = Some g \<and> entry_key g = k"
    if "((reg_abs r)(entry_key e \<mapsto> (re_data e, f (re_ref_count e)))) k = Some v" for k v
  proof (cases "k = entry_key e")
    case True
    then show ?thesis
      unfolding entries_update_refs [OF e] by (intro exI [of _ i] exI [of _ "re_ref_count_update f e"]) simp
  next
    case False
    with that obtain j g where g: "reg_entries r j = Some g" "entry_key g = k"
      using reg_abs_SomeD [OF inv, of k v] by auto
    then have "j \<noteq> i" using False e by auto
    with g show ?thesis unfolding entries_update_refs [OF e] by blast
  qed
qed


section \<open>The operations implement the abstract map\<close>

lemma registry_find_miss: "reg_inv r \<Longrightarrow> reg_abs r (n, ty) = None \<Longrightarrow> registry_find r (Some n) ty = (None, r)"
  by (simp add: registry_find_def flip: find_entry_abs)

lemma found_entry:
  assumes "reg_inv r" "reg_abs r (n, ty) = Some (d, c)"
  shows "\<exists>i e. registry_find_entry r n ty = Some i \<and> reg_entries r i = Some e \<and>
    entry_key e = (n, ty) \<and> re_data e = d \<and> re_ref_count e = c"
  using reg_abs_SomeD [OF assms] registry_find_entry_iff [OF assms(1)] by fastforce

lemma update_refs_self:
  "reg_entries r i = Some e \<Longrightarrow> reg_entries (update_refs r i f) i = Some (re_ref_count_update f e)"
  by (simp add: update_refs_def)

lemma registry_find_hit:
  assumes "reg_inv r" "reg_abs r (n, ty) = Some (d, c)"
  shows "fst (registry_find r (Some n) ty) = Some d"
    and "reg_inv (snd (registry_find r (Some n) ty))"
    and "reg_abs (snd (registry_find r (Some n) ty)) = (reg_abs r)((n, ty) \<mapsto> (d, c + 1))"
  using found_entry [OF assms] reg_inv_update_refs [OF assms(1)] reg_abs_update_refs [OF assms(1)]
  by (auto simp: registry_find_def Let_def update_refs_self)

lemma registry_exists_abs:
  assumes "reg_inv r"
  shows "registry_exists r (Some n) ty = map_option fst (reg_abs r (n, ty))"
proof (cases "reg_abs r (n, ty)")
  case None
  then show ?thesis using assms by (simp add: registry_exists_def flip: find_entry_abs)
next
  case (Some v)
  then show ?thesis using found_entry [OF assms, of n ty "fst v" "snd v"]
    by (auto simp: registry_exists_def)
qed

lemma registry_unref_miss: "reg_inv r \<Longrightarrow> reg_abs r (n, ty) = None \<Longrightarrow> registry_unref r (Some n) ty = (-1, r)"
  by (simp add: registry_unref_def flip: find_entry_abs)

lemma registry_unref_hit:
  assumes "reg_inv r" "reg_abs r (n, ty) = Some (d, c)"
  shows "fst (registry_unref r (Some n) ty) = (if 0 < c then 0 else -1)"
    and "reg_inv (snd (registry_unref r (Some n) ty))"
    and "reg_abs (snd (registry_unref r (Some n) ty)) = (reg_abs r)((n, ty) \<mapsto> (d, c - 1))"
  using found_entry [OF assms] reg_inv_update_refs [OF assms(1)] reg_abs_update_refs [OF assms(1)]
  by (auto simp: registry_unref_def Let_def update_refs_self)

text \<open>
  The contract a client of the registry uses: taking a reference finds the object and
  counts it, releasing it gives the count back, and neither touches another object.
\<close>

locale ref_table =
  fixes inv :: "'s \<Rightarrow> bool" and abs :: "'s \<Rightarrow> 'k \<rightharpoonup> 'd \<times> int"
    and acquire :: "'s \<Rightarrow> 'k \<Rightarrow> 'd option \<times> 's" and release :: "'s \<Rightarrow> 'k \<Rightarrow> int \<times> 's"
  assumes acquire_miss: "inv s \<Longrightarrow> abs s k = None \<Longrightarrow> acquire s k = (None, s)"
    and acquire_hit: "inv s \<Longrightarrow> abs s k = Some (d, c) \<Longrightarrow> fst (acquire s k) = Some d"
    and acquire_inv: "inv s \<Longrightarrow> abs s k = Some (d, c) \<Longrightarrow> inv (snd (acquire s k))"
    and acquire_abs: "inv s \<Longrightarrow> abs s k = Some (d, c) \<Longrightarrow>
      abs (snd (acquire s k)) = (abs s)(k \<mapsto> (d, c + 1))"
    and release_inv: "inv s \<Longrightarrow> abs s k = Some (d, c) \<Longrightarrow> inv (snd (release s k))"
    and release_abs: "inv s \<Longrightarrow> abs s k = Some (d, c) \<Longrightarrow>
      abs (snd (release s k)) = (abs s)(k \<mapsto> (d, c - 1))"
begin

text \<open>Acquiring and releasing every object of a list leaves the table as it was.\<close>

definition acquire_all :: "'s \<Rightarrow> 'k list \<Rightarrow> 's" where
  "acquire_all s ks = fold (\<lambda>k s. snd (acquire s k)) ks s"

definition release_all :: "'s \<Rightarrow> 'k list \<Rightarrow> 's" where
  "release_all s ks = fold (\<lambda>k s. snd (release s k)) ks s"

lemma acquire_keeps:
  assumes "inv s"
  shows "inv (snd (acquire s k))" "dom (abs (snd (acquire s k))) = dom (abs s)"
  using assms acquire_miss acquire_inv acquire_abs
  by (cases "abs s k"; force)+

lemma acquire_release:
  assumes "inv s" "abs s k = Some (d, c)"
  shows "inv (snd (release (snd (acquire s k)) k))"
    and "abs (snd (release (snd (acquire s k)) k)) = abs s"
  using assms acquire_inv [OF assms] acquire_abs [OF assms]
    release_inv [of "snd (acquire s k)" k d "c + 1"] release_abs [of "snd (acquire s k)" k d "c + 1"]
  by (auto simp: fun_upd_idem)

lemma count_after_acquire_all:
  assumes "inv s" "abs s k = Some (d, c)"
  shows "inv (acquire_all s ks) \<and>
    abs (acquire_all s ks) k = Some (d, c + int (count_list ks k))"
  using assms
proof (induction ks arbitrary: s c)
  case Nil
  then show ?case by (simp add: acquire_all_def)
next
  case (Cons j ks)
  have step: "abs (snd (acquire s j)) k = Some (d, if j = k then c + 1 else c)"
  proof (cases "abs s j")
    case None
    with Cons.prems show ?thesis using acquire_miss by auto
  next
    case (Some v)
    then show ?thesis
      using Cons.prems acquire_abs [of s j "fst v" "snd v"] by auto
  qed
  show ?case
    using Cons.IH [OF acquire_keeps(1) [OF Cons.prems(1), of j] step]
    by (auto simp: acquire_all_def)
qed

end

interpretation registry_refs: ref_table reg_inv reg_abs
    "\<lambda>r (n, ty). registry_find r (Some n) ty" "\<lambda>r (n, ty). registry_unref r (Some n) ty"
  by unfold_locales (auto simp: registry_find_miss registry_find_hit registry_unref_hit)


lemma registry_add_new:
  assumes "reg_inv r" "reg_abs r (n, ty) = None" "reg_entries r i = None"
  shows "fst (registry_add r (Some n) ty d (Some i)) = 0"
    and "reg_inv (snd (registry_add r (Some n) ty d (Some i)))"
    and "reg_abs (snd (registry_add r (Some n) ty d (Some i))) = (reg_abs r)((n, ty) \<mapsto> (d, 1))"
  using assms reg_inv_insert [OF assms(1,3), of "\<lparr>re_name = n, re_data = d, re_object_type = ty, re_ref_count = 1\<rparr>"]
    reg_abs_insert [OF assms(1,3), of "\<lparr>re_name = n, re_data = d, re_object_type = ty, re_ref_count = 1\<rparr>"]
  by (simp_all add: registry_add_def find_entry_abs)

lemma registry_add_dup:
  assumes "reg_inv r" "reg_abs r (n, ty) \<noteq> None"
  shows "registry_add r (Some n) ty d cell = (-1, r)"
  using assms by (auto simp: registry_add_def simp flip: find_entry_abs)

lemma registry_rename_abs:
  assumes inv: "reg_inv r" and old: "reg_abs r (n, ty) = Some v" and new: "reg_abs r (m, ty) = None"
  shows "fst (registry_rename r (Some n) (Some m) ty) = 0"
    and "reg_inv (snd (registry_rename r (Some n) (Some m) ty))"
    and "reg_abs (snd (registry_rename r (Some n) (Some m) ty)) =
      (reg_abs r)((n, ty) := None, (m, ty) := Some v)"
proof -
  obtain i e where e: "registry_find_entry r n ty = Some i" "reg_entries r i = Some e"
    "entry_key e = (n, ty)" "(re_data e, re_ref_count e) = v"
    using found_entry [OF inv, of n ty "fst v" "snd v"] old by fastforce
  let ?q = "registry_remove_entry r i" and ?e = "e\<lparr>re_name := m\<rparr>"
  have res: "registry_rename r (Some n) (Some m) ty = (0, registry_insert_entry ?q i ?e)"
    using e new inv by (simp add: registry_rename_def find_entry_abs relink_insert)
  have q: "reg_inv ?q" "reg_abs ?q = (reg_abs r)((n, ty) := None)" "reg_entries ?q i = None"
    using reg_inv_remove [OF inv] reg_abs_remove [OF inv e(2)] e(3)
    by (simp_all add: registry_remove_entry_def registry_detach_entry_def)
  have "reg_abs ?q (entry_key ?e) = None" using q(2) e(3) new by simp
  then have "reg_inv (registry_insert_entry ?q i ?e)"
    "reg_abs (registry_insert_entry ?q i ?e) = (reg_abs ?q)(entry_key ?e \<mapsto> v)"
    using reg_inv_insert [OF q(1,3)] reg_abs_insert [OF q(1,3)] e(4) by simp_all
  with e(3) q(2) show "fst (registry_rename r (Some n) (Some m) ty) = 0"
    "reg_inv (snd (registry_rename r (Some n) (Some m) ty))"
    "reg_abs (snd (registry_rename r (Some n) (Some m) ty)) = (reg_abs r)((n, ty) := None, (m, ty) := Some v)"
    by (simp_all add: res)
qed

text \<open>
  \<open>registry_rename\<close> moves an object to its new name without losing its data or its
  references, touches no other object, and keeps both chains consistent.
\<close>

theorem registry_rename_moves:
  assumes "reg_inv r" "reg_abs r (n, ty) = Some v" "reg_abs r (m, ty) = None"
  shows "\<exists>r'. registry_rename r (Some n) (Some m) ty = (0, r') \<and> reg_inv r' \<and>
    reg_abs r' (m, ty) = Some v \<and> reg_abs r' (n, ty) = None \<and>
    (\<forall>k. k \<noteq> (n, ty) \<and> k \<noteq> (m, ty) \<longrightarrow> reg_abs r' k = reg_abs r k)"
  using registry_rename_abs [OF assms] assms(2,3)
  by (intro exI [of _ "snd (registry_rename r (Some n) (Some m) ty)"]) (auto simp: prod_eq_iff)

lemma registry_delete_if_unused_abs:
  assumes inv: "reg_inv r" and obj: "reg_abs r (n, ty) = Some (d, c)"
    and action: "obj_action = None"
  shows "registry_delete_if_unused r (Some n) ty obj_action =
    (if c \<le> 0 then (1, snd (registry_delete_if_unused r (Some n) ty obj_action)) else (0, r))"
    and "reg_inv (snd (registry_delete_if_unused r (Some n) ty obj_action))"
    and "reg_abs (snd (registry_delete_if_unused r (Some n) ty obj_action)) =
      (if c \<le> 0 then (reg_abs r)((n, ty) := None) else reg_abs r)"
  using found_entry [OF inv obj] action inv reg_inv_remove [OF inv] reg_abs_remove [OF inv]
  by (auto simp: registry_delete_if_unused_def registry_exec_refcount_def)

text \<open>
  An object that is still referenced is never deleted: \<open>registry_delete_if_unused\<close>
  answers 0 and leaves the whole registry as it was, whatever the destructor is.
\<close>

theorem registry_delete_referenced:
  assumes "reg_inv r" "reg_abs r (n, ty) = Some (d, c)" "0 < c"
  shows "registry_delete_if_unused r (Some n) ty destructor = (0, r)"
  using found_entry [OF assms(1,2)] assms(3)
  by (auto simp: registry_delete_if_unused_def registry_exec_refcount_def)

lemma registry_delete_abs:
  assumes inv: "reg_inv r" and obj: "reg_abs r (n, ty) = Some (d, c)"
  shows "fst (registry_delete r (Some n) ty) = 0"
    and "reg_inv (snd (registry_delete r (Some n) ty))"
    and "reg_abs (snd (registry_delete r (Some n) ty)) =
      (reg_abs r)((n, ty) := (if 1 < c then Some (d, c - 1) else None))"
proof -
  obtain i e where e: "registry_find_entry r n ty = Some i" "reg_entries r i = Some e"
    "entry_key e = (n, ty)" "re_data e = d" "re_ref_count e = c"
    using found_entry [OF inv obj] by blast
  let ?q = "update_refs r i (\<lambda>c. c - 1)" and ?e = "re_ref_count_update (\<lambda>c. c - 1) e"
  have q: "reg_inv ?q" "reg_abs ?q = (reg_abs r)((n, ty) \<mapsto> (d, c - 1))" "reg_entries ?q i = Some ?e"
    using reg_inv_update_refs [OF inv] reg_abs_update_refs [OF inv e(2)] e
    by (simp_all add: update_refs_self)
  have "reg_abs (registry_remove_entry ?q i) = (reg_abs r)((n, ty) := None)"
    using reg_abs_remove [OF q(1,3)] e(3) q(2) by simp
  with e q reg_inv_remove [OF q(1)] show "fst (registry_delete r (Some n) ty) = 0"
    "reg_inv (snd (registry_delete r (Some n) ty))"
    "reg_abs (snd (registry_delete r (Some n) ty)) =
      (reg_abs r)((n, ty) := (if 1 < c then Some (d, c - 1) else None))"
    by (auto simp: registry_delete_def Let_def)
qed

section \<open>Witnesses\<close>

text \<open>A registry holding one object, for the witnesses.\<close>

definition sample_registry :: "nat registry" where
  "sample_registry = snd (registry_add registry_init (Some ''vm1'') 0 7 (Some 3))"

lemma sample_registry:
  "reg_inv sample_registry" "reg_abs sample_registry = [(''vm1'', 0) \<mapsto> (7, 1)]"
proof -
  have "reg_abs (registry_init :: nat registry) (''vm1'', 0) = None"
    "reg_entries (registry_init :: nat registry) 3 = None"
    by (simp_all add: reg_abs_init) (simp add: registry_init_def)
  from registry_add_new(2,3) [OF reg_inv_init this, of 7]
  show "reg_inv sample_registry" "reg_abs sample_registry = [(''vm1'', 0) \<mapsto> (7, 1)]"
    by (simp_all add: sample_registry_def reg_abs_init)
qed


theorem registry_rename_moves_witness:
  "\<exists>r'. registry_rename sample_registry (Some ''vm1'') (Some ''r1'') 0 = (0, r') \<and>
     reg_abs r' (''r1'', 0) = Some (7, 1) \<and> reg_abs r' (''vm1'', 0) = None"
  using registry_rename_moves [OF sample_registry(1), of "''vm1''" 0 "(7, 1)" "''r1''"]
  by (auto simp: sample_registry)

theorem registry_delete_referenced_witness:
  "registry_delete_if_unused sample_registry (Some ''vm1'') 0 None = (0, sample_registry)"
  using registry_delete_referenced [OF sample_registry(1), of "''vm1''" 0 7 1 None]
  by (simp add: sample_registry)

section \<open>Reachable registries\<close>

text \<open>
  The registry as the program drives it: any sequence of operations, the memory pool
  handing out cells not in use and destructors not touching the registry.
\<close>

inductive registry_step :: "'d registry \<Rightarrow> 'd registry \<Rightarrow> bool" where
  step_add: "(\<forall>i. cell = Some i \<longrightarrow> reg_entries r i = None) \<Longrightarrow>
    registry_step r (snd (registry_add r name ty d cell))"
| step_delete: "registry_step r (snd (registry_delete r name ty))"
| step_rename: "registry_step r (snd (registry_rename r name newname ty))"
| step_find: "registry_step r (snd (registry_find r name ty))"
| step_unref: "registry_step r (snd (registry_unref r name ty))"
| step_delete_if_unused: "registry_step r (snd (registry_delete_if_unused r name ty None))"
| step_delete_type: "registry_step r (snd (registry_delete_type r ty None))"

inductive registry_reachable :: "'d registry \<Rightarrow> bool" where
  reach_init: "registry_reachable registry_init"
| reach_step: "registry_reachable r \<Longrightarrow> registry_step r r' \<Longrightarrow> registry_reachable r'"

lemma find_entry_None: "reg_inv r \<Longrightarrow> reg_abs r (n, ty) = None \<Longrightarrow> registry_find_entry r n ty = None"
  using find_entry_abs by blast

lemma registry_add_inv:
  assumes "reg_inv r" "\<And>i. cell = Some i \<Longrightarrow> reg_entries r i = None"
  shows "reg_inv (snd (registry_add r name ty d cell))"
proof (cases name)
  case (Some n)
  show ?thesis
  proof (cases "reg_abs r (n, ty)")
    case None
    then show ?thesis
      using assms registry_add_new(2) [OF assms(1) None] Some
      by (cases cell) (simp_all add: registry_add_def find_entry_None)
  qed (use assms Some in \<open>simp add: registry_add_dup\<close>)
qed (use assms in \<open>simp add: registry_add_def\<close>)

lemma registry_delete_inv:
  assumes "reg_inv r" shows "reg_inv (snd (registry_delete r name ty))"
proof (cases name)
  case (Some n)
  show ?thesis
  proof (cases "reg_abs r (n, ty)")
    case (Some v)
    then show ?thesis
      using registry_delete_abs(2) [OF assms, of n ty "fst v" "snd v"] \<open>name = Some n\<close> by simp
  qed (use assms Some in \<open>simp add: registry_delete_def find_entry_None\<close>)
qed (use assms in \<open>simp add: registry_delete_def\<close>)

lemma registry_find_inv:
  assumes "reg_inv r" shows "reg_inv (snd (registry_find r name ty))"
proof (cases name)
  case (Some n)
  show ?thesis
  proof (cases "reg_abs r (n, ty)")
    case (Some v)
    then show ?thesis
      using registry_find_hit [OF assms, of n ty "fst v" "snd v"] \<open>name = Some n\<close> by simp
  qed (use assms Some in \<open>simp add: registry_find_def find_entry_None\<close>)
qed (use assms in \<open>simp add: registry_find_def\<close>)

lemma registry_unref_inv:
  assumes "reg_inv r" shows "reg_inv (snd (registry_unref r name ty))"
proof (cases name)
  case (Some n)
  show ?thesis
  proof (cases "reg_abs r (n, ty)")
    case (Some v)
    then show ?thesis
      using registry_unref_hit [OF assms, of n ty "fst v" "snd v"] \<open>name = Some n\<close> by simp
  qed (use assms Some in \<open>simp add: registry_unref_def find_entry_None\<close>)
qed (use assms in \<open>simp add: registry_unref_def\<close>)

lemma registry_delete_if_unused_inv:
  assumes "reg_inv r" shows "reg_inv (snd (registry_delete_if_unused r name ty None))"
proof (cases name)
  case (Some n)
  show ?thesis
  proof (cases "reg_abs r (n, ty)")
    case (Some v)
    then show ?thesis
      using registry_delete_if_unused_abs(2) [OF assms, of n ty "fst v" "snd v" None] \<open>name = Some n\<close>
      by simp
  qed (use assms Some in \<open>simp add: registry_delete_if_unused_def registry_exec_refcount_def find_entry_None\<close>)
qed (use assms in \<open>simp add: registry_delete_if_unused_def registry_exec_refcount_def\<close>)

lemma registry_rename_inv:
  assumes "reg_inv r" shows "reg_inv (snd (registry_rename r name newname ty))"
proof (cases "\<exists>n m. name = Some n \<and> newname = Some m")
  case True
  then obtain n m where nm: "name = Some n" "newname = Some m" by blast
  consider "reg_abs r (n, ty) = None" | v where "reg_abs r (n, ty) = Some v" "reg_abs r (m, ty) = None"
    | i where "registry_find_entry r m ty = Some i"
    using find_entry_abs [OF assms] by (cases "registry_find_entry r m ty") fastforce+
  then show ?thesis
    using assms nm registry_rename_abs(2) [OF assms]
    by cases (simp_all add: registry_rename_def find_entry_None split: option.split)
qed (use assms in \<open>auto simp: registry_rename_def split: option.split\<close>)

lemma delete_type_loop_inv: "reg_inv r \<Longrightarrow> reg_inv (snd (delete_type_loop None ps k r))"
  by (induction ps arbitrary: k r) (auto simp: reg_inv_remove split: option.split)

lemma registry_step_inv: "registry_step r r' \<Longrightarrow> reg_inv r \<Longrightarrow> reg_inv r'"
  by (erule registry_step.cases)
    (simp_all add: registry_add_inv registry_delete_inv registry_find_inv registry_unref_inv
      registry_delete_if_unused_inv registry_rename_inv registry_delete_type_def delete_type_loop_inv)

lemma registry_reachable_inv: "registry_reachable r \<Longrightarrow> reg_inv r"
  by (induction rule: registry_reachable.induct) (auto simp: reg_inv_init registry_step_inv)

text \<open>
  C19: in every registry the program can reach, an object is found under its own name and
  type: the name hash table, the type lists and the stored entries never disagree.
\<close>

theorem registry_reachable_find:
  assumes "registry_reachable r" "reg_entries r i = Some e"
  shows "registry_exists r (Some (re_name e)) (re_object_type e) = Some (re_data e) \<and>
    i \<in> set (ht_types r (re_object_type e))"
proof -
  note inv = registry_reachable_inv [OF assms(1)]
  have "registry_find_entry r (re_name e) (re_object_type e) = Some i"
    using registry_find_entry_iff [OF inv] assms(2) by blast
  then show ?thesis
    using assms(2) reg_inv_types [OF inv] by (simp add: registry_exists_def)
qed

theorem registry_reachable_find_witness:
  "registry_exists sample_registry (Some ''vm1'') 0 = Some 7"
proof -
  have "registry_reachable sample_registry"
    unfolding sample_registry_def
    by (rule reach_step [OF reach_init step_add]) (simp add: registry_init_def)
  moreover have "reg_entries sample_registry 3 =
    Some \<lparr>re_name = ''vm1'', re_data = 7, re_object_type = 0, re_ref_count = 1\<rparr>"
    by (simp add: sample_registry_def registry_add_def registry_insert_entry_def
        find_entry_None reg_inv_init reg_abs_init)
  ultimately show ?thesis using registry_reachable_find [of sample_registry 3] by fastforce
qed

end
