(* ===== verification/Netio.thy ===== *)
theory Netio
  imports Registry
begin

text \<open>
  The network I/O layer of \<open>common/net_io.c\<close> and \<open>common/net_io_filter.c\<close>: NIO
  descriptors with their packet filters, statistics and bandwidth meter, sending and
  receiving through them, the FIFO driver that connects two NIOs of the process, and the
  list of receive listeners. A pointer to a descriptor is a natural number, NULL is
  \<open>None\<close>; the operating system's send is a parameter, and \<open>net_sent\<close> records what is
  handed to it, in order.
\<close>

section \<open>Descriptors (net_io.h)\<close>

abbreviation (input) NETIO_FILTER_ACTION_DROP :: int where "NETIO_FILTER_ACTION_DROP \<equiv> 0"
abbreviation (input) NETIO_FILTER_ACTION_PASS :: int where "NETIO_FILTER_ACTION_PASS \<equiv> 1"

datatype netio_dir = NETIO_FILTER_DIR_RX | NETIO_FILTER_DIR_TX | NETIO_FILTER_DIR_BOTH

text \<open>
  A packet filter: its functions work on the descriptor's private data for it (\<open>opt\<close>,
  possibly NULL); the packet handler may rewrite the packet and returns an action.
\<close>

record 'o netio_pktfilter =
  pf_name :: string
  pf_setup :: "string list \<Rightarrow> 'o option \<Rightarrow> int \<times> 'o option"
  pf_free :: "'o option \<Rightarrow> 'o option"
  pf_pkt_handler :: "bytes \<Rightarrow> 'o option \<Rightarrow> int \<times> bytes \<times> 'o option"

definition NETIO_BW_SAMPLES :: nat where "NETIO_BW_SAMPLES = 10"
definition NETIO_BW_SAMPLE_ITV :: nat where "NETIO_BW_SAMPLE_ITV = 30"

record 'o netio_desc =
  nio_name :: string
  fr_lmi_seq :: u8
  fr_conn_list :: "nat list"
  vlan_port_type :: nat
  vlan_id :: u16
  vlan_input_vector :: "nat option"
  ethertype :: u16
  bandwidth :: u32
  bw_cnt :: "u64 list"
  bw_cnt_total :: u64
  bw_pos :: nat
  bw_ptask_cnt :: u32
  rx_filter :: "'o netio_pktfilter option"
  tx_filter :: "'o netio_pktfilter option"
  both_filter :: "'o netio_pktfilter option"
  rx_filter_data :: "'o option"
  tx_filter_data :: "'o option"
  both_filter_data :: "'o option"
  stats_pkts_in :: u64
  stats_pkts_out :: u64
  stats_bytes_in :: u64
  stats_bytes_out :: u64

definition netio_create :: "string \<Rightarrow> 'o netio_desc" where
  "netio_create name =
     \<lparr>nio_name = name, fr_lmi_seq = 0, fr_conn_list = [], vlan_port_type = 0, vlan_id = 0,
      vlan_input_vector = None, ethertype = 0, bandwidth = 0,
      bw_cnt = replicate NETIO_BW_SAMPLES 0, bw_cnt_total = 0, bw_pos = 0, bw_ptask_cnt = 0,
      rx_filter = None, tx_filter = None, both_filter = None,
      rx_filter_data = None, tx_filter_data = None, both_filter_data = None,
      stats_pkts_in = 0, stats_pkts_out = 0, stats_bytes_in = 0, stats_bytes_out = 0\<rparr>"

section \<open>Packet filters (net_io_filter.c)\<close>

definition netio_filter_find :: "'o netio_pktfilter list \<Rightarrow> string \<Rightarrow> 'o netio_pktfilter option" where
  "netio_filter_find pf_list name = List.find (\<lambda>pf. pf_name pf = name) pf_list"

definition netio_filter_add :: "'o netio_pktfilter list \<Rightarrow> 'o netio_pktfilter \<Rightarrow> int \<times> 'o netio_pktfilter list" where
  "netio_filter_add pf_list pf =
     (case netio_filter_find pf_list (pf_name pf) of
        Some _ \<Rightarrow> (-1, pf_list) | None \<Rightarrow> (0, pf # pf_list))"

fun get_filter :: "netio_dir \<Rightarrow> 'o netio_desc \<Rightarrow> 'o netio_pktfilter option \<times> 'o option" where
  "get_filter NETIO_FILTER_DIR_RX nio = (rx_filter nio, rx_filter_data nio)"
| "get_filter NETIO_FILTER_DIR_TX nio = (tx_filter nio, tx_filter_data nio)"
| "get_filter NETIO_FILTER_DIR_BOTH nio = (both_filter nio, both_filter_data nio)"

fun set_filter_data :: "netio_dir \<Rightarrow> 'o option \<Rightarrow> 'o netio_desc \<Rightarrow> 'o netio_desc" where
  "set_filter_data NETIO_FILTER_DIR_RX d nio = nio\<lparr>rx_filter_data := d\<rparr>"
| "set_filter_data NETIO_FILTER_DIR_TX d nio = nio\<lparr>tx_filter_data := d\<rparr>"
| "set_filter_data NETIO_FILTER_DIR_BOTH d nio = nio\<lparr>both_filter_data := d\<rparr>"

definition netio_filter_bind ::
  "'o netio_pktfilter list \<Rightarrow> 'o netio_desc \<Rightarrow> netio_dir \<Rightarrow> string \<Rightarrow> int \<times> 'o netio_desc" where
  "netio_filter_bind pf_list nio direction name =
     (case netio_filter_find pf_list name of None \<Rightarrow> (-1, nio)
      | Some pf \<Rightarrow> (0, case direction of
            NETIO_FILTER_DIR_RX \<Rightarrow> nio\<lparr>rx_filter_data := None, rx_filter := Some pf\<rparr>
          | NETIO_FILTER_DIR_TX \<Rightarrow> nio\<lparr>tx_filter_data := None, tx_filter := Some pf\<rparr>
          | NETIO_FILTER_DIR_BOTH \<Rightarrow> nio\<lparr>both_filter_data := None, both_filter := Some pf\<rparr>))"

text \<open>Unbinding frees the filter's data; the filter itself stays on the descriptor.\<close>

definition netio_filter_unbind :: "'o netio_desc \<Rightarrow> netio_dir \<Rightarrow> int \<times> 'o netio_desc" where
  "netio_filter_unbind nio direction =
     (case get_filter direction nio of
        (None, _) \<Rightarrow> (-1, nio)
      | (Some pf, opt) \<Rightarrow> (0, set_filter_data direction (pf_free pf opt) nio))"

definition netio_filter_setup ::
  "'o netio_desc \<Rightarrow> netio_dir \<Rightarrow> string list \<Rightarrow> int \<times> 'o netio_desc" where
  "netio_filter_setup nio direction argv =
     (case get_filter direction nio of
        (None, _) \<Rightarrow> (-1, nio)
      | (Some pf, opt) \<Rightarrow>
          (let (res, opt') = pf_setup pf argv opt in (res, set_filter_data direction opt' nio)))"

text \<open>The C library's \<open>atoi\<close> on numbers that fit an \<open>int\<close>.\<close>

fun digits_value :: "int \<Rightarrow> string \<Rightarrow> int" where
  "digits_value acc [] = acc"
| "digits_value acc (c # cs) =
     (if of_char c \<in> {48..57 :: int}
      then digits_value (10 * acc + (of_char c - 48)) cs else acc)"

definition atoi :: "string \<Rightarrow> int" where
  "atoi s = (let s' = dropWhile (\<lambda>c. of_char c \<in> {9, 10, 11, 12, 13, 32 :: nat}) s in
     case s' of [] \<Rightarrow> 0
     | c # cs \<Rightarrow> if c = CHR ''-'' then - digits_value 0 cs
                 else if c = CHR ''+'' then digits_value 0 cs else digits_value 0 s')"

text \<open>\<open>freq_drop\<close> drops one packet out of \<open>frequency\<close>.\<close>

record pf_freqdrop_data =
  fd_frequency :: u32
  fd_current :: u32

definition pf_freqdrop_setup ::
  "bool \<Rightarrow> string list \<Rightarrow> pf_freqdrop_data option \<Rightarrow> int \<times> pf_freqdrop_data option" where
  "pf_freqdrop_setup malloc_ok argv opt =
     (if length argv \<noteq> 1 then (-1, opt)
      else if opt = None \<and> \<not> malloc_ok then (-1, opt)
      else (0, Some \<lparr>fd_frequency = word_of_int (atoi (argv ! 0)), fd_current = 0\<rparr>))"

definition pf_freqdrop_free :: "pf_freqdrop_data option \<Rightarrow> pf_freqdrop_data option" where
  "pf_freqdrop_free opt = None"

definition pf_freqdrop_pkt_handler ::
  "bytes \<Rightarrow> pf_freqdrop_data option \<Rightarrow> int \<times> bytes \<times> pf_freqdrop_data option" where
  "pf_freqdrop_pkt_handler pkt opt =
     (case opt of None \<Rightarrow> (NETIO_FILTER_ACTION_PASS, pkt, opt)
      | Some d \<Rightarrow>
          if fd_frequency d = -1 then (NETIO_FILTER_ACTION_DROP, pkt, opt)
          else if fd_frequency d = 0 then (NETIO_FILTER_ACTION_PASS, pkt, opt)
          else let d' = d\<lparr>fd_current := fd_current d + 1\<rparr> in
            if fd_current d' = fd_frequency d'
            then (NETIO_FILTER_ACTION_DROP, pkt, Some (d'\<lparr>fd_current := 0\<rparr>))
            else (NETIO_FILTER_ACTION_PASS, pkt, Some d'))"

definition pf_freqdrop_def :: "bool \<Rightarrow> pf_freqdrop_data netio_pktfilter" where
  "pf_freqdrop_def malloc_ok =
     \<lparr>pf_name = ''freq_drop'', pf_setup = pf_freqdrop_setup malloc_ok,
      pf_free = pf_freqdrop_free, pf_pkt_handler = pf_freqdrop_pkt_handler\<rparr>"

section \<open>Statistics and bandwidth\<close>

definition netio_reset_stats :: "'o netio_desc \<Rightarrow> 'o netio_desc" where
  "netio_reset_stats nio =
     nio\<lparr>stats_pkts_in := 0, stats_pkts_out := 0, stats_bytes_in := 0, stats_bytes_out := 0\<rparr>"

definition netio_can_transmit :: "'o netio_desc \<Rightarrow> bool" where
  "netio_can_transmit nio \<longleftrightarrow>
     (if bandwidth nio = 0 then True
      else let bw_current = ucast (bw_cnt_total nio * 8 * 1000) :: u32;
               bw_current = bw_current div of_nat (1024 * NETIO_BW_SAMPLE_ITV * NETIO_BW_SAMPLES)
           in bw_current < bandwidth nio)"

definition netio_update_bw_stat :: "'o netio_desc \<Rightarrow> u64 \<Rightarrow> 'o netio_desc" where
  "netio_update_bw_stat nio n =
     nio\<lparr>bw_cnt := (bw_cnt nio)[bw_pos nio := bw_cnt nio ! bw_pos nio + n],
         bw_cnt_total := bw_cnt_total nio + n\<rparr>"

text \<open>One call per periodic task; \<open>ptask_sleep_time\<close> is the task period, in ms.\<close>

definition netio_clear_bw_stat :: "u32 \<Rightarrow> 'o netio_desc \<Rightarrow> 'o netio_desc" where
  "netio_clear_bw_stat ptask_sleep_time nio =
     (let nio = nio\<lparr>bw_ptask_cnt := bw_ptask_cnt nio + 1\<rparr> in
      if bw_ptask_cnt nio = of_nat NETIO_BW_SAMPLE_ITV div ptask_sleep_time then
        let nio = nio\<lparr>bw_ptask_cnt := 0, bw_pos := bw_pos nio + 1\<rparr>;
            nio = (if bw_pos nio = NETIO_BW_SAMPLES then nio\<lparr>bw_pos := 0\<rparr> else nio);
            nio = nio\<lparr>bw_cnt_total := bw_cnt_total nio - bw_cnt nio ! bw_pos nio\<rparr>
        in nio\<lparr>bw_cnt := (bw_cnt nio)[bw_pos nio := 0]\<rparr>
      else nio)"

definition netio_set_bandwidth :: "'o netio_desc \<Rightarrow> u32 \<Rightarrow> 'o netio_desc" where
  "netio_set_bandwidth nio bw = nio\<lparr>bandwidth := bw\<rparr>"

section \<open>Sending and receiving\<close>

text \<open>The descriptors, the registry that names them, the listeners and the trace of sends.\<close>

record rx_listener =
  rxl_nio :: nat
  rxl_ref_count :: u32
  rxl_handler :: nat

record 'o net =
  net_nio :: "nat \<Rightarrow> 'o netio_desc"
  net_reg :: "nat registry"
  net_rxl :: "rx_listener list"
  net_sent :: "(nat \<times> bytes) list"

definition upd_nio :: "nat \<Rightarrow> 'o netio_desc \<Rightarrow> 'o net \<Rightarrow> 'o net" where
  "upd_nio p nio w = w\<lparr>net_nio := (net_nio w)(p := nio)\<rparr>"

definition apply_filter ::
  "'o netio_pktfilter option \<Rightarrow> bytes \<Rightarrow> 'o option \<Rightarrow> int \<times> bytes \<times> 'o option" where
  "apply_filter f pkt opt =
     (case f of None \<Rightarrow> (NETIO_FILTER_ACTION_PASS, pkt, opt) | Some pf \<Rightarrow> pf_pkt_handler pf pkt opt)"

text \<open>The part of \<open>netio_send\<close> before the driver: \<open>None\<close> when a filter drops the packet.\<close>

definition netio_tx :: "'o netio_desc \<Rightarrow> bytes \<Rightarrow> bytes option \<times> 'o netio_desc" where
  "netio_tx nio pkt =
     (let (res, pkt, d) = apply_filter (tx_filter nio) pkt (tx_filter_data nio);
          nio = nio\<lparr>tx_filter_data := d\<rparr>
      in if res \<le> 0 then (None, nio)
         else let (res, pkt, d) = apply_filter (both_filter nio) pkt (both_filter_data nio);
                  nio = nio\<lparr>both_filter_data := d\<rparr>
              in if res = NETIO_FILTER_ACTION_DROP then (None, nio)
                 else (Some pkt,
                   netio_update_bw_stat
                     (nio\<lparr>stats_pkts_out := stats_pkts_out nio + 1,
                          stats_bytes_out := stats_bytes_out nio + of_nat (length pkt)\<rparr>)
                     (of_nat (length pkt))))"

type_synonym 'o os_send = "'o net \<Rightarrow> nat \<Rightarrow> bytes \<Rightarrow> int"

definition netio_send :: "'o os_send \<Rightarrow> nat option \<Rightarrow> bytes \<Rightarrow> 'o net \<Rightarrow> int \<times> 'o net" where
  "netio_send os_send nio pkt w =
     (case nio of None \<Rightarrow> (-1, w)
      | Some p \<Rightarrow>
          (case netio_tx (net_nio w p) pkt of
             (None, nio') \<Rightarrow> (-1, upd_nio p nio' w)
           | (Some pkt', nio') \<Rightarrow>
               (let w = upd_nio p nio' w
                in (os_send w p pkt', w\<lparr>net_sent := net_sent w @ [(p, pkt')]\<rparr>))))"

text \<open>
  \<open>os_recv\<close> is what the driver's receive function returned, negative or the bytes it wrote at
  the head of the cleared buffer; the result holds the length and the buffer.
\<close>

definition netio_recv :: "bytes option \<Rightarrow> 'o netio_desc \<Rightarrow> nat \<Rightarrow> (int \<times> bytes) \<times> 'o netio_desc" where
  "netio_recv os_recv nio max_len =
     (let buf = replicate max_len 0 in
      case os_recv of None \<Rightarrow> ((-1, buf), nio)
      | Some pkt \<Rightarrow>
          let buf = memcpy_at buf 0 pkt in
          if length pkt = 0 then ((-1, buf), nio)
          else
            let (res, pkt', d) = apply_filter (rx_filter nio) pkt (rx_filter_data nio);
                nio = nio\<lparr>rx_filter_data := d\<rparr>; buf = memcpy_at buf 0 pkt' in
            if res = NETIO_FILTER_ACTION_DROP then ((-1, buf), nio)
            else
              let (res, pkt', d) = apply_filter (both_filter nio) pkt' (both_filter_data nio);
                  nio = nio\<lparr>both_filter_data := d\<rparr>; buf = memcpy_at buf 0 pkt' in
              if res = NETIO_FILTER_ACTION_DROP then ((-1, buf), nio)
              else ((int (length pkt), buf),
                    nio\<lparr>stats_pkts_in := stats_pkts_in nio + 1,
                        stats_bytes_in := stats_bytes_in nio + of_nat (length pkt)\<rparr>))"

section \<open>Names and receive listeners\<close>

definition OBJ_TYPE_NIO :: nat where "OBJ_TYPE_NIO = 1"

definition netio_acquire :: "string option \<Rightarrow> 'o net \<Rightarrow> nat option \<times> 'o net" where
  "netio_acquire name w =
     (let (d, r) = registry_find (net_reg w) name OBJ_TYPE_NIO in (d, w\<lparr>net_reg := r\<rparr>))"

definition netio_release :: "string option \<Rightarrow> 'o net \<Rightarrow> int \<times> 'o net" where
  "netio_release name w =
     (let (res, r) = registry_unref (net_reg w) name OBJ_TYPE_NIO in (res, w\<lparr>net_reg := r\<rparr>))"

definition netio_record :: "nat \<Rightarrow> nat option \<Rightarrow> 'o net \<Rightarrow> int \<times> 'o net" where
  "netio_record p cell w =
     (let (res, r) = registry_add (net_reg w) (Some (nio_name (net_nio w p))) OBJ_TYPE_NIO p cell
      in (res, w\<lparr>net_reg := r\<rparr>))"

definition netio_rxl_find :: "rx_listener list \<Rightarrow> nat \<Rightarrow> rx_listener option" where
  "netio_rxl_find rxls p = List.find (\<lambda>x. rxl_nio x = p) rxls"

fun netio_rxl_remove_internal :: "nat \<Rightarrow> rx_listener list \<Rightarrow> int \<times> rx_listener list" where
  "netio_rxl_remove_internal p [] = (-1, [])"
| "netio_rxl_remove_internal p (x # xs) =
     (if rxl_nio x = p then
        let x' = x\<lparr>rxl_ref_count := rxl_ref_count x - 1\<rparr> in
        (0, if rxl_ref_count x' = 0 then xs else x' # xs)
      else let (res, ys) = netio_rxl_remove_internal p xs in (res, x # ys))"

definition netio_rxl_add_internal :: "rx_listener \<Rightarrow> rx_listener list \<Rightarrow> rx_listener list" where
  "netio_rxl_add_internal rxl rxls =
     (case netio_rxl_find rxls (rxl_nio rxl) of
        Some _ \<Rightarrow> map (\<lambda>x. if rxl_nio x = rxl_nio rxl
                          then x\<lparr>rxl_ref_count := rxl_ref_count x + 1\<rparr> else x) rxls
      | None \<Rightarrow> rxl # rxls)"

text \<open>
  The public functions hand the request to the listener thread and wait until it has been
  served; \<open>ok\<close> tells whether the allocation (and the thread, if one is needed) succeeded.
\<close>

definition netio_rxl_add :: "bool \<Rightarrow> nat \<Rightarrow> nat \<Rightarrow> 'o net \<Rightarrow> int \<times> 'o net" where
  "netio_rxl_add ok p handler w =
     (if ok then
        (0, w\<lparr>net_rxl := netio_rxl_add_internal
              \<lparr>rxl_nio = p, rxl_ref_count = 1, rxl_handler = handler\<rparr> (net_rxl w)\<rparr>)
      else (-1, w))"

definition netio_rxl_remove :: "nat \<Rightarrow> 'o net \<Rightarrow> int \<times> 'o net" where
  "netio_rxl_remove p w =
     (0, w\<lparr>net_rxl := snd (netio_rxl_remove_internal p (net_rxl w))\<rparr>)"

section \<open>FIFO driver\<close>

record netio_fifo_desc =
  nfd_endpoint :: "nat option"
  nfd_pkts :: "bytes list"
  nfd_pkt_count :: u32

type_synonym fifo_store = "nat \<Rightarrow> netio_fifo_desc"

definition netio_fifo_extract_pkt :: "netio_fifo_desc \<Rightarrow> bytes option \<times> netio_fifo_desc" where
  "netio_fifo_extract_pkt nfd =
     (case nfd_pkts nfd of [] \<Rightarrow> (None, nfd)
      | p # ps \<Rightarrow> (Some p, nfd\<lparr>nfd_pkt_count := nfd_pkt_count nfd - 1, nfd_pkts := ps\<rparr>))"

definition netio_fifo_insert_pkt :: "netio_fifo_desc \<Rightarrow> bytes \<Rightarrow> netio_fifo_desc" where
  "netio_fifo_insert_pkt nfd p =
     nfd\<lparr>nfd_pkt_count := nfd_pkt_count nfd + 1, nfd_pkts := nfd_pkts nfd @ [p]\<rparr>"

definition netio_fifo_free_pkt_list :: "netio_fifo_desc \<Rightarrow> netio_fifo_desc" where
  "netio_fifo_free_pkt_list nfd = nfd\<lparr>nfd_pkts := [], nfd_pkt_count := 0\<rparr>"

text \<open>\<open>fifo_type\<close> tells which descriptors have the FIFO type.\<close>

definition netio_fifo_crossconnect ::
  "(nat \<Rightarrow> bool) \<Rightarrow> nat \<Rightarrow> nat \<Rightarrow> fifo_store \<Rightarrow> int \<times> fifo_store" where
  "netio_fifo_crossconnect fifo_type a b s =
     (if \<not> fifo_type a \<or> \<not> fifo_type b then (-1, s)
      else let s = s(a := netio_fifo_free_pkt_list ((s a)\<lparr>nfd_endpoint := Some b\<rparr>));
               s = s(b := netio_fifo_free_pkt_list ((s b)\<lparr>nfd_endpoint := Some a\<rparr>))
           in (0, s))"

definition netio_fifo_unbind_endpoint :: "nat \<Rightarrow> fifo_store \<Rightarrow> fifo_store" where
  "netio_fifo_unbind_endpoint p s = s(p := (s p)\<lparr>nfd_endpoint := None\<rparr>)"

text \<open>What is left of the store when a descriptor is freed: its own cell is not in it any more.\<close>

definition netio_fifo_free :: "nat \<Rightarrow> fifo_store \<Rightarrow> fifo_store" where
  "netio_fifo_free p s =
     (let s = (case nfd_endpoint (s p) of None \<Rightarrow> s | Some q \<Rightarrow> netio_fifo_unbind_endpoint q s)
      in s(p := netio_fifo_free_pkt_list (s p)))"

definition netio_fifo_send :: "bool \<Rightarrow> nat \<Rightarrow> bytes \<Rightarrow> fifo_store \<Rightarrow> int \<times> fifo_store" where
  "netio_fifo_send malloc_ok p pkt s =
     (case nfd_endpoint (s p) of None \<Rightarrow> (-1, s)
      | Some q \<Rightarrow> if malloc_ok then (int (length pkt), s(q := netio_fifo_insert_pkt (s q) pkt))
                  else (-1, s))"

definition netio_fifo_recv :: "nat \<Rightarrow> nat \<Rightarrow> fifo_store \<Rightarrow> bytes option \<times> fifo_store" where
  "netio_fifo_recv p max_len s =
     (let (pkt, nfd) = netio_fifo_extract_pkt (s p)
      in (map_option (take max_len) pkt, s(p := nfd)))"

section \<open>The bandwidth meter\<close>

text \<open>
  The life of a descriptor as the meter sees it: packets sent and ticks of the periodic task.
  \<open>bw_log\<close> stamps each packet with the number of the sample period it was sent in, \<open>P\<close>
  being the number of tasks in a period.
\<close>

datatype bw_event = Bw_Sent u64 | Bw_Task

fun bw_step :: "u32 \<Rightarrow> bw_event \<Rightarrow> 'o netio_desc \<Rightarrow> 'o netio_desc" where
  "bw_step sleep (Bw_Sent n) nio = netio_update_bw_stat nio n"
| "bw_step sleep Bw_Task nio = netio_clear_bw_stat sleep nio"

definition bw_run :: "u32 \<Rightarrow> bw_event list \<Rightarrow> 'o netio_desc \<Rightarrow> 'o netio_desc" where
  "bw_run sleep evs nio = fold (bw_step sleep) evs nio"

definition bw_tasks :: "bw_event list \<Rightarrow> nat" where
  "bw_tasks evs = count_list evs Bw_Task"

fun bw_log :: "nat \<Rightarrow> nat \<Rightarrow> bw_event list \<Rightarrow> (nat \<times> u64) list" where
  "bw_log P t [] = []"
| "bw_log P t (Bw_Sent n # evs) = (t div P, n) # bw_log P t evs"
| "bw_log P t (Bw_Task # evs) = bw_log P (Suc t) evs"

definition bw_sum :: "(nat \<Rightarrow> bool) \<Rightarrow> (nat \<times> u64) list \<Rightarrow> u64" where
  "bw_sum A log = sum_list (map (\<lambda>(s, n). if A s then n else 0) log)"

lemma bw_sum_simps [simp]:
  "bw_sum A [] = 0"
  "bw_sum A (x # xs) = (if A (fst x) then snd x else 0) + bw_sum A xs"
  "bw_sum A (xs @ ys) = bw_sum A xs + bw_sum A ys"
  by (simp_all add: bw_sum_def split: prod.splits)

lemma bw_log_append:
  "bw_log P t (evs @ evs') = bw_log P t evs @ bw_log P (t + bw_tasks evs) evs'"
  by (induction P t evs rule: bw_log.induct) (simp_all add: bw_tasks_def)

lemma bw_sum_cong: "(\<And>x. x \<in> set log \<Longrightarrow> A (fst x) = B (fst x)) \<Longrightarrow> bw_sum A log = bw_sum B log"
  by (induction log) auto

lemma bw_sum_split:
  assumes "\<And>x. x \<in> set log \<Longrightarrow> A (fst x) \<longleftrightarrow> B (fst x) \<or> C (fst x)"
    "\<And>x. x \<in> set log \<Longrightarrow> \<not> (B (fst x) \<and> C (fst x))"
  shows "bw_sum A log = bw_sum B log + bw_sum C log"
  using assms by (induction log) (auto simp: algebra_simps)

definition bw_inv :: "nat \<Rightarrow> nat \<Rightarrow> (nat \<times> u64) list \<Rightarrow> 'o netio_desc \<Rightarrow> bool" where
  "bw_inv P t log nio \<longleftrightarrow>
     length (bw_cnt nio) = 10 \<and> (\<forall>x\<in>set log. fst x \<le> t div P) \<and>
     bw_ptask_cnt nio = of_nat (t mod P) \<and> bw_pos nio = (t div P) mod 10 \<and>
     (\<forall>j<10. bw_cnt nio ! j = bw_sum (\<lambda>s. s mod 10 = j \<and> t div P < s + 10) log) \<and>
     bw_cnt_total nio = bw_sum (\<lambda>s. t div P < s + 10) log"

lemma bw_inv_create: "bw_inv P 0 [] (netio_create name)"
  by (simp add: bw_inv_def netio_create_def NETIO_BW_SAMPLES_def)

lemma bw_inv_sent:
  "bw_inv P t log nio \<Longrightarrow> bw_inv P t (log @ [(t div P, n)]) (netio_update_bw_stat nio n)"
  by (auto simp: bw_inv_def netio_update_bw_stat_def nth_list_update)

lemma bw_inv_same_period:
  assumes "bw_inv P t log nio" "Suc (t mod P) \<noteq> P" "0 < P"
  shows "bw_inv P (Suc t) log (nio\<lparr>bw_ptask_cnt := bw_ptask_cnt nio + 1\<rparr>)"
proof -
  have "Suc t div P = t div P" "Suc t mod P = Suc (t mod P)"
    using assms(2) by (simp_all add: div_Suc mod_Suc)
  then show ?thesis using assms(1) by (simp add: bw_inv_def)
qed

lemma bw_inv_next_period:
  assumes inv: "bw_inv P t log nio" and P: "Suc (t mod P) = P" "0 < P"
  defines "q \<equiv> Suc (t div P) mod 10"
  shows "bw_inv P (Suc t) log (nio\<lparr>bw_ptask_cnt := 0, bw_pos := q,
    bw_cnt_total := bw_cnt_total nio - bw_cnt nio ! q, bw_cnt := (bw_cnt nio)[q := 0]\<rparr>)"
proof -
  let ?s = "t div P"
  have t: "Suc t div P = Suc ?s" "Suc t mod P = 0" using P by (simp_all add: div_Suc mod_Suc)
  have q: "q < 10" by (simp add: q_def)
  have le: "fst x \<le> ?s" if "x \<in> set log" for x using inv that by (simp add: bw_inv_def)
  have old: "fst x mod 10 = q \<and> ?s < fst x + 10 \<longleftrightarrow> ?s < fst x + 10 \<and> \<not> Suc ?s < fst x + 10"
    if "x \<in> set log" for x
  proof -
    have "?s < fst x + 10 \<Longrightarrow> fst x mod 10 = q \<longleftrightarrow> Suc ?s = fst x + 10"
    proof -
      assume "?s < fst x + 10"
      moreover have "fst x + (?s - fst x) = ?s" using le [OF that] by simp
      ultimately obtain d where d: "?s = fst x + d" "d < 10" by (metis nat_add_left_cancel_less)
      have "y mod 10 = (y + Suc d) mod 10 \<longleftrightarrow> d = 9" for y
      proof -
        have "(y + Suc d) mod 10 = y mod 10 \<longleftrightarrow> 10 dvd Suc d"
          using mod_eq_dvd_iff_nat [of y "y + Suc d" 10] by simp
        also have "\<dots> \<longleftrightarrow> d = 9" using d(2) by (auto dest: dvd_imp_le)
        finally show ?thesis by metis
      qed
      moreover have "q = (fst x + Suc d) mod 10" using d(1) by (simp add: q_def)
      ultimately show "fst x mod 10 = q \<longleftrightarrow> Suc ?s = fst x + 10" using d(1) by auto
    qed
    then show ?thesis by linarith
  qed
  have tot: "bw_sum (\<lambda>s. ?s < s + 10) log =
      bw_sum (\<lambda>s. s mod 10 = q \<and> ?s < s + 10) log + bw_sum (\<lambda>s. Suc ?s < s + 10) log"
    by (rule bw_sum_split) (use old in auto)
  have cnt: "bw_sum (\<lambda>s. s mod 10 = j \<and> ?s < s + 10) log =
      bw_sum (\<lambda>s. s mod 10 = j \<and> Suc ?s < s + 10) log" if "j \<noteq> q" for j
    by (rule bw_sum_cong) (use old that in auto)
  have none: "bw_sum (\<lambda>s. s mod 10 = q \<and> Suc ?s < s + 10) log = bw_sum (\<lambda>_. False) log"
    by (rule bw_sum_cong) (metis old Suc_lessD)
  have "bw_sum (\<lambda>_. False) log = 0" by (induction log) auto
  with none have none: "bw_sum (\<lambda>s. s mod 10 = q \<and> Suc ?s < s + 10) log = 0" by simp
  have "\<forall>x\<in>set log. fst x \<le> Suc ?s" using le by (simp add: le_SucI)
  then show ?thesis
    using inv cnt none tot q t by (auto simp: bw_inv_def nth_list_update q_def)
qed

lemma bw_inv_task:
  assumes inv: "bw_inv P t log nio" and P: "P = unat (30 div sleep :: u32)" "0 < P"
  shows "bw_inv P (Suc t) log (netio_clear_bw_stat sleep nio)"
proof -
  have "P \<le> 30" unfolding P by (simp add: unat_div_distrib)
  have lt: "Suc (t mod P) \<le> P" using P(2) by (simp add: Suc_le_eq)
  have cnt: "bw_ptask_cnt nio + 1 = of_nat (Suc (t mod P))" using inv by (simp add: bw_inv_def)
  have "(of_nat (Suc (t mod P)) :: u32) = of_nat P \<longleftrightarrow> Suc (t mod P) = P"
    
    using \<open>P \<le> 30\<close> lt
    by (simp add: word_of_nat_eq_iff take_bit_nat_eq_self del: of_nat_Suc)
  moreover have "30 div sleep = of_nat P" unfolding P by simp
  ultimately have eq: "bw_ptask_cnt nio + 1 = 30 div sleep \<longleftrightarrow> Suc (t mod P) = P"
    using cnt by (simp del: of_nat_Suc)
  have pos: "bw_pos nio = (t div P) mod 10" using inv by (simp add: bw_inv_def)
  show ?thesis
  proof (cases "Suc (t mod P) = P")
    case True
    have "netio_clear_bw_stat sleep nio = nio\<lparr>bw_ptask_cnt := 0, bw_pos := Suc (t div P) mod 10,
        bw_cnt_total := bw_cnt_total nio - bw_cnt nio ! (Suc (t div P) mod 10),
        bw_cnt := (bw_cnt nio)[Suc (t div P) mod 10 := 0]\<rparr>"
      using True eq pos
      by (simp add: netio_clear_bw_stat_def Let_def NETIO_BW_SAMPLES_def NETIO_BW_SAMPLE_ITV_def mod_Suc)
    then show ?thesis using bw_inv_next_period [OF inv True P(2)] by simp
  next
    case False
    then have "netio_clear_bw_stat sleep nio = nio\<lparr>bw_ptask_cnt := bw_ptask_cnt nio + 1\<rparr>"
      using eq by (simp add: netio_clear_bw_stat_def Let_def NETIO_BW_SAMPLE_ITV_def)
    then show ?thesis using bw_inv_same_period [OF inv False P(2)] by simp
  qed
qed

lemma bw_inv_run:
  assumes P: "P = unat (30 div sleep :: u32)" "0 < P"
  shows "bw_inv P (bw_tasks evs) (bw_log P 0 evs) (bw_run sleep evs (netio_create name))"
proof (induction evs rule: rev_induct)
  case Nil
  then show ?case by (simp add: bw_run_def bw_tasks_def bw_inv_create)
next
  case (snoc e evs)
  show ?case
  proof (cases e)
    case (Bw_Sent n)
    then show ?thesis using bw_inv_sent [OF snoc.IH, of n]
      by (simp add: bw_run_def bw_log_append bw_tasks_def)
  next
    case Bw_Task
    then show ?thesis using bw_inv_task [OF snoc.IH P]
      by (simp add: bw_run_def bw_log_append bw_tasks_def)
  qed
qed


lemma bw_inv_total:
  "bw_inv P t log nio \<Longrightarrow> bw_cnt_total nio = bw_sum (\<lambda>s. t div P < s + 10) log"
  by (simp add: bw_inv_def)

text \<open>
  C37: the bandwidth meter. Over any history of sends and periodic tasks since the descriptor was
  created, the total the limiter compares with the configured rate is exactly the number of
  bytes sent during the last ten sample periods, the current one included.
\<close>

theorem netio_bandwidth_window:
  assumes "0 < sleep" "sleep \<le> 30"
  shows "bw_cnt_total (bw_run sleep evs (netio_create name)) =
    bw_sum (\<lambda>s. bw_tasks evs div unat (30 div sleep) < s + 10) (bw_log (unat (30 div sleep)) 0 evs)"
proof -
  have "0 < unat sleep" "unat sleep \<le> 30"
    using assms by (simp_all add: unat_gt_0 word_le_nat_alt)
  then have "0 < unat (30 div sleep)" by (simp add: unat_div_distrib div_greater_zero_iff)
  then show ?thesis by (intro bw_inv_total bw_inv_run refl)
qed

theorem netio_bandwidth_window_witness:
  "bw_cnt_total (bw_run 10 [Bw_Sent 5, Bw_Task, Bw_Task, Bw_Task, Bw_Sent 7] (netio_create ''n'')) = 12"
proof -
  have P: "unat (30 div 10 :: u32) = 3" by simp
  show ?thesis
    using netio_bandwidth_window [of 10 "[Bw_Sent 5, Bw_Task, Bw_Task, Bw_Task, Bw_Sent 7]" "''n''"]
    unfolding P by (simp add: bw_tasks_def)
qed

text \<open>
  The rate limiter is exact as long as fewer than 536871 bytes are in the window: the
  descriptor may transmit iff it is unlimited or the rate in Kb/s over the 300 ms window is below
  the configured one.
\<close>

theorem netio_can_transmit_exact:
  assumes "uint (bw_cnt_total nio) < 536871"
  shows "netio_can_transmit nio \<longleftrightarrow> bandwidth nio = 0 \<or>
    uint (bw_cnt_total nio) * 8 * 1000 div (1024 * 300) < uint (bandwidth nio)"
proof -
  let ?t = "uint (bw_cnt_total nio)"
  have "uint (bw_cnt_total nio * 8 * 1000) = ?t * 8000"
    using assms uint_lt2p [of "bw_cnt_total nio"] by (simp add: uint_word_ariths)
  then have "uint (ucast (bw_cnt_total nio * 8 * 1000) :: u32) = ?t * 8000"
    using assms by (simp add: unsigned_ucast_eq take_bit_int_eq_self)
  then show ?thesis
    by (simp add: netio_can_transmit_def Let_def word_less_def uint_div_distrib
        NETIO_BW_SAMPLE_ITV_def NETIO_BW_SAMPLES_def)
qed

theorem netio_can_transmit_exact_witness:
  "\<not> netio_can_transmit (netio_update_bw_stat ((netio_create ''n'')\<lparr>bandwidth := 1000\<rparr>) 40000)"
  (is "\<not> netio_can_transmit ?n")
proof -
  have "uint (bw_cnt_total ?n) = 40000" "bandwidth ?n = 1000"
    by (simp_all add: netio_update_bw_stat_def netio_create_def)
  then show ?thesis using netio_can_transmit_exact [of ?n] by simp
qed

text \<open>One byte more and the product no longer fits 32 bits: the limit of 10 Mb/s is ignored.\<close>

lemma netio_bandwidth_limit_wraps:
  "netio_can_transmit (netio_update_bw_stat ((netio_create ''n'')\<lparr>bandwidth := 10000\<rparr>) 536871)"
  "(536871 * 8 * 1000) div (1024 * 300) = (13981 :: int)"
  by (simp_all add: netio_can_transmit_def Let_def netio_update_bw_stat_def netio_create_def
      NETIO_BW_SAMPLE_ITV_def NETIO_BW_SAMPLES_def)

section \<open>Sending through a descriptor\<close>

definition netio_send_all :: "'o os_send \<Rightarrow> nat \<Rightarrow> bytes list \<Rightarrow> 'o net \<Rightarrow> 'o net" where
  "netio_send_all os_send p pkts w = fold (\<lambda>pkt w. snd (netio_send os_send (Some p) pkt w)) pkts w"

lemma netio_send_all_append [simp]:
  "netio_send_all os p (xs @ ys) w = netio_send_all os p ys (netio_send_all os p xs w)"
  "netio_send_all os p [] w = w"
  "netio_send_all os p [x] w = snd (netio_send os (Some p) x w)"
  by (simp_all add: netio_send_all_def)

lemma netio_send_NULL [simp]: "netio_send os None pkt w = (-1, w)"
  by (simp add: netio_send_def)

lemma netio_tx_no_filter:
  "tx_filter nio = None \<Longrightarrow> both_filter nio = None \<Longrightarrow> fst (netio_tx nio pkt) = Some pkt"
  by (simp add: netio_tx_def apply_filter_def)

lemma netio_send_no_filter:
  assumes "tx_filter (net_nio w p) = None" "both_filter (net_nio w p) = None"
  shows "net_sent (snd (netio_send os (Some p) pkt w)) = net_sent w @ [(p, pkt)]"
  using assms by (simp add: netio_send_def netio_tx_def apply_filter_def upd_nio_def Let_def)

text \<open>Sending concerns one descriptor only, and neither the registry nor the listeners.\<close>

lemma netio_send_frame:
  "net_reg (snd (netio_send os nio pkt w)) = net_reg w"
  "net_rxl (snd (netio_send os nio pkt w)) = net_rxl w"
  "nio \<noteq> Some q \<Longrightarrow> net_nio (snd (netio_send os nio pkt w)) q = net_nio w q"
  by (auto simp: netio_send_def upd_nio_def Let_def split: option.splits prod.splits)

definition pkts_len :: "bytes list \<Rightarrow> u64" where
  "pkts_len pkts = sum_list (map (\<lambda>p. of_nat (length p)) pkts)"

lemma pkts_len_simps [simp]:
  "pkts_len [] = 0" "pkts_len (xs @ ys) = pkts_len xs + pkts_len ys" "pkts_len [x] = of_nat (length x)"
  by (simp_all add: pkts_len_def)

lemma netio_tx_stats:
  "netio_tx nio pkt = (r, nio') \<Longrightarrow>
     stats_pkts_out nio' = stats_pkts_out nio + (if r = None then 0 else 1) \<and>
     stats_bytes_out nio' = stats_bytes_out nio + (case r of None \<Rightarrow> 0 | Some q \<Rightarrow> of_nat (length q)) \<and>
     bw_cnt_total nio' = bw_cnt_total nio + (case r of None \<Rightarrow> 0 | Some q \<Rightarrow> of_nat (length q))"
  by (auto simp: netio_tx_def Let_def netio_update_bw_stat_def split: if_splits prod.splits)

lemma netio_send_step:
  "\<exists>new. net_sent (snd (netio_send os (Some p) pkt w)) = net_sent w @ map (Pair p) new \<and>
     (let nio = net_nio w p; nio' = net_nio (snd (netio_send os (Some p) pkt w)) p in
       stats_pkts_out nio' = stats_pkts_out nio + of_nat (length new) \<and>
       stats_bytes_out nio' = stats_bytes_out nio + pkts_len new \<and>
       bw_cnt_total nio' = bw_cnt_total nio + pkts_len new)"
proof -
  obtain r nio' where tx: "netio_tx (net_nio w p) pkt = (r, nio')" by fastforce
  show ?thesis
  proof (cases r)
    case None
    then show ?thesis using tx netio_tx_stats [OF tx]
      by (intro exI [of _ "[]"]) (simp add: netio_send_def upd_nio_def)
  next
    case (Some q)
    then show ?thesis using tx netio_tx_stats [OF tx]
      by (intro exI [of _ "[q]"]) (simp add: netio_send_def upd_nio_def Let_def)
  qed
qed

text \<open>
  The output statistics count what reaches the driver. For any sequence of packets sent
  through a descriptor, whatever its filters do, the packet counter, the byte counter and the
  bandwidth total grow by exactly the number and the size of the packets handed to the driver.
\<close>

theorem netio_send_statistics:
  "\<exists>new. net_sent (netio_send_all os p pkts w) = net_sent w @ map (Pair p) new \<and>
     (let nio = net_nio w p; nio' = net_nio (netio_send_all os p pkts w) p in
       stats_pkts_out nio' = stats_pkts_out nio + of_nat (length new) \<and>
       stats_bytes_out nio' = stats_bytes_out nio + pkts_len new \<and>
       bw_cnt_total nio' = bw_cnt_total nio + pkts_len new)"
proof (induction pkts rule: rev_induct)
  case Nil
  show ?case by (intro exI [of _ "[]"]) simp
next
  case (snoc x xs)
  obtain new where "net_sent (netio_send_all os p xs w) = net_sent w @ map (Pair p) new"
    "stats_pkts_out (net_nio (netio_send_all os p xs w) p) = stats_pkts_out (net_nio w p) + of_nat (length new)"
    "stats_bytes_out (net_nio (netio_send_all os p xs w) p) = stats_bytes_out (net_nio w p) + pkts_len new"
    "bw_cnt_total (net_nio (netio_send_all os p xs w) p) = bw_cnt_total (net_nio w p) + pkts_len new"
    using snoc by (auto simp: Let_def)
  moreover obtain new' where
    "net_sent (netio_send_all os p (xs @ [x]) w) = net_sent (netio_send_all os p xs w) @ map (Pair p) new'"
    "stats_pkts_out (net_nio (netio_send_all os p (xs @ [x]) w) p) =
       stats_pkts_out (net_nio (netio_send_all os p xs w) p) + of_nat (length new')"
    "stats_bytes_out (net_nio (netio_send_all os p (xs @ [x]) w) p) =
       stats_bytes_out (net_nio (netio_send_all os p xs w) p) + pkts_len new'"
    "bw_cnt_total (net_nio (netio_send_all os p (xs @ [x]) w) p) =
       bw_cnt_total (net_nio (netio_send_all os p xs w) p) + pkts_len new'"
    using netio_send_step [of os p x "netio_send_all os p xs w"] by (auto simp: Let_def)
  ultimately show ?case by (intro exI [of _ "new @ new'"]) (simp add: algebra_simps)
qed

lemma pf_freqdrop_step:
  assumes "0 < n" "n < 2 ^ 31" "k < n"
  shows "pf_freqdrop_pkt_handler pkt (Some \<lparr>fd_frequency = of_nat n, fd_current = of_nat k\<rparr>) =
    (if n dvd Suc k then NETIO_FILTER_ACTION_DROP else NETIO_FILTER_ACTION_PASS, pkt,
     Some \<lparr>fd_frequency = of_nat n, fd_current = of_nat (Suc k mod n)\<rparr>)"
proof -
  have inj: "(of_nat i :: u32) = of_nat j \<longleftrightarrow> i = j" if "i \<le> 2 ^ 31" "j \<le> 2 ^ 31" for i j
    using that by (simp add: word_of_nat_eq_iff take_bit_nat_eq_self)
  have f: "(of_nat n :: u32) \<noteq> 0" using inj [of n 0] assms by simp
  have "(of_nat n :: u32) \<noteq> -1"
  proof
    assume "(of_nat n :: u32) = -1"
    also have "(-1 :: u32) = of_nat 4294967295" by simp
    finally show False using assms(2) by (simp add: word_of_nat_eq_iff take_bit_nat_eq_self del: of_nat_numeral)
  qed
  moreover have "(of_nat k + 1 :: u32) = of_nat n \<longleftrightarrow> Suc k = n"
    using inj [of "Suc k" n] assms by (simp add: add.commute)
  moreover have "n dvd Suc k \<longleftrightarrow> Suc k = n" using assms by (auto dest: dvd_imp_le)
  moreover have "Suc k mod n = (if Suc k = n then 0 else Suc k)" using assms by simp
  ultimately show ?thesis
    using f by (simp add: pf_freqdrop_pkt_handler_def Let_def add.commute)
qed

text \<open>
  C38: the frequency-drop filter. After it is bound to the transmit side and set up with a
  positive number n, the driver gets the packets sent, in order and unchanged, except every n-th.
\<close>

theorem freq_drop_every_nth:
  fixes w :: "pf_freqdrop_data net"
  assumes "atoi s = int n" "0 < n" "n < 2 ^ 31" "both_filter nio = None"
    "netio_filter_find pfs name = Some (pf_freqdrop_def True)"
    "net_nio w p = snd (netio_filter_setup (snd (netio_filter_bind pfs nio NETIO_FILTER_DIR_TX name))
       NETIO_FILTER_DIR_TX [s])"
  shows "net_sent (netio_send_all os p pkts w) =
    net_sent w @ map (\<lambda>i. (p, pkts ! i)) (filter (\<lambda>i. \<not> n dvd Suc i) [0..<length pkts])"
proof -
  have "netio_sent_inv"
    if "netio_sent_inv = (net_sent (netio_send_all os p pkts w) =
      net_sent w @ map (\<lambda>i. (p, pkts ! i)) (filter (\<lambda>i. \<not> n dvd Suc i) [0..<length pkts]) \<and>
      tx_filter (net_nio (netio_send_all os p pkts w) p) = Some (pf_freqdrop_def True) \<and>
      both_filter (net_nio (netio_send_all os p pkts w) p) = None \<and>
      tx_filter_data (net_nio (netio_send_all os p pkts w) p) =
        Some \<lparr>fd_frequency = of_nat n, fd_current = of_nat (length pkts mod n)\<rparr>)" for netio_sent_inv
    unfolding that
  proof (induction pkts rule: rev_induct)
    case Nil
    then show ?case
      using assms by (simp add: netio_filter_bind_def netio_filter_setup_def pf_freqdrop_def_def
          pf_freqdrop_setup_def)
  next
    case (snoc x xs)
    let ?w = "netio_send_all os p xs w"
    have lt: "length xs mod n < n" using assms(2) by simp
    have dv: "n dvd Suc (length xs mod n) \<longleftrightarrow> n dvd Suc (length xs)"
      by (simp add: mod_Suc_eq flip: mod_eq_0_iff_dvd)
    have up: "map (\<lambda>i. (p, (xs @ [x]) ! i)) (filter (\<lambda>i. \<not> n dvd Suc i) [0..<length xs]) =
        map (\<lambda>i. (p, xs ! i)) (filter (\<lambda>i. \<not> n dvd Suc i) [0..<length xs])"
      by (auto simp: nth_append)
    have fl: "apply_filter (tx_filter (net_nio ?w p)) x (tx_filter_data (net_nio ?w p)) =
        (if n dvd Suc (length xs) then NETIO_FILTER_ACTION_DROP else NETIO_FILTER_ACTION_PASS, x,
         Some \<lparr>fd_frequency = of_nat n, fd_current = of_nat (Suc (length xs) mod n)\<rparr>)"
      using snoc pf_freqdrop_step [OF assms(2,3) lt, of x]
      by (simp add: apply_filter_def pf_freqdrop_def_def dv mod_Suc_eq)
    show ?case
    proof (cases "n dvd Suc (length xs)")
      case True
      then show ?thesis using snoc fl up
        by (simp add: netio_send_def netio_tx_def upd_nio_def Let_def)
    next
      case False
      then show ?thesis using snoc fl up
        by (simp add: netio_send_def netio_tx_def upd_nio_def Let_def apply_filter_def netio_update_bw_stat_def)
    qed
  qed
  from this [OF refl] show ?thesis by simp
qed

definition sample_nio :: "pf_freqdrop_data netio_desc" where
  "sample_nio = snd (netio_filter_setup
     (snd (netio_filter_bind [pf_freqdrop_def True] (netio_create ''n'') NETIO_FILTER_DIR_TX ''freq_drop''))
     NETIO_FILTER_DIR_TX [''2''])"

theorem freq_drop_every_nth_witness:
  "net_sent (netio_send_all (\<lambda>_ _ pkt. int (length pkt)) 0 [[1], [2], [3]]
     \<lparr>net_nio = (\<lambda>_. sample_nio), net_reg = registry_init, net_rxl = [], net_sent = []\<rparr>) =
   [(0, [1]), (0, [3])]"
proof -
  have a: "atoi ''2'' = int 2" by (simp add: atoi_def)
  have l: "[0..<3] = [0, 1, 2 :: nat]" by (simp add: upt_rec)
  show ?thesis
    by (subst freq_drop_every_nth [where n = 2 and s = "''2''" and nio = "netio_create ''n''"
          and pfs = "[pf_freqdrop_def True]" and name = "''freq_drop''"])
       (simp_all add: a sample_nio_def netio_filter_find_def pf_freqdrop_def_def netio_create_def l)
qed

section \<open>Receive listeners\<close>

datatype rxl_op = Rxl_Add nat nat | Rxl_Remove nat

fun rxl_step :: "rxl_op \<Rightarrow> 'o net \<Rightarrow> 'o net" where
  "rxl_step (Rxl_Add p h) w = snd (netio_rxl_add True p h w)"
| "rxl_step (Rxl_Remove p) w = snd (netio_rxl_remove p w)"

text \<open>The contract: each descriptor has a handler and a number of users, or nobody listens.\<close>

fun rxl_spec :: "rxl_op \<Rightarrow> (nat \<rightharpoonup> nat \<times> nat) \<Rightarrow> nat \<rightharpoonup> nat \<times> nat" where
  "rxl_spec (Rxl_Add p h) m = m(p \<mapsto> (case m p of None \<Rightarrow> (1, h) | Some (c, h') \<Rightarrow> (c + 1, h')))"
| "rxl_spec (Rxl_Remove p) m =
     m(p := (case m p of None \<Rightarrow> None | Some (c, h) \<Rightarrow> if c = 1 then None else Some (c - 1, h)))"

definition rxl_abs :: "rx_listener list \<Rightarrow> nat \<rightharpoonup> nat \<times> nat" where
  "rxl_abs rxls p = map_option (\<lambda>x. (unat (rxl_ref_count x), rxl_handler x)) (netio_rxl_find rxls p)"

definition rxl_inv :: "nat \<Rightarrow> rx_listener list \<Rightarrow> bool" where
  "rxl_inv n rxls \<longleftrightarrow> distinct (map rxl_nio rxls) \<and>
     (\<forall>x\<in>set rxls. 0 < unat (rxl_ref_count x) \<and> unat (rxl_ref_count x) \<le> n)"

lemma rxl_find_simps [simp]:
  "netio_rxl_find [] p = None"
  "netio_rxl_find (x # xs) p = (if rxl_nio x = p then Some x else netio_rxl_find xs p)"
  by (simp_all add: netio_rxl_find_def)

lemma rxl_find_None: "netio_rxl_find rxls p = None \<longleftrightarrow> p \<notin> rxl_nio ` set rxls"
  by (induction rxls) auto

lemma rxl_abs_simps [simp]:
  "rxl_abs [] = Map.empty"
  "rxl_abs (x # xs) = (rxl_abs xs)(rxl_nio x \<mapsto> (unat (rxl_ref_count x), rxl_handler x))"
  by (auto simp: rxl_abs_def fun_eq_iff)

lemma rxl_abs_absent: "p \<notin> rxl_nio ` set rxls \<Longrightarrow> rxl_abs rxls p = None"
  by (simp add: rxl_abs_def rxl_find_None)

lemma rxl_remove_refines:
  assumes "rxl_inv n rxls"
  shows "rxl_inv n (snd (netio_rxl_remove_internal p rxls)) \<and>
    rxl_abs (snd (netio_rxl_remove_internal p rxls)) = rxl_spec (Rxl_Remove p) (rxl_abs rxls) \<and>
    rxl_nio ` set (snd (netio_rxl_remove_internal p rxls)) \<subseteq> rxl_nio ` set rxls"
  using assms
proof (induction rxls)
  case (Cons x xs)
  have tl: "rxl_inv n xs" "rxl_nio x \<notin> rxl_nio ` set xs" "0 < unat (rxl_ref_count x)"
    "unat (rxl_ref_count x) \<le> n" using Cons.prems by (auto simp: rxl_inv_def)
  have dec: "unat (rxl_ref_count x - 1) = unat (rxl_ref_count x) - 1"
    using tl(3) by (intro unat_minus_one) auto
  show ?case
  proof (cases "rxl_nio x = p")
    case True
    have one: "rxl_ref_count x = 1 \<longleftrightarrow> unat (rxl_ref_count x) = 1"
      by (metis unat_1 word_unat_eq_iff)
    have "rxl_ref_count x - 1 = 0 \<longleftrightarrow> rxl_ref_count x = 1" by auto
    then show ?thesis
      using True tl one dec rxl_abs_absent [OF tl(2)] Cons.prems
      by (auto simp: rxl_inv_def Let_def fun_eq_iff)
  next
    case False
    obtain r ys where r: "netio_rxl_remove_internal p xs = (r, ys)" by fastforce
    then have ys: "rxl_inv n ys" "rxl_abs ys = rxl_spec (Rxl_Remove p) (rxl_abs xs)"
      "rxl_nio ` set ys \<subseteq> rxl_nio ` set xs" using Cons.IH [OF tl(1)] unfolding r snd_conv by blast+
    then have "rxl_nio x \<notin> rxl_nio ` set ys" using tl(2) by blast
    then have "rxl_inv n (x # ys)" using ys(1) tl(3,4) by (simp add: rxl_inv_def)
    moreover have "rxl_nio ` set (x # ys) \<subseteq> rxl_nio ` set (x # xs)" using ys(3) by auto
    moreover have "rxl_abs (x # ys) = rxl_spec (Rxl_Remove p) (rxl_abs (x # xs))"
      using ys(2) False by (auto simp: fun_eq_iff)
    ultimately show ?thesis using False r by (simp add: fun_upd_def)
  qed
qed (simp add: fun_eq_iff)

lemma rxl_bump:
  assumes "distinct (map rxl_nio rxls)" "rxl_abs rxls p = Some (c, h)" "c < 2 ^ 32 - 1"
  shows "rxl_abs (map (\<lambda>x. if rxl_nio x = p then x\<lparr>rxl_ref_count := rxl_ref_count x + 1\<rparr> else x) rxls) =
    (rxl_abs rxls)(p \<mapsto> (c + 1, h))"
  using assms
proof (induction rxls)
  case (Cons x xs)
  show ?case
  proof (cases "rxl_nio x = p")
    case True
    then have c: "c = unat (rxl_ref_count x)" "h = rxl_handler x" "p \<notin> rxl_nio ` set xs"
      using Cons.prems by auto
    have "map (\<lambda>x. if rxl_nio x = p then x\<lparr>rxl_ref_count := rxl_ref_count x + 1\<rparr> else x) xs = xs"
      using c(3) by (intro map_idI) auto
    moreover have "unat (rxl_ref_count x + 1) = c + 1"
      using c(1) Cons.prems(3) by (simp add: unat_word_ariths)
    ultimately show ?thesis using True c by (auto simp: fun_eq_iff)
  next
    case False
    then show ?thesis using Cons by (auto simp: fun_eq_iff)
  qed
qed simp

lemma rxl_add_refines:
  assumes inv: "rxl_inv n (net_rxl w)" and n: "n < 2 ^ 32 - 1"
  shows "rxl_inv (Suc n) (net_rxl (snd (netio_rxl_add True p h w))) \<and>
    rxl_abs (net_rxl (snd (netio_rxl_add True p h w))) = rxl_spec (Rxl_Add p h) (rxl_abs (net_rxl w))"
proof (cases "netio_rxl_find (net_rxl w) p")
  case None
  then have "net_rxl (snd (netio_rxl_add True p h w)) =
      \<lparr>rxl_nio = p, rxl_ref_count = 1, rxl_handler = h\<rparr> # net_rxl w"
    by (simp add: netio_rxl_add_def netio_rxl_add_internal_def)
  then show ?thesis
    using inv None by (auto simp: rxl_inv_def rxl_find_None rxl_abs_absent)
next
  case (Some y)
  then have y: "y \<in> set (net_rxl w)" "rxl_abs (net_rxl w) p = Some (unat (rxl_ref_count y), rxl_handler y)"
    by (auto simp: netio_rxl_find_def rxl_abs_def dest: find_Some_in_set)
  have c: "unat (rxl_ref_count y) < 2 ^ 32 - 1" using y(1) inv n by (auto simp: rxl_inv_def)
  have "unat (rxl_ref_count x + 1) = Suc (unat (rxl_ref_count x))" if "x \<in> set (net_rxl w)" for x
    using that inv n by (auto simp: rxl_inv_def unat_word_ariths)
  then have "rxl_inv (Suc n) (map (\<lambda>x. if rxl_nio x = p then x\<lparr>rxl_ref_count := rxl_ref_count x + 1\<rparr> else x) (net_rxl w))"
    using inv by (auto simp: rxl_inv_def comp_def if_distrib cong: if_cong)
  then show ?thesis
    using Some y(2) rxl_bump [OF _ y(2) c] inv
    by (simp add: netio_rxl_add_def netio_rxl_add_internal_def rxl_inv_def)
qed

lemma rxl_inv_mono: "rxl_inv n rxls \<Longrightarrow> rxl_inv (Suc n) rxls"
  by (auto simp: rxl_inv_def)

lemma rxl_run_refines:
  assumes "length ops < 2 ^ 32" "net_rxl w = []"
  shows "rxl_inv (length ops) (net_rxl (fold rxl_step ops w)) \<and>
    rxl_abs (net_rxl (fold rxl_step ops w)) = fold rxl_spec ops Map.empty"
  using assms(1)
proof (induction ops rule: rev_induct)
  case Nil
  then show ?case using assms(2) by (simp add: rxl_inv_def)
next
  case (snoc e ops)
  then have IH: "rxl_inv (length ops) (net_rxl (fold rxl_step ops w))"
    "rxl_abs (net_rxl (fold rxl_step ops w)) = fold rxl_spec ops Map.empty"
    and n: "length ops < 2 ^ 32 - 1" by auto
  show ?case
  proof (cases e)
    case (Rxl_Add p h)
    then show ?thesis using rxl_add_refines [OF IH(1) n, of p h] IH(2) by simp
  next
    case (Rxl_Remove p)
    then show ?thesis
      using rxl_inv_mono rxl_remove_refines [OF IH(1), of p] IH(2) by (simp add: netio_rxl_remove_def)
  qed
qed

text \<open>
  C39: the receive listeners are reference counted. After any sequence of additions and
  removals, a descriptor is listened to exactly while it has users left, its reference count is
  their number, and its packets go to the handler registered by the first of them.
\<close>

theorem rx_listeners_counted:
  assumes "length ops < 2 ^ 32" "net_rxl w = []"
  shows "map_option (\<lambda>x. (unat (rxl_ref_count x), rxl_handler x))
      (netio_rxl_find (net_rxl (fold rxl_step ops w)) p) = fold rxl_spec ops Map.empty p"
proof -
  have "rxl_abs (net_rxl (fold rxl_step ops w)) p = fold rxl_spec ops Map.empty p"
    using rxl_run_refines [OF assms] by simp
  then show ?thesis by (simp add: rxl_abs_def)
qed

theorem rx_listeners_counted_witness:
  "map_option (\<lambda>x. (unat (rxl_ref_count x), rxl_handler x))
     (netio_rxl_find (net_rxl (fold rxl_step
        [Rxl_Add 1 7, Rxl_Add 1 8, Rxl_Add 2 9, Rxl_Remove 1, Rxl_Remove 2]
        \<lparr>net_nio = (\<lambda>_. sample_nio), net_reg = registry_init, net_rxl = [], net_sent = []\<rparr>)) 1) =
   Some (1, 7)"
  by (subst rx_listeners_counted) simp_all

section \<open>The FIFO driver is a pair of queues\<close>

locale packet_queue =
  fixes content :: "'q \<Rightarrow> 'a list" and enq :: "'q \<Rightarrow> 'a \<Rightarrow> 'q" and deq :: "'q \<Rightarrow> 'a option \<times> 'q"
  assumes enq_content: "content (enq q x) = content q @ [x]"
    and deq_empty: "content q = [] \<Longrightarrow> deq q = (None, q)"
    and deq_first: "content q = x # xs \<Longrightarrow> fst (deq q) = Some x \<and> content (snd (deq q)) = xs"
begin

definition enq_all :: "'q \<Rightarrow> 'a list \<Rightarrow> 'q" where
  "enq_all q xs = fold (\<lambda>x q. enq q x) xs q"

fun drain :: "nat \<Rightarrow> 'q \<Rightarrow> 'a list \<times> 'q" where
  "drain 0 q = ([], q)"
| "drain (Suc n) q =
     (case deq q of (None, q') \<Rightarrow> ([], q')
      | (Some x, q') \<Rightarrow> (let (xs, q'') = drain n q' in (x # xs, q'')))"

lemma content_enq_all: "content (enq_all q xs) = content q @ xs"
  by (induction xs arbitrary: q) (simp_all add: enq_all_def enq_content)

lemma drain_content:
  "fst (drain n q) = take n (content q) \<and> content (snd (drain n q)) = drop n (content q)"
proof (induction n arbitrary: q)
  case (Suc n)
  show ?case
  proof (cases "content q")
    case Nil
    then show ?thesis by (simp add: deq_empty)
  next
    case (Cons x xs)
    then obtain q' where "deq q = (Some x, q')" "content q' = xs"
      using deq_first [OF Cons] by (cases "deq q") auto
    then show ?thesis using Suc [of q'] Cons by (cases "drain n q'") auto
  qed
qed simp

lemma fifo_order:
  "content q = [] \<Longrightarrow> fst (drain (length xs) (enq_all q xs)) = xs"
  by (simp add: drain_content content_enq_all)

end

interpretation nfd: packet_queue nfd_pkts netio_fifo_insert_pkt netio_fifo_extract_pkt
  by unfold_locales (auto simp: netio_fifo_insert_pkt_def netio_fifo_extract_pkt_def)


definition fifo_send_all :: "nat \<Rightarrow> bytes list \<Rightarrow> fifo_store \<Rightarrow> fifo_store" where
  "fifo_send_all p pkts s = fold (\<lambda>pkt s. snd (netio_fifo_send True p pkt s)) pkts s"

fun fifo_recv_n :: "nat \<Rightarrow> nat \<Rightarrow> nat \<Rightarrow> fifo_store \<Rightarrow> bytes option list" where
  "fifo_recv_n 0 p max_len s = []"
| "fifo_recv_n (Suc n) p max_len s =
     (let (r, s') = netio_fifo_recv p max_len s in r # fifo_recv_n n p max_len s')"

lemma fifo_send_all_queue:
  assumes "nfd_endpoint (s p) = Some q" "p \<noteq> q"
  shows "fifo_send_all p pkts s = s(q := nfd.enq_all (s q) pkts)"
  using assms
proof (induction pkts arbitrary: s)
  case (Cons x xs)
  then show ?case
    using Cons.IH [of "s(q := netio_fifo_insert_pkt (s q) x)"]
    by (auto simp: fifo_send_all_def netio_fifo_send_def nfd.enq_all_def fun_eq_iff)
qed (simp add: fifo_send_all_def nfd.enq_all_def)

lemma fifo_recv_queue:
  "nfd_pkts (s p) = ps \<Longrightarrow>
     fifo_recv_n n p max_len s =
       map (Some \<circ> take max_len) (take n ps) @ replicate (n - length ps) None"
proof (induction n arbitrary: s ps)
  case (Suc n)
  show ?case
  proof (cases ps)
    case Nil
    then have "netio_fifo_recv p max_len s = (None, s)"
      using Suc.prems by (simp add: netio_fifo_recv_def nfd.deq_empty)
    then show ?thesis using Suc.IH [of s "[]"] Suc.prems Nil by simp
  next
    case (Cons x xs)
    then obtain nfd' where d: "netio_fifo_extract_pkt (s p) = (Some x, nfd')" "nfd_pkts nfd' = xs"
      using Suc.prems nfd.deq_first [of "s p" x xs] by (cases "netio_fifo_extract_pkt (s p)") auto
    then have "netio_fifo_recv p max_len s = (Some (take max_len x), s(p := nfd'))"
      by (simp add: netio_fifo_recv_def)
    moreover have "nfd_pkts ((s(p := nfd')) p) = xs" using d by simp
    ultimately show ?thesis using Suc.IH [of "s(p := nfd')" xs] Cons by (simp add: fun_upd_def)
  qed
qed simp


definition sample_fifos :: fifo_store where
  "sample_fifos = (\<lambda>_. \<lparr>nfd_endpoint = None, nfd_pkts = [], nfd_pkt_count = 0\<rparr>)"


text \<open>
  Connecting a descriptor again does not tell its previous peer, so after the descriptor is
  freed that peer still points to it: its next packet is written to freed memory.
\<close>

lemma fifo_free_leaves_dangling_endpoint:
  assumes "a \<noteq> b" "a \<noteq> c" "b \<noteq> c"
  shows "nfd_endpoint (netio_fifo_free a
      (snd (netio_fifo_crossconnect (\<lambda>_. True) a c
        (snd (netio_fifo_crossconnect (\<lambda>_. True) a b s)))) b) = Some a"
  using assms
  by (simp add: netio_fifo_crossconnect_def netio_fifo_free_def netio_fifo_unbind_endpoint_def
      netio_fifo_free_pkt_list_def Let_def)

end
