(* ===== verification/Conn_Table.thy ===== *)
theory Conn_Table
  imports Netio
begin

text \<open>
  The connection tables of the virtual switches: hash chains of cells, a cell being found by
  the key of the connection it holds. The Frame Relay switch and the two tables of the ATM
  switch share this structure; \<open>conn_table\<close> states what a table's lookup has to be and proves
  once what linking, unlinking and updating a connection do to it.
\<close>

definition cell_sat :: "('c \<Rightarrow> bool) \<Rightarrow> (nat \<rightharpoonup> 'c) \<Rightarrow> nat \<Rightarrow> bool" where
  "cell_sat P st i = (case st i of None \<Rightarrow> False | Some c \<Rightarrow> P c)"

definition chain_lookup :: "('c \<Rightarrow> bool) \<Rightarrow> (nat \<rightharpoonup> 'c) \<Rightarrow> nat list \<Rightarrow> nat option" where
  "chain_lookup P st ch = List.find (cell_sat P st) ch"

lemma cell_sat_iff: "cell_sat P st i \<longleftrightarrow> (\<exists>c. st i = Some c \<and> P c)"
  by (simp add: cell_sat_def split: option.splits)

lemma chain_lookup_SomeD:
  "chain_lookup P st ch = Some i \<Longrightarrow> i \<in> set ch \<and> (\<exists>c. st i = Some c \<and> P c)"
  by (auto simp: chain_lookup_def cell_sat_iff dest!: find_Some_in_set)

lemma chain_lookup_None:
  "chain_lookup P st ch = None \<longleftrightarrow> (\<forall>i\<in>set ch. \<forall>c. st i = Some c \<longrightarrow> \<not> P c)"
  by (auto simp: chain_lookup_def find_None_iff cell_sat_iff)

definition cells_link :: "nat \<Rightarrow> nat \<Rightarrow> (nat \<Rightarrow> nat list) \<Rightarrow> nat \<Rightarrow> nat list" where
  "cells_link h i tbl = tbl(h := i # tbl h)"

definition cells_unlink :: "nat \<Rightarrow> nat \<Rightarrow> (nat \<Rightarrow> nat list) \<Rightarrow> nat \<Rightarrow> nat list" where
  "cells_unlink h i tbl = tbl(h := remove1 i (tbl h))"

text \<open>
  \<open>key\<close> is what a connection is looked up by, \<open>bucket\<close> the chain a key belongs to, and
  \<open>lookup\<close> the code's search.
\<close>

locale conn_table =
  fixes key :: "'c \<Rightarrow> 'k" and bucket :: "'k \<Rightarrow> nat"
    and lookup :: "(nat \<Rightarrow> nat list) \<Rightarrow> (nat \<rightharpoonup> 'c) \<Rightarrow> 'k \<Rightarrow> nat option"
  assumes lookup_chain: "lookup tbl st k = chain_lookup (\<lambda>c. key c = k) st (tbl (bucket k))"
begin

definition inv :: "(nat \<Rightarrow> nat list) \<Rightarrow> (nat \<rightharpoonup> 'c) \<Rightarrow> bool" where
  "inv tbl st \<longleftrightarrow> (\<forall>h. distinct (tbl h)) \<and>
     (\<forall>h. \<forall>i\<in>set (tbl h). \<exists>c. st i = Some c \<and> bucket (key c) = h) \<and>
     (\<forall>h. \<forall>i\<in>set (tbl h). \<forall>j\<in>set (tbl h). map_option key (st i) = map_option key (st j) \<longrightarrow> i = j)"

lemma inv_empty: "inv (\<lambda>_. []) st"
  by (simp add: inv_def)

lemma invD:
  assumes "inv tbl st" "i \<in> set (tbl h)"
  obtains c where "st i = Some c" "bucket (key c) = h"
  using assms unfolding inv_def by blast

lemma lookup_iff:
  assumes "inv tbl st"
  shows "lookup tbl st k = Some i \<longleftrightarrow> i \<in> set (tbl (bucket k)) \<and> map_option key (st i) = Some k"
proof
  assume "lookup tbl st k = Some i"
  then show "i \<in> set (tbl (bucket k)) \<and> map_option key (st i) = Some k"
    by (auto simp: lookup_chain dest: chain_lookup_SomeD)
next
  assume i: "i \<in> set (tbl (bucket k)) \<and> map_option key (st i) = Some k"
  then have "lookup tbl st k \<noteq> None" by (auto simp: lookup_chain chain_lookup_None)
  then obtain j where j: "lookup tbl st k = Some j" by blast
  then have "j \<in> set (tbl (bucket k))" "map_option key (st j) = Some k"
    by (auto simp: lookup_chain dest: chain_lookup_SomeD)
  then have "j = i" using i assms unfolding inv_def by metis
  with j show "lookup tbl st k = Some i" by simp
qed

lemma lookup_eqI:
  assumes "inv tbl st" "inv tbl' st'"
    "\<And>i. i \<in> set (tbl' (bucket k)) \<and> map_option key (st' i) = Some k \<longleftrightarrow>
         i \<in> set (tbl (bucket k)) \<and> map_option key (st i) = Some k"
  shows "lookup tbl' st' k = lookup tbl st k"
proof -
  have "lookup tbl' st' k = Some i \<longleftrightarrow> lookup tbl st k = Some i" for i
    unfolding lookup_iff [OF assms(1)] lookup_iff [OF assms(2)] by (rule assms(3))
  then show ?thesis by (metis not_None_eq)
qed

lemma link_inv:
  assumes "inv tbl st" "lookup tbl st (key c) = None" "\<And>h. i \<notin> set (tbl h)"
  shows "inv (cells_link (bucket (key c)) i tbl) (st(i \<mapsto> c))"
  using assms
  by (auto simp: inv_def cells_link_def lookup_chain chain_lookup_None fun_eq_iff
      split: if_splits) (metis option.map_disc_iff option.map_sel option.sel not_None_eq)+

lemma link_lookup:
  assumes "inv tbl st" "lookup tbl st (key c) = None" "\<And>h. i \<notin> set (tbl h)"
  shows "lookup (cells_link (bucket (key c)) i tbl) (st(i \<mapsto> c)) k =
    (if k = key c then Some i else lookup tbl st k)"
proof (cases "k = key c")
  case True
  then have "lookup (cells_link (bucket (key c)) i tbl) (st(i \<mapsto> c)) k = Some i"
    unfolding lookup_iff [OF link_inv [OF assms]] by (simp add: cells_link_def)
  then show ?thesis using True by simp
next
  case False
  have "lookup (cells_link (bucket (key c)) i tbl) (st(i \<mapsto> c)) k = lookup tbl st k"
    by (rule lookup_eqI [OF assms(1) link_inv [OF assms]])
       (use False assms(3) in \<open>auto simp: cells_link_def\<close>)
  with False show ?thesis by simp
qed

lemma unlink_inv:
  assumes "inv tbl st"
  shows "inv (cells_unlink h i tbl) st"
  using assms unfolding inv_def cells_unlink_def
  by (auto simp: set_remove1_eq)

lemma unlink_lookup:
  assumes "inv tbl st" "lookup tbl st k = Some i"
  shows "lookup (cells_unlink (bucket k) i tbl) st k' = (if k' = k then None else lookup tbl st k')"
proof (cases "k' = k")
  case True
  have d: "distinct (tbl (bucket k))" using assms(1) by (simp add: inv_def)
  have i: "lookup tbl st k = Some j \<Longrightarrow> j = i" for j using assms(2) by simp
  have "lookup (cells_unlink (bucket k) i tbl) st k \<noteq> Some j" for j
    using lookup_iff [OF unlink_inv [OF assms(1)], of "bucket k" i k j] lookup_iff [OF assms(1), of k j] d i
    by (auto simp: cells_unlink_def set_remove1_eq)
  then show ?thesis using True by auto
next
  case False
  have k: "map_option key (st i) = Some k" using lookup_iff [OF assms(1)] assms(2) by blast
  have d: "distinct (tbl (bucket k))" using assms(1) by (simp add: inv_def)
  have "lookup (cells_unlink (bucket k) i tbl) st k' = lookup tbl st k'"
    by (rule lookup_eqI [OF assms(1) unlink_inv [OF assms(1)]])
       (use False k d in \<open>auto simp: cells_unlink_def set_remove1_eq\<close>)
  with False show ?thesis by simp
qed

text \<open>Updating a connection without touching its key is invisible to lookups.\<close>

lemma update_inv:
  assumes "inv tbl st" "st i = Some c" "key c' = key c"
  shows "inv tbl (st(i \<mapsto> c'))" and "lookup tbl (st(i \<mapsto> c')) k = lookup tbl st k"
proof -
  have same: "map_option key ((st(i \<mapsto> c')) j) = map_option key (st j)" for j
    using assms(2,3) by simp
  have "(\<exists>d. (st(i \<mapsto> c')) j = Some d \<and> bucket (key d) = h) \<longleftrightarrow> (\<exists>d. st j = Some d \<and> bucket (key d) = h)" for j h
    using assms(2,3) by auto
  then show inv': "inv tbl (st(i \<mapsto> c'))" using assms(1) unfolding inv_def same by simp
  show "lookup tbl (st(i \<mapsto> c')) k = lookup tbl st k"
    by (rule lookup_eqI [OF assms(1) inv']) (simp only: same)
qed

text \<open>The map a table stands for, its cells being numbered below \<open>n\<close>.\<close>

definition winv :: "nat \<Rightarrow> (nat \<Rightarrow> nat list) \<Rightarrow> (nat \<rightharpoonup> 'c) \<Rightarrow> bool" where
  "winv n tbl st \<longleftrightarrow> inv tbl st \<and> (\<forall>i c. st i = Some c \<longrightarrow> i < n)"

definition amap :: "('c \<Rightarrow> 'v) \<Rightarrow> (nat \<Rightarrow> nat list) \<Rightarrow> (nat \<rightharpoonup> 'c) \<Rightarrow> 'k \<rightharpoonup> 'v" where
  "amap val tbl st k = (case lookup tbl st k of None \<Rightarrow> None | Some i \<Rightarrow> map_option val (st i))"

lemma winv_Suc: "winv n tbl st \<Longrightarrow> winv (Suc n) tbl st"
  by (auto simp: winv_def intro: less_SucI)

lemma winv_inv: "winv n tbl st \<Longrightarrow> inv tbl st"
  by (simp add: winv_def)

lemma lookup_SomeD:
  assumes "inv tbl st" "lookup tbl st k = Some i"
  obtains c where "st i = Some c" "key c = k" "i \<in> set (tbl (bucket k))"
  using lookup_iff [OF assms(1), of k i] assms(2) by auto

lemma amap_None: "inv tbl st \<Longrightarrow> amap val tbl st k = None \<longleftrightarrow> lookup tbl st k = None"
  by (auto simp: amap_def split: option.splits elim: lookup_SomeD)

lemma add_amap:
  assumes w: "winv n tbl st" and none: "lookup tbl st (key c) = None"
  shows "winv (Suc n) (cells_link (bucket (key c)) n tbl) (st(n \<mapsto> c))"
    and "amap val (cells_link (bucket (key c)) n tbl) (st(n \<mapsto> c)) = (amap val tbl st)(key c \<mapsto> val c)"
proof -
  note inv = winv_inv [OF w]
  have fresh: "st n = None" using w by (cases "st n") (auto simp: winv_def)
  have chain: "n \<notin> set (tbl h)" for h
    by (metis invD [OF inv] fresh option.distinct(1))
  show "winv (Suc n) (cells_link (bucket (key c)) n tbl) (st(n \<mapsto> c))"
    using link_inv [OF inv none chain] w by (auto simp: winv_def less_Suc_eq)
  show "amap val (cells_link (bucket (key c)) n tbl) (st(n \<mapsto> c)) = (amap val tbl st)(key c \<mapsto> val c)"
  proof
    fix k
    show "amap val (cells_link (bucket (key c)) n tbl) (st(n \<mapsto> c)) k = ((amap val tbl st)(key c \<mapsto> val c)) k"
      using link_lookup [OF inv none chain, of k] fresh
      by (auto simp: amap_def split: option.splits elim: lookup_SomeD [OF inv])
  qed
qed

lemma remove_amap:
  assumes w: "winv n tbl st" and i: "lookup tbl st k = Some i"
  shows "winv n (cells_unlink (bucket k) i tbl) (st(i := None))"
    and "amap val (cells_unlink (bucket k) i tbl) (st(i := None)) = (amap val tbl st)(k := None)"
proof -
  note inv = winv_inv [OF w]
  let ?tbl = "cells_unlink (bucket k) i tbl"
  obtain c where c: "st i = Some c" "key c = k" using lookup_SomeD [OF inv i] by blast
  note unl = unlink_inv [OF inv, of "bucket k" i]
  have nochain: "i \<notin> set (?tbl h)" for h
  proof
    assume h: "i \<in> set (?tbl h)"
    then have "h = bucket k" using invD [OF unl h] c by auto
    moreover have "distinct (tbl (bucket k))" using inv by (simp add: inv_def)
    ultimately show False using h by (simp add: cells_unlink_def set_remove1_eq)
  qed
  have same: "(st(i := None)) j = st j" if "j \<in> set (?tbl h)" for j h
    using that nochain by auto
  have inv': "inv ?tbl (st(i := None))"
    using unl same unfolding inv_def by metis
  then show "winv n ?tbl (st(i := None))" using w by (auto simp: winv_def)
  have look: "lookup ?tbl (st(i := None)) k' = (if k' = k then None else lookup tbl st k')" for k'
    using lookup_eqI [OF unl inv', of k'] same unlink_lookup [OF inv i, of k'] by metis
  have other: "j \<noteq> i" if "lookup tbl st k' = Some j" "k' \<noteq> k" for j k'
    using that c by (auto elim: lookup_SomeD [OF inv])
  show "amap val ?tbl (st(i := None)) = (amap val tbl st)(k := None)"
  proof
    fix k'
    show "amap val ?tbl (st(i := None)) k' = ((amap val tbl st)(k := None)) k'"
      using look [of k'] other by (auto simp: amap_def split: option.splits)
  qed
qed

lemma update_amap:
  assumes w: "winv n tbl st" and c: "st i = Some c" "key c' = key c" "val c' = val c"
  shows "winv n tbl (st(i \<mapsto> c'))" and "amap val tbl (st(i \<mapsto> c')) = amap val tbl st"
proof -
  note u = update_inv [OF winv_inv [OF w] c(1,2)]
  show "winv n tbl (st(i \<mapsto> c'))" using u(1) w c(1) by (auto simp: winv_def)
  show "amap val tbl (st(i \<mapsto> c')) = amap val tbl st"
  proof
    fix k show "amap val tbl (st(i \<mapsto> c')) k = amap val tbl st k"
      using u(2) [of k] c by (auto simp: amap_def split: option.splits)
  qed
qed

text \<open>Searching a chain for a stricter predicate finds the connection of its key, if it qualifies.\<close>

lemma strict_lookup:
  assumes "inv tbl st" "\<And>c. P c \<Longrightarrow> key c = k"
  shows "chain_lookup P st (tbl (bucket k)) =
    (case lookup tbl st k of None \<Rightarrow> None | Some i \<Rightarrow> if cell_sat P st i then Some i else None)"
proof (cases "chain_lookup P st (tbl (bucket k))")
  case None
  have "\<not> cell_sat P st i" if "lookup tbl st k = Some i" for i
    using None that lookup_iff [OF assms(1)] by (auto simp: chain_lookup_None cell_sat_iff)
  with None show ?thesis by (auto split: option.splits)
next
  case (Some i)
  then obtain c where c: "i \<in> set (tbl (bucket k))" "st i = Some c" "P c"
    using chain_lookup_SomeD by meson
  then have "lookup tbl st k = Some i" using assms(2) by (simp add: lookup_iff [OF assms(1)])
  with Some c show ?thesis by (simp add: cell_sat_def)
qed

end

lemma prod_fun_ext: "(\<And>x y. f (x, y) = g (x, y)) \<Longrightarrow> f = g"
  by (rule ext) (simp add: split_paired_all)

section \<open>References and names\<close>

text \<open>Which descriptor a name stands for, if any; taking and giving back references keeps it.\<close>

definition nio_ptr :: "'o net \<Rightarrow> string option \<Rightarrow> nat option" where
  "nio_ptr w name = registry_exists (net_reg w) name OBJ_TYPE_NIO"

lemma registry_find_spec:
  assumes "reg_inv r"
  shows "fst (registry_find r name ty) = registry_exists r name ty"
    "reg_inv (snd (registry_find r name ty))"
    "registry_exists (snd (registry_find r name ty)) = registry_exists r"
proof -
  have "fst (registry_find r name ty) = registry_exists r name ty \<and>
    reg_inv (snd (registry_find r name ty)) \<and>
    registry_exists (snd (registry_find r name ty)) = registry_exists r"
  proof (cases name)
    case None
    then show ?thesis using assms by (simp add: registry_find_def registry_exists_def)
  next
    case (Some n)
    show ?thesis
    proof (cases "reg_abs r (n, ty)")
      case None
      then show ?thesis using Some assms by (simp add: registry_find_miss registry_exists_abs)
    next
      case (Some v)
      then obtain d c where v: "reg_abs r (n, ty) = Some (d, c)" by (cases v) auto
      note hit = registry_find_hit [OF assms v]
      have "registry_exists (snd (registry_find r (Some n) ty)) m t = registry_exists r m t" for m t
      proof (cases m)
        case None
        then show ?thesis by (simp add: registry_exists_def)
      next
        case (Some m')
        then show ?thesis using v hit(3)
          by (simp add: registry_exists_abs [OF assms] registry_exists_abs [OF hit(2)])
      qed
      then show ?thesis using hit v \<open>name = Some n\<close>
        by (simp add: registry_exists_abs [OF assms] fun_eq_iff)
    qed
  qed
  then show "fst (registry_find r name ty) = registry_exists r name ty"
    "reg_inv (snd (registry_find r name ty))"
    "registry_exists (snd (registry_find r name ty)) = registry_exists r" by simp_all
qed

lemma registry_unref_spec:
  assumes "reg_inv r"
  shows "reg_inv (snd (registry_unref r name ty))"
    "registry_exists (snd (registry_unref r name ty)) = registry_exists r"
proof -
  have "reg_inv (snd (registry_unref r name ty)) \<and>
    registry_exists (snd (registry_unref r name ty)) = registry_exists r"
  proof (cases name)
    case None
    then show ?thesis using assms by (simp add: registry_unref_def)
  next
    case (Some n)
    show ?thesis
    proof (cases "reg_abs r (n, ty)")
      case None
      then show ?thesis using Some assms by (simp add: registry_unref_miss)
    next
      case (Some v)
      then obtain d c where v: "reg_abs r (n, ty) = Some (d, c)" by (cases v) auto
      note hit = registry_unref_hit [OF assms v]
      have "registry_exists (snd (registry_unref r (Some n) ty)) m t = registry_exists r m t" for m t
      proof (cases m)
        case None
        then show ?thesis by (simp add: registry_exists_def)
      next
        case (Some m')
        then show ?thesis using v hit(3)
          by (simp add: registry_exists_abs [OF assms] registry_exists_abs [OF hit(2)])
      qed
      then show ?thesis using hit v \<open>name = Some n\<close> by (simp add: fun_eq_iff)
    qed
  qed
  then show "reg_inv (snd (registry_unref r name ty))"
    "registry_exists (snd (registry_unref r name ty)) = registry_exists r" by simp_all
qed

abbreviation net_inv :: "'o net \<Rightarrow> bool" where "net_inv w \<equiv> reg_inv (net_reg w)"

lemma netio_acquire_spec:
  assumes "net_inv w"
  shows "fst (netio_acquire name w) = nio_ptr w name" "net_inv (snd (netio_acquire name w))"
    "nio_ptr (snd (netio_acquire name w)) = nio_ptr w"
  using registry_find_spec [OF assms, of name OBJ_TYPE_NIO]
  by (auto simp: netio_acquire_def nio_ptr_def fun_eq_iff split: prod.splits)

lemma netio_release_spec:
  assumes "net_inv w"
  shows "net_inv (snd (netio_release name w))" "nio_ptr (snd (netio_release name w)) = nio_ptr w"
  using registry_unref_spec [OF assms, of name OBJ_TYPE_NIO]
  by (auto simp: netio_release_def nio_ptr_def fun_eq_iff split: prod.splits)

lemma netio_names_frame [simp]:
  "net_nio (snd (netio_acquire name w)) = net_nio w"
  "net_nio (snd (netio_release name w)) = net_nio w"
  "net_nio (snd (netio_rxl_add ok p h w)) = net_nio w"
  "net_nio (snd (netio_rxl_remove p w)) = net_nio w"
  "net_sent (snd (netio_acquire name w)) = net_sent w"
  "net_sent (snd (netio_release name w)) = net_sent w"
  "net_rxl (snd (netio_acquire name w)) = net_rxl w"
  "net_rxl (snd (netio_release name w)) = net_rxl w"
  "net_reg (snd (netio_rxl_add ok p h w)) = net_reg w"
  "net_reg (snd (netio_rxl_remove p w)) = net_reg w"
  "nio_ptr (snd (netio_rxl_add ok p h w)) = nio_ptr w"
  "nio_ptr (snd (netio_rxl_remove p w)) = nio_ptr w"
  by (auto simp: netio_acquire_def netio_release_def netio_rxl_add_def netio_rxl_remove_def
      nio_ptr_def fun_eq_iff split: prod.splits)

lemma acquire_pair:
  assumes "net_inv w"
  obtains w1 w2 where "netio_acquire ni w = (nio_ptr w ni, w1)" "netio_acquire no w1 = (nio_ptr w no, w2)"
    "net_inv w2" "nio_ptr w2 = nio_ptr w" "net_nio w2 = net_nio w"
proof -
  define w1 where "w1 = snd (netio_acquire ni w)"
  define w2 where "w2 = snd (netio_acquire no w1)"
  note a1 = netio_acquire_spec [OF assms, of ni, folded w1_def]
  note a2 = netio_acquire_spec [OF a1(2), of no, folded w2_def]
  show ?thesis
    by (rule that [of w1 w2]) (use a1 a2 in \<open>simp_all add: w1_def w2_def prod_eq_iff\<close>)
qed

lemma netio_rxl_add_result [simp]: "fst (netio_rxl_add ok p h w) = (if ok then 0 else -1)"
  by (simp add: netio_rxl_add_def)

lemma upd_nio_frame [simp]:
  "net_reg (upd_nio p nio w) = net_reg w" "net_rxl (upd_nio p nio w) = net_rxl w"
  "net_sent (upd_nio p nio w) = net_sent w" "net_nio (upd_nio p nio w) = (net_nio w)(p := nio)"
  by (simp_all add: upd_nio_def)

text \<open>Releasing a circuit: its input stops being listened to, both references are given back.\<close>

definition release_nios :: "nat option \<Rightarrow> nat option \<Rightarrow> 'o net \<Rightarrow> 'o net" where
  "release_nios input output w =
     (let w = (case input of None \<Rightarrow> w
               | Some p \<Rightarrow> let w = snd (netio_rxl_remove p w)
                   in snd (netio_release (Some (nio_name (net_nio w p))) w))
      in case output of None \<Rightarrow> w
         | Some q \<Rightarrow> snd (netio_release (Some (nio_name (net_nio w q))) w))"

lemma release_nios_frame [simp]:
  "net_nio (release_nios input output w) = net_nio w"
  by (simp add: release_nios_def Let_def split: option.splits)

lemma release_nios_spec:
  assumes "net_inv w"
  shows "net_inv (release_nios input output w)"
    and "nio_ptr (release_nios input output w) = nio_ptr w"
  using assms
  by (auto simp: release_nios_def Let_def netio_release_spec split: option.splits)

text \<open>The transmit-side filters of a descriptor.\<close>

definition filters_of :: "'o net \<Rightarrow> nat \<Rightarrow> 'o netio_pktfilter option \<times> 'o netio_pktfilter option" where
  "filters_of w p = (tx_filter (net_nio w p), both_filter (net_nio w p))"

text \<open>A descriptor without transmit filters whose driver takes every packet whole.\<close>

definition plain_nio :: "'o os_send \<Rightarrow> 'o net \<Rightarrow> nat \<Rightarrow> bool" where
  "plain_nio os w q \<longleftrightarrow> filters_of w q = (None, None) \<and> (\<forall>w' pkt. os w' q pkt = int (length pkt))"

lemma plain_nio_filters: "filters_of w' = filters_of w \<Longrightarrow> plain_nio os w' q \<longleftrightarrow> plain_nio os w q"
  by (simp add: plain_nio_def)

lemma netio_send_plain:
  assumes "plain_nio os w q"
  obtains w' where "netio_send os (Some q) pkt w = (int (length pkt), w')"
    "net_sent w' = net_sent w @ [(q, pkt)]" "filters_of w' = filters_of w"
    "net_reg w' = net_reg w" "net_rxl w' = net_rxl w"
  using assms
  by (simp add: plain_nio_def filters_of_def netio_send_def netio_tx_def apply_filter_def Let_def
      netio_update_bw_stat_def fun_eq_iff)

text \<open>Two NIOs under the names \<open>a\<close> and \<open>b\<close>.\<close>

definition sample_net :: "pf_freqdrop_data net" where
  "sample_net =
     (let r = snd (registry_add registry_init (Some ''a'') OBJ_TYPE_NIO 0 (Some 0));
          r = snd (registry_add r (Some ''b'') OBJ_TYPE_NIO 1 (Some 1))
      in \<lparr>net_nio = (\<lambda>p. netio_create (if p = 0 then ''a'' else ''b'')), net_reg = r, net_rxl = [], net_sent = []\<rparr>)"

lemma sample_net_reg:
  "net_inv sample_net"
  "reg_abs (net_reg sample_net) = [(''a'', OBJ_TYPE_NIO) \<mapsto> (0, 1), (''b'', OBJ_TYPE_NIO) \<mapsto> (1, 1)]"
proof -
  define r where "r = snd (registry_add (registry_init :: nat registry) (Some ''a'') OBJ_TYPE_NIO 0 (Some 0))"
  have r: "reg_inv r" "reg_abs r = [(''a'', OBJ_TYPE_NIO) \<mapsto> (0, 1)]"
    using registry_add_new [OF reg_inv_init, of "''a''" OBJ_TYPE_NIO 0 0]
    by (simp_all add: r_def reg_abs_init) (simp_all add: registry_init_def)
  have e: "reg_entries r 1 = None"
    by (simp add: r_def registry_add_def registry_insert_entry_def registry_find_entry_def
        registry_init_def)
  show "net_inv sample_net"
    "reg_abs (net_reg sample_net) = [(''a'', OBJ_TYPE_NIO) \<mapsto> (0, 1), (''b'', OBJ_TYPE_NIO) \<mapsto> (1, 1)]"
    using registry_add_new [OF r(1), of "''b''" OBJ_TYPE_NIO 1 1] r(2) e
    by (simp_all add: sample_net_def flip: r_def)
qed

lemma sample_net_simps [simp]:
  "nio_ptr sample_net (Some ''a'') = Some 0" "nio_ptr sample_net (Some ''b'') = Some 1"
  "net_nio sample_net 0 = netio_create ''a''" "net_nio sample_net (Suc 0) = netio_create ''b''"
  "fr_conn_list (net_nio sample_net p) = []"
  by (simp_all add: nio_ptr_def registry_exists_abs sample_net_reg)
     (simp_all add: sample_net_def netio_create_def Let_def)

lemma sample_net_plain:
  "plain_nio (\<lambda>_ _ pkt. int (length pkt)) sample_net p" "net_sent sample_net = []"
  by (simp_all add: plain_nio_def filters_of_def sample_net_def netio_create_def Let_def)

end
