(* ===== verification/Crc.thy ===== *)
theory Crc
  imports Prelude
begin

text \<open>
  The CRC code of \<open>common/crc.c\<close> and \<open>common/crc.h\<close>: the three table generators
  (CRC-12, CRC-16, CRC-32) and the table-driven computations. The interface between the
  two halves is the locale \<open>table_crc\<close>: the tables promise that entry \<open>b\<close> is the
  8-fold bit step of \<open>b\<close>, and the byte-wise computations rely on nothing else. The
  reference definition is the bit-serial CRC \<open>crc_serial\<close>.
\<close>

section \<open>The reference: a bit-serial reflected CRC\<close>

definition crc_step :: "'w::len word \<Rightarrow> 'w word \<Rightarrow> 'w word" where
  "crc_step poly c = (if bit c 0 then drop_bit 1 c XOR poly else drop_bit 1 c)"

definition crc_serial :: "'w::len word \<Rightarrow> 'w word \<Rightarrow> bytes \<Rightarrow> 'w word" where
  "crc_serial poly c xs = fold (\<lambda>b c. (crc_step poly ^^ 8) (c XOR ucast b)) xs c"

lemma crc_serial_Nil [simp]: "crc_serial poly c [] = c"
  and crc_serial_Cons [simp]:
    "crc_serial poly c (b # xs) = crc_serial poly ((crc_step poly ^^ 8) (c XOR ucast b)) xs"
  and crc_serial_append: "crc_serial poly c (xs @ ys) = crc_serial poly (crc_serial poly c xs) ys"
  by (simp_all add: crc_serial_def)

lemma crc_step_xor: "crc_step poly (a XOR b) = crc_step poly a XOR crc_step poly b"
  by (rule bit_word_eqI)
     (auto simp: crc_step_def bit_xor_iff bit_drop_bit_eq)

lemma crc_step_even: "\<not> bit a 0 \<Longrightarrow> crc_step poly a = drop_bit 1 a"
  by (simp add: crc_step_def)

section \<open>The interface between tables and byte-wise computation\<close>

locale table_crc =
  fixes step :: "'w::len word \<Rightarrow> 'w word" and tab :: "'w word list"
  assumes step_xor: "step (a XOR b) = step a XOR step b"
    and step_even: "\<not> bit a 0 \<Longrightarrow> step a = drop_bit 1 a"
    and tab_entry: "i < 256 \<Longrightarrow> tab ! i = (step ^^ 8) (of_nat i)"
begin

lemma funpow_step_xor: "(step ^^ n) (a XOR b) = (step ^^ n) a XOR (step ^^ n) b"
  by (induction n) (simp_all add: step_xor)

lemma funpow_step_zeros: "\<forall>i<n. \<not> bit a i \<Longrightarrow> (step ^^ n) a = drop_bit n a"
proof (induction n arbitrary: a)
  case 0
  then show ?case by simp
next
  case (Suc n)
  then have "step a = drop_bit 1 a" by (simp add: step_even)
  moreover have "\<forall>i<n. \<not> bit (drop_bit 1 a) i"
    using Suc.prems by (simp add: bit_drop_bit_eq)
  ultimately have "(step ^^ n) (step a) = drop_bit n (drop_bit 1 a)"
    using Suc.IH [of "drop_bit 1 a"] by simp
  then show ?case by (simp add: funpow_swap1 drop_bit_drop_bit add.commute)
qed

lemma byte_index: "unat (c AND 0xff) < 256" for c :: "'w word"
proof -
  have "c AND 0xff \<le> (0xff :: 'w word)" by (rule word_and_le1)
  then have "unat (c AND 0xff) \<le> unat (0xff :: 'w word)" by (simp add: word_le_nat_alt)
  also have "unat (0xff :: 'w word) \<le> 255"
    by (metis unat_of_nat mod_less_eq_dividend of_nat_numeral)
  finally show ?thesis by simp
qed

text \<open>One table lookup does the work of eight bit steps.\<close>

lemma byte_step: "(step ^^ 8) c = drop_bit 8 c XOR tab ! unat (c AND 0xff)"
proof -
  have split: "c = (c AND mask 8) XOR (c AND NOT (mask 8))"
    by (rule bit_word_eqI) (auto simp: bit_simps)
  have "(step ^^ 8) (c AND NOT (mask 8)) = drop_bit 8 (c AND NOT (mask 8))"
    by (rule funpow_step_zeros) (simp add: bit_simps)
  also have "\<dots> = drop_bit 8 c"
    by (rule bit_word_eqI) (auto simp: bit_simps dest: bit_imp_le_length)
  finally have hi: "(step ^^ 8) (c AND NOT (mask 8)) = drop_bit 8 c" .
  have "mask 8 = (0xff :: 'w word)" by (simp add: mask_eq_exp_minus_1)
  then have lo: "(step ^^ 8) (c AND mask 8) = tab ! unat (c AND 0xff)"
    using tab_entry [OF byte_index [of c]] by simp
  have "(step ^^ 8) c = (step ^^ 8) (c AND mask 8) XOR (step ^^ 8) (c AND NOT (mask 8))"
    by (metis split funpow_step_xor)
  then show ?thesis by (simp add: hi lo xor.commute)
qed

end

section \<open>Table generation (crc.c)\<close>

text \<open>
  \<open>crc12_init\<close> and \<open>crc16_init\<close> run the same inner loop over two variables: the
  register and the remaining input bits.
\<close>

fun crc16_bit_loop :: "u16 \<Rightarrow> nat \<Rightarrow> u16 \<Rightarrow> u16 \<Rightarrow> u16" where
  "crc16_bit_loop poly 0 crc c = crc"
| "crc16_bit_loop poly (Suc j) crc c =
     crc16_bit_loop poly j
       (if (crc XOR c) AND 1 \<noteq> 0 then drop_bit 1 crc XOR poly else drop_bit 1 crc)
       (drop_bit 1 c)"

definition crc12_array :: "u16 list" where
  "crc12_array = map (\<lambda>i. crc16_bit_loop 0x0f01 8 0 (of_nat i)) [0..<256]"

definition crc16_array :: "u16 list" where
  "crc16_array = map (\<lambda>i. crc16_bit_loop 0xa001 8 0 (of_nat i)) [0..<256]"

text \<open>\<open>crc32_init\<close> computes in an \<open>unsigned long\<close> (64 bits) and stores 32 bits.\<close>

fun crc32_bit_loop :: "nat \<Rightarrow> u64 \<Rightarrow> u64" where
  "crc32_bit_loop 0 c = c"
| "crc32_bit_loop (Suc k) c =
     crc32_bit_loop k (if c AND 1 \<noteq> 0 then 0xedb88320 XOR drop_bit 1 c else drop_bit 1 c)"

definition crc32_array :: "u32 list" where
  "crc32_array = map (\<lambda>n. ucast (crc32_bit_loop 8 (of_nat n))) [0..<256]"

lemma and_1_bit: "x AND 1 \<noteq> 0 \<longleftrightarrow> bit (x :: 'a::len word) 0"
  by (simp add: and_one_eq odd_iff_mod_2_eq_one bit_0)

lemma crc16_bit_loop_step:
  "crc16_bit_loop poly n crc c XOR drop_bit n c = (crc_step poly ^^ n) (crc XOR c)"
proof (induction n arbitrary: crc c)
  case 0
  then show ?case by simp
next
  case (Suc n)
  let ?crc = "if (crc XOR c) AND 1 \<noteq> 0 then drop_bit 1 crc XOR poly else drop_bit 1 crc"
  have "?crc XOR drop_bit 1 c = crc_step poly (crc XOR c)"
    by (auto simp: and_1_bit crc_step_def drop_bit_xor xor.commute xor.left_commute)
  moreover have "drop_bit n (drop_bit 1 c) = drop_bit (Suc n) c"
    by (simp add: drop_bit_drop_bit)
  ultimately show ?case
    using Suc.IH [of ?crc "drop_bit 1 c"]
    by (simp add: funpow_Suc_right del: funpow.simps)
qed

lemma crc16_bit_loop_byte:
  assumes "b < 256"
  shows "crc16_bit_loop poly 8 0 (of_nat b) = (crc_step poly ^^ 8) (of_nat b)"
proof -
  have "drop_bit 8 (of_nat b :: u16) = 0"
    using assms by (simp add: drop_bit_eq_div word_arith_nat_div unat_of_nat take_bit_eq_mod flip: of_nat_div)
  then show ?thesis using crc16_bit_loop_step [of poly 8 0 "of_nat b"] by simp
qed

lemma crc32_bit_loop_step:
  assumes "drop_bit 32 c = 0"
  shows "ucast (crc32_bit_loop n c) = (crc_step (0xedb88320 :: u32) ^^ n) (ucast c)"
  using assms
proof (induction n arbitrary: c)
  case 0
  then show ?case by simp
next
  case (Suc n)
  let ?c = "if c AND 1 \<noteq> 0 then 0xedb88320 XOR drop_bit 1 c else drop_bit 1 c"
  have zero: "\<not> bit c i" if "32 \<le> i" for i
  proof -
    have "bit (drop_bit 32 c) (i - 32) = bit c i" using that by (simp add: bit_drop_bit_eq)
    with Suc.prems show ?thesis by simp
  qed
  have small: "i < 31" if "bit c (Suc i)" for i
    using zero [of "Suc i"] that by (cases "i < 31") auto
  have poly: "drop_bit 32 (0xedb88320 :: u64) = 0" by simp
  have "drop_bit 32 (drop_bit 1 c) = 0"
    by (rule bit_word_eqI) (simp add: bit_drop_bit_eq zero)
  with poly have "drop_bit 32 ?c = 0" by (simp add: drop_bit_xor)
  moreover have drop1: "(ucast (drop_bit 1 c) :: u32) = drop_bit 1 (ucast c)"
    by (rule bit_word_eqI) (auto simp: bit_simps dest: small)
  have "(ucast ?c :: u32) = crc_step 0xedb88320 (ucast c)"
    by (auto simp: crc_step_def and_1_bit bit_ucast_iff drop1 drop1 [simplified] unsigned_xor_eq xor.commute)
  ultimately show ?case
    using Suc.IH [of ?c] by (simp add: funpow_Suc_right del: funpow.simps)
qed

section \<open>The tables keep the interface's promise\<close>

interpretation crc12: table_crc "crc_step (0x0f01 :: u16)" crc12_array
  by unfold_locales
    (simp_all add: crc_step_xor crc_step_even crc12_array_def crc16_bit_loop_byte)

interpretation crc16: table_crc "crc_step (0xa001 :: u16)" crc16_array
  by unfold_locales
    (simp_all add: crc_step_xor crc_step_even crc16_array_def crc16_bit_loop_byte)

interpretation crc32: table_crc "crc_step (0xedb88320 :: u32)" crc32_array
proof unfold_locales
  fix b :: nat
  assume "b < 256"
  then have "drop_bit 32 (of_nat b :: u64) = 0"
    by (simp add: drop_bit_eq_div word_arith_nat_div unat_of_nat take_bit_eq_mod flip: of_nat_div)
  moreover have "ucast (of_nat b :: u64) = (of_nat b :: u32)"
    using \<open>b < 256\<close> by (simp add: unsigned_of_nat take_bit_nat_eq_self)
  ultimately show "crc32_array ! b = (crc_step 0xedb88320 ^^ 8) (of_nat b)"
    using \<open>b < 256\<close> by (simp add: crc32_array_def crc32_bit_loop_step)
qed (simp_all add: crc_step_xor crc_step_even)

section \<open>Table-driven computation (crc.h)\<close>

fun crc_hash_loop :: "u16 list \<Rightarrow> nat \<Rightarrow> u32 \<Rightarrow> u32 \<Rightarrow> u32" where
  "crc_hash_loop tab 0 crc v = crc"
| "crc_hash_loop tab (Suc i) crc v =
     crc_hash_loop tab i (drop_bit 8 crc XOR ucast (tab ! unat ((crc XOR v) AND 0xff))) (drop_bit 8 v)"

definition crc12_hash_u32 :: "u32 \<Rightarrow> u32" where
  "crc12_hash_u32 v = crc_hash_loop crc12_array 4 0 v"

definition crc16_hash_u32 :: "u32 \<Rightarrow> u32" where
  "crc16_hash_u32 v = crc_hash_loop crc16_array 4 0 v"

definition crc32_compute :: "u32 \<Rightarrow> bytes \<Rightarrow> u32" where
  "crc32_compute crc_accum ptr =
     NOT (fold (\<lambda>b c. crc32_array ! unat ((c XOR ucast b) AND 0xff) XOR drop_bit 8 c) ptr crc_accum)"

lemma crc32_fold_serial:
  "fold (\<lambda>b c. crc32_array ! unat ((c XOR ucast b) AND 0xff) XOR drop_bit 8 c) xs c =
   crc_serial (0xedb88320 :: u32) c xs"
proof (induction xs arbitrary: c)
  case Nil
  then show ?case by simp
next
  case (Cons b xs)
  have "drop_bit 8 (ucast b :: u32) = 0"
    by (rule bit_word_eqI) (auto simp: bit_simps dest: bit_imp_le_length)
  then have "(crc_step (0xedb88320 :: u32) ^^ 8) (c XOR ucast b) =
      crc32_array ! unat ((c XOR ucast b) AND 0xff) XOR drop_bit 8 c"
    by (simp add: crc32.byte_step drop_bit_xor xor.commute)
  then show ?case by (simp add: Cons.IH)
qed

lemma crc32_compute_chain:
  "crc32_compute (NOT (crc32_compute acc xs)) ys = crc32_compute acc (xs @ ys)"
  by (simp add: crc32_compute_def)

text \<open>
  C22: the table-driven CRC-32 of \<open>crc32_compute\<close> (table built by \<open>crc32_init\<close>)
  computes the complement of the bit-serial reflected CRC with polynomial
  \<open>0xedb88320\<close>, for every buffer and every initial value.
\<close>

theorem crc32_compute_correct:
  "crc32_compute acc xs = NOT (crc_serial (0xedb88320 :: u32) acc xs)"
  by (simp add: crc32_compute_def crc32_fold_serial)

fun le_bytes :: "nat \<Rightarrow> u32 \<Rightarrow> bytes" where
  "le_bytes 0 v = []"
| "le_bytes (Suc n) v = ucast v # le_bytes n (drop_bit 8 v)"

lemma unat_ucast16: "unat (ucast (x :: u16) :: u32) = unat x"
proof -
  have "unat x < 2 ^ 16" using unsigned_less [of x, where 'a = nat] by simp
  then have "unat x < 2 ^ 32" by simp
  then show ?thesis by (simp add: unsigned_ucast_eq take_bit_nat_eq_self)
qed

lemma crc_hash_loop_serial:
  assumes byte: "\<And>c. (crc_step poly ^^ 8) c = drop_bit 8 c XOR tab ! unat (c AND 0xff)"
  shows "crc_hash_loop tab n (ucast c) v = ucast (crc_serial poly c (le_bytes n v))"
proof (induction n arbitrary: c v)
  case 0
  then show ?case by simp
next
  case (Suc n)
  let ?b = "ucast (ucast v :: u8) :: u16"
  have m: "(0xff :: u32) = mask 8" "(0xff :: u16) = mask 8" by (simp_all add: mask_eq_exp_minus_1)
  have i: "unat ((ucast c XOR v) AND 0xff) = unat ((c XOR ?b) AND 0xff)"
  proof -
    have "(ucast c XOR v) AND 0xff = ucast ((c XOR ?b) AND 0xff)"
      unfolding m by (rule bit_word_eqI) (auto simp: bit_simps)
    then show ?thesis by (simp only: unat_ucast16)
  qed
  have d: "drop_bit 8 ?b = 0"
    by (rule bit_word_eqI) (auto simp: bit_simps dest: bit_imp_le_length)
  have "drop_bit 8 (ucast c) XOR ucast (tab ! unat ((ucast c XOR v) AND 0xff)) =
      (ucast ((crc_step poly ^^ 8) (c XOR ?b)) :: u32)"
    unfolding byte i by (rule bit_word_eqI) (auto simp: bit_simps drop_bit_xor d dest: bit_imp_le_length)
  then show ?case by (simp add: Suc.IH)
qed

text \<open>
  The hash functions \<open>crc12_hash_u32\<close> and \<open>crc16_hash_u32\<close> are the bit-serial
  CRC-12 and CRC-16 of the four bytes of the value, least significant byte first.
\<close>

theorem crc_hash_u32_correct:
  "crc12_hash_u32 v = ucast (crc_serial (0x0f01 :: u16) 0 (le_bytes 4 v)) \<and>
   crc16_hash_u32 v = ucast (crc_serial (0xa001 :: u16) 0 (le_bytes 4 v))"
  using crc_hash_loop_serial [OF crc12.byte_step, of 4 0 v]
    crc_hash_loop_serial [OF crc16.byte_step, of 4 0 v]
  by (simp add: crc12_hash_u32_def crc16_hash_u32_def)

end
