(* ===== verification/Atm.thy ===== *)
theory Atm
  imports Conn_Table Crc
begin

text \<open>
  The virtual ATM switch of \<open>common/atm.c\<close>: the header error control (HEC) of cells, the
  tables of virtual path (VP) and virtual channel (VC) connections, and switching of cells.
\<close>

section \<open>Cells and the HEC field\<close>

definition ATM_HDR_SIZE :: nat where "ATM_HDR_SIZE = 5"
definition ATM_PAYLOAD_SIZE :: nat where "ATM_PAYLOAD_SIZE = 48"
definition ATM_CELL_SIZE :: nat where "ATM_CELL_SIZE = ATM_HDR_SIZE + ATM_PAYLOAD_SIZE"
definition ATM_HDR_VPI_MASK :: u32 where "ATM_HDR_VPI_MASK = 0xFFF00000"
definition ATM_HDR_VPI_SHIFT :: nat where "ATM_HDR_VPI_SHIFT = 20"
definition ATM_HDR_VCI_MASK :: u32 where "ATM_HDR_VCI_MASK = 0x000FFFF0"
definition ATM_HDR_VCI_SHIFT :: nat where "ATM_HDR_VCI_SHIFT = 4"

fun syndrome_loop :: "nat \<Rightarrow> u32 \<Rightarrow> u32" where
  "syndrome_loop 0 s = s"
| "syndrome_loop (Suc j) s =
     syndrome_loop j (if s AND 0x80 \<noteq> 0 then push_bit 1 s XOR 0x107 else push_bit 1 s)"

definition hec_syndrome_table :: "u8 list" where
  "hec_syndrome_table = map (\<lambda>i. ucast (syndrome_loop 8 (of_nat i))) [0..<256]"

definition atm_compute_hec :: "bytes \<Rightarrow> u8" where
  "atm_compute_hec cell =
     fold (\<lambda>b acc. hec_syndrome_table ! unat (acc XOR b)) (take 4 cell) 0 XOR 0x55"

definition atm_insert_hec :: "bytes \<Rightarrow> bytes" where
  "atm_insert_hec cell = cell[4 := atm_compute_hec cell]"

text \<open>The reference: the bit-serial CRC-8 with polynomial \<open>x^8 + x^2 + x + 1\<close>.\<close>

definition crc8_step :: "u8 \<Rightarrow> u8" where
  "crc8_step c = (if bit c 7 then push_bit 1 c XOR 0x07 else push_bit 1 c)"

definition crc8_serial :: "bytes \<Rightarrow> u8" where
  "crc8_serial xs = fold (\<lambda>b c. (crc8_step ^^ 8) (c XOR b)) xs 0"

lemma syndrome_loop_step: "ucast (syndrome_loop n s) = (crc8_step ^^ n) (ucast s)"
proof (induction n arbitrary: s)
  case (Suc n)
  let ?s = "if s AND 0x80 \<noteq> 0 then push_bit 1 s XOR 0x107 else push_bit 1 s"
  have b: "s AND 0x80 \<noteq> 0 \<longleftrightarrow> bit s 7" using and_pow2_eq_0 [of s 7] by simp
  have p: "ucast (push_bit 1 s) = (push_bit 1 (ucast s) :: u8)"
    by (rule bit_word_eqI) (unfold bit_ucast_iff bit_push_bit_iff, auto)
  have k: "(263 :: u8) = 7" by simp
  have "ucast ?s = crc8_step (ucast s)"
    unfolding b by (auto simp: crc8_step_def bit_ucast_iff unsigned_xor_eq p p [simplified] k)
  then show ?case using Suc.IH [of ?s] by (simp add: funpow_Suc_right del: funpow.simps)
qed simp

lemma hec_table_entry: "hec_syndrome_table ! unat (x :: u8) = (crc8_step ^^ 8) x"
proof -
  have "unat x < 256" using unsigned_less [of x, where 'a = nat] by simp
  then show ?thesis by (simp add: hec_syndrome_table_def syndrome_loop_step ucast_up_ucast_id is_up)
qed

lemma atm_compute_hec_serial: "atm_compute_hec cell = crc8_serial (take 4 cell) XOR 0x55"
  by (simp add: atm_compute_hec_def crc8_serial_def hec_table_entry)

section \<open>State (atm.h)\<close>

definition ATMSW_VP_HASH_SIZE :: nat where "ATMSW_VP_HASH_SIZE = 256"
definition ATMSW_VC_HASH_SIZE :: nat where "ATMSW_VC_HASH_SIZE = 1024"

record atmsw_vp_conn =
  vp_input :: nat
  vp_output :: nat
  vp_vpi_in :: u32
  vp_vpi_out :: u32
  vp_cell_cnt :: u64

record atmsw_vc_conn =
  vcc_input :: nat
  vcc_output :: nat
  vcc_vpi_in :: u32
  vcc_vci_in :: u32
  vcc_vpi_out :: u32
  vcc_vci_out :: u32
  vcc_cell_cnt :: u64

record atmsw_table =
  atmsw_name :: string
  atmsw_cell_drop :: u64
  vp_table :: "nat \<Rightarrow> nat list"
  vc_table :: "nat \<Rightarrow> nat list"
  vp_conns :: "nat \<rightharpoonup> atmsw_vp_conn"
  vc_conns :: "nat \<rightharpoonup> atmsw_vc_conn"

definition atmsw_vpc_hash :: "u32 \<Rightarrow> nat" where
  "atmsw_vpc_hash vpi = unat ((vpi XOR drop_bit 8 vpi) AND of_nat (ATMSW_VP_HASH_SIZE - 1))"

definition atmsw_vcc_hash :: "u32 \<Rightarrow> u32 \<Rightarrow> nat" where
  "atmsw_vcc_hash vpi vci = unat ((vpi XOR vci) AND of_nat (ATMSW_VC_HASH_SIZE - 1))"

definition vp_key :: "atmsw_vp_conn \<Rightarrow> nat \<times> u32" where
  "vp_key c = (vp_input c, vp_vpi_in c)"

definition vcc_key :: "atmsw_vc_conn \<Rightarrow> nat \<times> u32 \<times> u32" where
  "vcc_key c = (vcc_input c, vcc_vpi_in c, vcc_vci_in c)"

definition atmsw_vp_lookup :: "(nat \<Rightarrow> nat list) \<Rightarrow> (nat \<rightharpoonup> atmsw_vp_conn) \<Rightarrow> nat \<Rightarrow> u32 \<Rightarrow> nat option" where
  "atmsw_vp_lookup tbl conns input vpi =
     chain_lookup (\<lambda>c. vp_input c = input \<and> vp_vpi_in c = vpi) conns (tbl (atmsw_vpc_hash vpi))"

definition atmsw_vc_lookup ::
  "(nat \<Rightarrow> nat list) \<Rightarrow> (nat \<rightharpoonup> atmsw_vc_conn) \<Rightarrow> nat \<Rightarrow> u32 \<Rightarrow> u32 \<Rightarrow> nat option" where
  "atmsw_vc_lookup tbl conns input vpi vci =
     chain_lookup (\<lambda>c. vcc_input c = input \<and> vcc_vpi_in c = vpi \<and> vcc_vci_in c = vci) conns
       (tbl (atmsw_vcc_hash vpi vci))"

interpretation vp: conn_table vp_key "\<lambda>(input, vpi). atmsw_vpc_hash vpi"
    "\<lambda>tbl conns (input, vpi). atmsw_vp_lookup tbl conns input vpi"
  by unfold_locales (simp add: atmsw_vp_lookup_def vp_key_def split: prod.splits)

interpretation vcc: conn_table vcc_key "\<lambda>(input, vpi, vci). atmsw_vcc_hash vpi vci"
    "\<lambda>tbl conns (input, vpi, vci). atmsw_vc_lookup tbl conns input vpi vci"
  by unfold_locales (simp add: atmsw_vc_lookup_def vcc_key_def split: prod.splits)

section \<open>Switching\<close>

definition cell_vpi :: "bytes \<Rightarrow> u32" where
  "cell_vpi cell = drop_bit ATM_HDR_VPI_SHIFT (m_ntoh32 cell 0 AND ATM_HDR_VPI_MASK)"

definition cell_vci :: "bytes \<Rightarrow> u32" where
  "cell_vci cell = drop_bit ATM_HDR_VCI_SHIFT (m_ntoh32 cell 0 AND ATM_HDR_VCI_MASK)"

definition atmsw_vp_switch :: "atmsw_vp_conn \<Rightarrow> bytes \<Rightarrow> bytes \<times> atmsw_vp_conn" where
  "atmsw_vp_switch vpc cell =
     (let atm_hdr = m_ntoh32 cell 0;
          atm_hdr = atm_hdr AND NOT ATM_HDR_VPI_MASK;
          atm_hdr = atm_hdr OR push_bit ATM_HDR_VPI_SHIFT (vp_vpi_out vpc)
      in (atm_insert_hec (m_hton32 cell 0 atm_hdr), vpc\<lparr>vp_cell_cnt := vp_cell_cnt vpc + 1\<rparr>))"

definition atmsw_vc_switch :: "atmsw_vc_conn \<Rightarrow> bytes \<Rightarrow> bytes \<times> atmsw_vc_conn" where
  "atmsw_vc_switch vcc cell =
     (let atm_hdr = m_ntoh32 cell 0;
          atm_hdr = atm_hdr AND NOT (ATM_HDR_VPI_MASK OR ATM_HDR_VCI_MASK);
          atm_hdr = atm_hdr OR push_bit ATM_HDR_VPI_SHIFT (vcc_vpi_out vcc);
          atm_hdr = atm_hdr OR push_bit ATM_HDR_VCI_SHIFT (vcc_vci_out vcc)
      in (atm_insert_hec (m_hton32 cell 0 atm_hdr), vcc\<lparr>vcc_cell_cnt := vcc_cell_cnt vcc + 1\<rparr>))"

definition atmsw_handle_cell ::
  "'o os_send \<Rightarrow> atmsw_table \<Rightarrow> nat \<Rightarrow> bytes \<Rightarrow> 'o net \<Rightarrow> int \<times> atmsw_table \<times> 'o net" where
  "atmsw_handle_cell os t input cell w =
     (let vpi = cell_vpi cell; vci = cell_vci cell;
          vpc = (case atmsw_vp_lookup (vp_table t) (vp_conns t) input vpi of None \<Rightarrow> None
                 | Some i \<Rightarrow> map_option (Pair i) (vp_conns t i));
          vcc = (case atmsw_vc_lookup (vc_table t) (vc_conns t) input vpi vci of None \<Rightarrow> None
                 | Some i \<Rightarrow> map_option (Pair i) (vc_conns t i));
          (output, cell, t) =
            (case vpc of
               Some (i, c) \<Rightarrow> (let (cell, c') = atmsw_vp_switch c cell
                 in (Some (vp_output c), cell, t\<lparr>vp_conns := (vp_conns t)(i \<mapsto> c')\<rparr>))
             | None \<Rightarrow>
               (case vcc of
                  Some (i, c) \<Rightarrow> (let (cell, c') = atmsw_vc_switch c cell
                    in (Some (vcc_output c), cell, t\<lparr>vc_conns := (vc_conns t)(i \<mapsto> c')\<rparr>))
                | None \<Rightarrow> (None, cell, t)));
          (len, w) = netio_send os output cell w
      in if len \<noteq> int ATM_CELL_SIZE then (-1, t\<lparr>atmsw_cell_drop := atmsw_cell_drop t + 1\<rparr>, w)
         else (0, t, w))"

definition atmsw_recv_cell ::
  "'o os_send \<Rightarrow> atmsw_table \<Rightarrow> nat \<Rightarrow> bytes \<Rightarrow> 'o net \<Rightarrow> int \<times> atmsw_table \<times> 'o net" where
  "atmsw_recv_cell os t nio cell w =
     (if length cell \<noteq> ATM_CELL_SIZE then (-1, t, w) else atmsw_handle_cell os t nio cell w)"

section \<open>Connections\<close>

definition atmsw_create_vpc ::
  "nat option \<Rightarrow> bool \<Rightarrow> nat \<Rightarrow> atmsw_table \<Rightarrow> string option \<Rightarrow> u32 \<Rightarrow> string option \<Rightarrow> u32 \<Rightarrow> 'o net \<Rightarrow>
   int \<times> atmsw_table \<times> 'o net" where
  "atmsw_create_vpc cell rxl_ok self t nio_input vpi_in nio_output vpi_out w =
     (case cell of None \<Rightarrow> (-1, t, w)
      | Some i \<Rightarrow>
         let (input, w) = netio_acquire nio_input w;
             (outp, w) = netio_acquire nio_output w;
             err = (\<lambda>w. (-1, t, release_nios input outp w))
         in case (input, outp) of
              (Some p, Some q) \<Rightarrow>
                if atmsw_vp_lookup (vp_table t) (vp_conns t) p vpi_in \<noteq> None then err w
                else let (res, w) = netio_rxl_add rxl_ok p self w in
                  if res = -1 then err w
                  else (0, t\<lparr>vp_table := cells_link (atmsw_vpc_hash vpi_in) i (vp_table t),
                             vp_conns := (vp_conns t)(i \<mapsto>
                               \<lparr>vp_input = p, vp_output = q, vp_vpi_in = vpi_in,
                                vp_vpi_out = vpi_out, vp_cell_cnt = 0\<rparr>)\<rparr>, w)
            | _ \<Rightarrow> err w)"

definition atmsw_delete_vpc ::
  "atmsw_table \<Rightarrow> string option \<Rightarrow> u32 \<Rightarrow> string option \<Rightarrow> u32 \<Rightarrow> 'o net \<Rightarrow> int \<times> atmsw_table \<times> 'o net" where
  "atmsw_delete_vpc t nio_input vpi_in nio_output vpi_out w =
     (case (registry_exists (net_reg w) nio_input OBJ_TYPE_NIO,
            registry_exists (net_reg w) nio_output OBJ_TYPE_NIO) of
        (Some p, Some q) \<Rightarrow>
          (case chain_lookup (\<lambda>c. vp_input c = p \<and> vp_output c = q \<and>
                  vp_vpi_in c = vpi_in \<and> vp_vpi_out c = vpi_out)
                (vp_conns t) (vp_table t (atmsw_vpc_hash vpi_in)) of
             None \<Rightarrow> (-1, t, w)
           | Some i \<Rightarrow>
               (0, t\<lparr>vp_table := cells_unlink (atmsw_vpc_hash vpi_in) i (vp_table t),
                     vp_conns := (vp_conns t)(i := None)\<rparr>,
                release_nios (Some p) (Some q) w))
      | _ \<Rightarrow> (-1, t, w))"

definition atmsw_create_vcc ::
  "nat option \<Rightarrow> bool \<Rightarrow> nat \<Rightarrow> atmsw_table \<Rightarrow> string option \<Rightarrow> u32 \<Rightarrow> u32 \<Rightarrow>
   string option \<Rightarrow> u32 \<Rightarrow> u32 \<Rightarrow> 'o net \<Rightarrow> int \<times> atmsw_table \<times> 'o net" where
  "atmsw_create_vcc cell rxl_ok self t nio_input vpi_in vci_in nio_output vpi_out vci_out w =
     (case cell of None \<Rightarrow> (-1, t, w)
      | Some i \<Rightarrow>
         let (input, w) = netio_acquire nio_input w;
             (outp, w) = netio_acquire nio_output w;
             err = (\<lambda>w. (-1, t, release_nios input outp w))
         in if (case input of None \<Rightarrow> False
                | Some p \<Rightarrow> atmsw_vp_lookup (vp_table t) (vp_conns t) p vpi_in \<noteq> None) then err w
            else case (input, outp) of
              (Some p, Some q) \<Rightarrow>
                if atmsw_vc_lookup (vc_table t) (vc_conns t) p vpi_in vci_in \<noteq> None then err w
                else let (res, w) = netio_rxl_add rxl_ok p self w in
                  if res = -1 then err w
                  else (0, t\<lparr>vc_table := cells_link (atmsw_vcc_hash vpi_in vci_in) i (vc_table t),
                             vc_conns := (vc_conns t)(i \<mapsto>
                               \<lparr>vcc_input = p, vcc_output = q, vcc_vpi_in = vpi_in, vcc_vci_in = vci_in,
                                vcc_vpi_out = vpi_out, vcc_vci_out = vci_out, vcc_cell_cnt = 0\<rparr>)\<rparr>, w)
            | _ \<Rightarrow> err w)"

text \<open>Unlike its VP twin, this one does not test the NIOs; \<open>None\<close> matches no connection.\<close>

definition atmsw_delete_vcc ::
  "atmsw_table \<Rightarrow> string option \<Rightarrow> u32 \<Rightarrow> u32 \<Rightarrow> string option \<Rightarrow> u32 \<Rightarrow> u32 \<Rightarrow> 'o net \<Rightarrow>
   int \<times> atmsw_table \<times> 'o net" where
  "atmsw_delete_vcc t nio_input vpi_in vci_in nio_output vpi_out vci_out w =
     (let input = registry_exists (net_reg w) nio_input OBJ_TYPE_NIO;
          outp = registry_exists (net_reg w) nio_output OBJ_TYPE_NIO
      in case chain_lookup (\<lambda>c. Some (vcc_input c) = input \<and> Some (vcc_output c) = outp \<and>
                vcc_vpi_in c = vpi_in \<and> vcc_vci_in c = vci_in \<and>
                vcc_vpi_out c = vpi_out \<and> vcc_vci_out c = vci_out)
              (vc_conns t) (vc_table t (atmsw_vcc_hash vpi_in vci_in)) of
           None \<Rightarrow> (-1, t, w)
         | Some i \<Rightarrow>
             (0, t\<lparr>vc_table := cells_unlink (atmsw_vcc_hash vpi_in vci_in) i (vc_table t),
                   vc_conns := (vc_conns t)(i := None)\<rparr>,
              release_nios input outp w))"

definition atmsw_free :: "atmsw_table \<Rightarrow> 'o net \<Rightarrow> bool \<times> 'o net" where
  "atmsw_free t w =
     (let w = fold (\<lambda>i w. case vp_conns t i of None \<Rightarrow> w
                | Some c \<Rightarrow> release_nios (Some (vp_input c)) (Some (vp_output c)) w)
                (concat (map (vp_table t) [0..<ATMSW_VP_HASH_SIZE])) w;
          w = fold (\<lambda>i w. case vc_conns t i of None \<Rightarrow> w
                | Some c \<Rightarrow> release_nios (Some (vcc_input c)) (Some (vcc_output c)) w)
                (concat (map (vc_table t) [0..<ATMSW_VC_HASH_SIZE])) w
      in (True, w))"

text \<open>The saved configuration: one line per VP, then one per VC.\<close>

datatype atmsw_line =
    Create_Vpc string u32 string u32
  | Create_Vcc string u32 u32 string u32 u32

definition atmsw_save_config :: "atmsw_table \<Rightarrow> 'o net \<Rightarrow> atmsw_line list" where
  "atmsw_save_config t w =
     (let name = (\<lambda>p. nio_name (net_nio w p)) in
      concat (map (\<lambda>i. case vp_conns t i of None \<Rightarrow> []
          | Some c \<Rightarrow> [Create_Vpc (name (vp_input c)) (vp_vpi_in c) (name (vp_output c)) (vp_vpi_out c)])
        (concat (map (vp_table t) [0..<ATMSW_VP_HASH_SIZE]))) @
      concat (map (\<lambda>i. case vc_conns t i of None \<Rightarrow> []
          | Some c \<Rightarrow> [Create_Vcc (name (vcc_input c)) (vcc_vpi_in c) (vcc_vci_in c)
                        (name (vcc_output c)) (vcc_vpi_out c) (vcc_vci_out c)])
        (concat (map (vc_table t) [0..<ATMSW_VC_HASH_SIZE]))))"

definition atmsw_cfg_create_vpc ::
  "nat option \<Rightarrow> bool \<Rightarrow> nat \<Rightarrow> atmsw_table \<Rightarrow> string list \<Rightarrow> 'o net \<Rightarrow> int \<times> atmsw_table \<times> 'o net" where
  "atmsw_cfg_create_vpc cell rxl_ok self t tokens w =
     (if length tokens \<noteq> 5 then (-1, t, w)
      else atmsw_create_vpc cell rxl_ok self t (Some (tokens ! 1)) (word_of_int (atoi (tokens ! 2)))
             (Some (tokens ! 3)) (word_of_int (atoi (tokens ! 4))) w)"

definition atmsw_cfg_create_vcc ::
  "nat option \<Rightarrow> bool \<Rightarrow> nat \<Rightarrow> atmsw_table \<Rightarrow> string list \<Rightarrow> 'o net \<Rightarrow> int \<times> atmsw_table \<times> 'o net" where
  "atmsw_cfg_create_vcc cell rxl_ok self t tokens w =
     (if length tokens \<noteq> 7 then (-1, t, w)
      else atmsw_create_vcc cell rxl_ok self t (Some (tokens ! 1)) (word_of_int (atoi (tokens ! 2)))
             (word_of_int (atoi (tokens ! 3))) (Some (tokens ! 4)) (word_of_int (atoi (tokens ! 5)))
             (word_of_int (atoi (tokens ! 6))) w)"

section \<open>Switching a cell\<close>

lemma atm_masks:
  "ATM_HDR_VPI_MASK = push_bit 20 (mask 12)" "ATM_HDR_VCI_MASK = push_bit 4 (mask 16)"
  "ATM_HDR_VPI_MASK OR ATM_HDR_VCI_MASK = push_bit 4 (mask 28)"
  by (simp_all add: ATM_HDR_VPI_MASK_def ATM_HDR_VCI_MASK_def mask_eq_exp_minus_1)

lemma bit_cell_fields [word_bits]:
  "bit (cell_vpi cell) n \<longleftrightarrow> n < 12 \<and> bit (m_ntoh32 cell 0) (n + 20)"
  "bit (cell_vci cell) n \<longleftrightarrow> n < 16 \<and> bit (m_ntoh32 cell 0) (n + 4)"
  unfolding cell_vpi_def cell_vci_def atm_masks ATM_HDR_VPI_SHIFT_def ATM_HDR_VCI_SHIFT_def
  by (auto simp: bit_and_iff bit_drop_bit_eq bit_push_bit_iff bit_mask_iff add.commute)

text \<open>The parts of a cell: its four header bytes, its HEC byte, its payload.\<close>

lemma insert_hec_parts:
  assumes "5 \<le> length cell"
  shows "length (atm_insert_hec (m_hton32 cell 0 hdr)) = length cell"
    and "m_ntoh32 (atm_insert_hec (m_hton32 cell 0 hdr)) 0 = hdr"
    and "drop 5 (atm_insert_hec (m_hton32 cell 0 hdr)) = drop 5 cell"
    and "atm_insert_hec (m_hton32 cell 0 hdr) ! 4 = atm_compute_hec (atm_insert_hec (m_hton32 cell 0 hdr))"
proof -
  let ?c = "m_hton32 cell 0 hdr"
  have len: "length ?c = length cell" using assms by (simp add: length_m_hton)
  have hdr: "m_ntoh32 ?c 0 = hdr" using assms by (simp add: m_ntoh32_hton32)
  show "length (atm_insert_hec ?c) = length cell" using len by (simp add: atm_insert_hec_def)
  have "m_ntoh32 (?c[4 := x]) 0 = m_ntoh32 ?c 0" for x by (simp add: m_ntoh32_def)
  then show "m_ntoh32 (atm_insert_hec ?c) 0 = hdr" using hdr by (simp add: atm_insert_hec_def)
  have "drop 5 ?c = drop 5 cell" using assms by (simp add: m_hton32_def drop_memcpy_at length_hton)
  then show "drop 5 (atm_insert_hec ?c) = drop 5 cell" by (simp add: atm_insert_hec_def)
  have "take 4 (?c[4 := x]) = take 4 ?c" for x by simp
  then show "atm_insert_hec ?c ! 4 = atm_compute_hec (atm_insert_hec ?c)"
    using assms len by (simp add: atm_insert_hec_def atm_compute_hec_def)
qed

lemma atmsw_vp_switch_cell:
  assumes "5 \<le> length cell"
  shows "length (fst (atmsw_vp_switch vpc cell)) = length cell"
    and "unat (vp_vpi_out vpc) < 2 ^ 12 \<Longrightarrow> cell_vpi (fst (atmsw_vp_switch vpc cell)) = vp_vpi_out vpc"
    and "unat (vp_vpi_out vpc) < 2 ^ 12 \<Longrightarrow> take_bit 20 (m_ntoh32 (fst (atmsw_vp_switch vpc cell)) 0) = take_bit 20 (m_ntoh32 cell 0)"
    and "drop 5 (fst (atmsw_vp_switch vpc cell)) = drop 5 cell"
    and "fst (atmsw_vp_switch vpc cell) ! 4 = crc8_serial (take 4 (fst (atmsw_vp_switch vpc cell))) XOR 0x55"
proof -
  let ?hdr = "m_ntoh32 cell 0 AND NOT ATM_HDR_VPI_MASK OR push_bit ATM_HDR_VPI_SHIFT (vp_vpi_out vpc)"
  have c: "fst (atmsw_vp_switch vpc cell) = atm_insert_hec (m_hton32 cell 0 ?hdr)"
    by (simp add: atmsw_vp_switch_def Let_def)
  note parts = insert_hec_parts [OF assms, of ?hdr]
  note hdr = parts(2) [folded c]
  show "length (fst (atmsw_vp_switch vpc cell)) = length cell"
    "drop 5 (fst (atmsw_vp_switch vpc cell)) = drop 5 cell"
    unfolding c by (rule parts)+
  show "fst (atmsw_vp_switch vpc cell) ! 4 = crc8_serial (take 4 (fst (atmsw_vp_switch vpc cell))) XOR 0x55"
    unfolding c parts(4) atm_compute_hec_serial ..
  show "cell_vpi (fst (atmsw_vp_switch vpc cell)) = vp_vpi_out vpc" if "unat (vp_vpi_out vpc) < 2 ^ 12"
    by (rule bit_word_eqI)
       (auto simp: bit_cell_fields hdr atm_masks ATM_HDR_VPI_SHIFT_def bit_or_iff bit_and_iff bit_not_iff
         bit_push_bit_iff bit_mask_iff dest: bit_less_pow2 [OF that])
  show "take_bit 20 (m_ntoh32 (fst (atmsw_vp_switch vpc cell)) 0) = take_bit 20 (m_ntoh32 cell 0)"
    by (rule bit_word_eqI)
       (auto simp: hdr atm_masks ATM_HDR_VPI_SHIFT_def bit_take_bit_iff bit_or_iff bit_and_iff bit_not_iff
         bit_push_bit_iff bit_mask_iff)
qed

lemma atmsw_vc_switch_cell:
  assumes "5 \<le> length cell"
  shows "length (fst (atmsw_vc_switch vcc cell)) = length cell"
    and "unat (vcc_vpi_out vcc) < 2 ^ 12 \<Longrightarrow> unat (vcc_vci_out vcc) < 2 ^ 16 \<Longrightarrow>
      cell_vpi (fst (atmsw_vc_switch vcc cell)) = vcc_vpi_out vcc \<and>
      cell_vci (fst (atmsw_vc_switch vcc cell)) = vcc_vci_out vcc \<and>
      take_bit 4 (m_ntoh32 (fst (atmsw_vc_switch vcc cell)) 0) = take_bit 4 (m_ntoh32 cell 0)"
    and "drop 5 (fst (atmsw_vc_switch vcc cell)) = drop 5 cell"
    and "fst (atmsw_vc_switch vcc cell) ! 4 = crc8_serial (take 4 (fst (atmsw_vc_switch vcc cell))) XOR 0x55"
proof -
  let ?hdr = "(m_ntoh32 cell 0 AND NOT (ATM_HDR_VPI_MASK OR ATM_HDR_VCI_MASK) OR
    push_bit ATM_HDR_VPI_SHIFT (vcc_vpi_out vcc)) OR push_bit ATM_HDR_VCI_SHIFT (vcc_vci_out vcc)"
  have c: "fst (atmsw_vc_switch vcc cell) = atm_insert_hec (m_hton32 cell 0 ?hdr)"
    by (simp only: atmsw_vc_switch_def Let_def fst_conv)
  note parts = insert_hec_parts [OF assms, of ?hdr]
  note hdr = parts(2) [folded c]
  show "length (fst (atmsw_vc_switch vcc cell)) = length cell"
    "drop 5 (fst (atmsw_vc_switch vcc cell)) = drop 5 cell"
    unfolding c by (rule parts)+
  show "fst (atmsw_vc_switch vcc cell) ! 4 = crc8_serial (take 4 (fst (atmsw_vc_switch vcc cell))) XOR 0x55"
    unfolding c parts(4) atm_compute_hec_serial ..
  assume v: "unat (vcc_vpi_out vcc) < 2 ^ 12" "unat (vcc_vci_out vcc) < 2 ^ 16"
  note small = bit_less_pow2 [OF v(1)] bit_less_pow2 [OF v(2)]
  note bits = bit_cell_fields hdr atm_masks ATM_HDR_VPI_SHIFT_def ATM_HDR_VCI_SHIFT_def
    bit_take_bit_iff bit_or_iff bit_and_iff bit_not_iff bit_push_bit_iff bit_mask_iff
  have "cell_vpi (fst (atmsw_vc_switch vcc cell)) = vcc_vpi_out vcc"
    by (rule bit_word_eqI) (auto simp: bits dest: small)
  moreover have "cell_vci (fst (atmsw_vc_switch vcc cell)) = vcc_vci_out vcc"
    by (rule bit_word_eqI) (auto simp: bits dest: small)
  moreover have "take_bit 4 (m_ntoh32 (fst (atmsw_vc_switch vcc cell)) 0) = take_bit 4 (m_ntoh32 cell 0)"
    by (rule bit_word_eqI) (auto simp: bits)
  ultimately show "cell_vpi (fst (atmsw_vc_switch vcc cell)) = vcc_vpi_out vcc \<and>
      cell_vci (fst (atmsw_vc_switch vcc cell)) = vcc_vci_out vcc \<and>
      take_bit 4 (m_ntoh32 (fst (atmsw_vc_switch vcc cell)) 0) = take_bit 4 (m_ntoh32 cell 0)" by blast
qed


section \<open>The tables implement the maps of their connections\<close>

type_synonym vp_map = "nat \<times> u32 \<rightharpoonup> nat \<times> u32"
type_synonym vc_map = "nat \<times> u32 \<times> u32 \<rightharpoonup> nat \<times> u32 \<times> u32"

definition atm_vps :: "atmsw_table \<Rightarrow> vp_map" where
  "atm_vps t = vp.amap (\<lambda>c. (vp_output c, vp_vpi_out c)) (vp_table t) (vp_conns t)"

definition atm_vcs :: "atmsw_table \<Rightarrow> vc_map" where
  "atm_vcs t = vcc.amap (\<lambda>c. (vcc_output c, vcc_vpi_out c, vcc_vci_out c)) (vc_table t) (vc_conns t)"

definition atm_inv :: "nat \<Rightarrow> atmsw_table \<Rightarrow> bool" where
  "atm_inv n t \<longleftrightarrow> vp.winv n (vp_table t) (vp_conns t) \<and> vcc.winv n (vc_table t) (vc_conns t)"

lemma atm_inv_Suc: "atm_inv n t \<Longrightarrow> atm_inv (Suc n) t"
  by (simp add: atm_inv_def vp.winv_Suc vcc.winv_Suc)

lemma atm_inv_tables:
  assumes "atm_inv n t"
  shows "vp.inv (vp_table t) (vp_conns t)" "vcc.inv (vc_table t) (vc_conns t)"
  using assms vp.winv_inv vcc.winv_inv unfolding atm_inv_def by blast+

lemma atm_lookups:
  assumes "atm_inv n t"
  shows "atm_vps t (p, vpi) = None \<longleftrightarrow> atmsw_vp_lookup (vp_table t) (vp_conns t) p vpi = None"
    and "atm_vcs t (p, vpi, vci) = None \<longleftrightarrow> atmsw_vc_lookup (vc_table t) (vc_conns t) p vpi vci = None"
  using vp.amap_None [OF atm_inv_tables(1) [OF assms], of "\<lambda>c. (vp_output c, vp_vpi_out c)" "(p, vpi)"]
    vcc.amap_None [OF atm_inv_tables(2) [OF assms],
      of "\<lambda>c. (vcc_output c, vcc_vpi_out c, vcc_vci_out c)" "(p, vpi, vci)"]
  by (simp_all add: atm_vps_def atm_vcs_def)

lemma atm_vps_SomeD:
  assumes "atm_inv n t" "atm_vps t (p, vpi) = Some (q, vpo)"
  obtains i c where "atmsw_vp_lookup (vp_table t) (vp_conns t) p vpi = Some i" "vp_conns t i = Some c"
    "vp_key c = (p, vpi)" "vp_output c = q" "vp_vpi_out c = vpo"
proof -
  have inv: "vp.inv (vp_table t) (vp_conns t)" using atm_inv_tables(1) [OF assms(1)] .
  obtain i where i: "atmsw_vp_lookup (vp_table t) (vp_conns t) p vpi = Some i"
    using assms(2) atm_lookups(1) [OF assms(1), of p vpi] by auto
  obtain c where c: "vp_conns t i = Some c" "vp_key c = (p, vpi)"
    using vp.lookup_SomeD [OF inv, of "(p, vpi)" i] i by auto
  show ?thesis
    using that [OF i c] assms(2) i c by (simp add: atm_vps_def vp.amap_def)
qed

lemma atm_vcs_SomeD:
  assumes "atm_inv n t" "atm_vcs t (p, vpi, vci) = Some (q, vpo, vco)"
  obtains i c where "atmsw_vc_lookup (vc_table t) (vc_conns t) p vpi vci = Some i" "vc_conns t i = Some c"
    "vcc_key c = (p, vpi, vci)" "vcc_output c = q" "vcc_vpi_out c = vpo" "vcc_vci_out c = vco"
proof -
  have inv: "vcc.inv (vc_table t) (vc_conns t)" using atm_inv_tables(2) [OF assms(1)] .
  obtain i where i: "atmsw_vc_lookup (vc_table t) (vc_conns t) p vpi vci = Some i"
    using assms(2) atm_lookups(2) [OF assms(1), of p vpi vci] by auto
  obtain c where c: "vc_conns t i = Some c" "vcc_key c = (p, vpi, vci)"
    using vcc.lookup_SomeD [OF inv, of "(p, vpi, vci)" i] i by auto
  show ?thesis
    using that [OF i c] assms(2) i c by (simp add: atm_vcs_def vcc.amap_def)
qed

text \<open>
  C32: what the ATM switch does with a 53-byte cell. A VP connection for its VPI wins: the
  cell leaves on the connection's output with the new VPI, its VCI, PTI and CLP kept. Otherwise a VC
  connection for its VPI and VCI applies, and both are replaced. In both cases the payload is
  untouched and the HEC byte is the CRC-8 of the new header plus the coset leader. A cell without
  connection is counted as dropped and sent nowhere.
\<close>

theorem atmsw_switches_cell:
  assumes "atm_inv n t" "length cell = ATM_CELL_SIZE" "\<And>q. plain_nio os w q"
    "\<And>q vpo. atm_vps t (p, cell_vpi cell) = Some (q, vpo) \<Longrightarrow> unat vpo < 2 ^ 12"
    "\<And>q vpo vco. atm_vcs t (p, cell_vpi cell, cell_vci cell) = Some (q, vpo, vco) \<Longrightarrow>
      unat vpo < 2 ^ 12 \<and> unat vco < 2 ^ 16"
  shows "case atmsw_recv_cell os t p cell w of (res, t', w') \<Rightarrow>
    (case atm_vps t (p, cell_vpi cell) of
       Some (q, vpo) \<Rightarrow> res = 0 \<and> (\<exists>out. net_sent w' = net_sent w @ [(q, out)] \<and>
         length out = ATM_CELL_SIZE \<and> cell_vpi out = vpo \<and>
         take_bit 20 (m_ntoh32 out 0) = take_bit 20 (m_ntoh32 cell 0) \<and>
         drop 5 out = drop 5 cell \<and> out ! 4 = crc8_serial (take 4 out) XOR 0x55)
     | None \<Rightarrow>
       (case atm_vcs t (p, cell_vpi cell, cell_vci cell) of
          Some (q, vpo, vco) \<Rightarrow> res = 0 \<and> (\<exists>out. net_sent w' = net_sent w @ [(q, out)] \<and>
            length out = ATM_CELL_SIZE \<and> cell_vpi out = vpo \<and> cell_vci out = vco \<and>
            take_bit 4 (m_ntoh32 out 0) = take_bit 4 (m_ntoh32 cell 0) \<and>
            drop 5 out = drop 5 cell \<and> out ! 4 = crc8_serial (take 4 out) XOR 0x55)
        | None \<Rightarrow> res = -1 \<and> net_sent w' = net_sent w \<and>
            atmsw_cell_drop t' = atmsw_cell_drop t + 1))"
proof -
  have len: "5 \<le> length cell" using assms(2) by (simp add: ATM_CELL_SIZE_def ATM_HDR_SIZE_def)
  show ?thesis
  proof (cases "atm_vps t (p, cell_vpi cell)")
    case (Some v)
    then obtain q vpo where v: "atm_vps t (p, cell_vpi cell) = Some (q, vpo)" by (cases v) auto
    obtain i c where c: "atmsw_vp_lookup (vp_table t) (vp_conns t) p (cell_vpi cell) = Some i"
      "vp_conns t i = Some c" "vp_output c = q" "vp_vpi_out c = vpo"
      by (rule atm_vps_SomeD [OF assms(1) v]) blast
    note sw = atmsw_vp_switch_cell [OF len, of c]
    obtain cell' c' where s: "atmsw_vp_switch c cell = (cell', c')" by fastforce
    obtain w' where w': "netio_send os (Some q) cell' w = (int (length cell'), w')"
      "net_sent w' = net_sent w @ [(q, cell')]"
      by (rule netio_send_plain [OF assms(3)]) blast
    have l: "length cell' = ATM_CELL_SIZE" using sw(1) s assms(2) by simp
    have "atmsw_recv_cell os t p cell w = (0, t\<lparr>vp_conns := (vp_conns t)(i \<mapsto> c')\<rparr>, w')"
      using c s w' l assms(2) by (simp add: atmsw_recv_cell_def atmsw_handle_cell_def)
    then show ?thesis
      using v w'(2) sw(2-5) s c(4) l assms(4) [OF v] by simp
  next
    case None
    note novp = None
    then have vp: "atmsw_vp_lookup (vp_table t) (vp_conns t) p (cell_vpi cell) = None"
      using atm_lookups(1) [OF assms(1)] by simp
    show ?thesis
    proof (cases "atm_vcs t (p, cell_vpi cell, cell_vci cell)")
      case (Some v)
      then obtain q vpo vco where v: "atm_vcs t (p, cell_vpi cell, cell_vci cell) = Some (q, vpo, vco)"
        by (cases v) auto
      obtain i c where c: "atmsw_vc_lookup (vc_table t) (vc_conns t) p (cell_vpi cell) (cell_vci cell) = Some i"
        "vc_conns t i = Some c" "vcc_output c = q" "vcc_vpi_out c = vpo" "vcc_vci_out c = vco"
        by (rule atm_vcs_SomeD [OF assms(1) v]) blast
      note sw = atmsw_vc_switch_cell [OF len, of c]
      obtain cell' c' where s: "atmsw_vc_switch c cell = (cell', c')" by fastforce
      obtain w' where w': "netio_send os (Some q) cell' w = (int (length cell'), w')"
        "net_sent w' = net_sent w @ [(q, cell')]"
        by (rule netio_send_plain [OF assms(3)]) blast
      have l: "length cell' = ATM_CELL_SIZE" using sw(1) s assms(2) by simp
      have "atmsw_recv_cell os t p cell w = (0, t\<lparr>vc_conns := (vc_conns t)(i \<mapsto> c')\<rparr>, w')"
        using c s w' l assms(2) vp by (simp add: atmsw_recv_cell_def atmsw_handle_cell_def)
      then show ?thesis
        using v novp w'(2) sw(2-4) s c(4,5) l assms(5) [OF v] by simp
    next
      case None
      then have "atmsw_vc_lookup (vc_table t) (vc_conns t) p (cell_vpi cell) (cell_vci cell) = None"
        using atm_lookups(2) [OF assms(1)] by simp
      then have "atmsw_recv_cell os t p cell w = (-1, t\<lparr>atmsw_cell_drop := atmsw_cell_drop t + 1\<rparr>, w)"
        using assms(2) vp by (simp add: atmsw_recv_cell_def atmsw_handle_cell_def)
      then show ?thesis using None novp by simp
    qed
  qed
qed

section \<open>Sequences of requests\<close>

datatype atm_op =
    Atm_Create_Vpc bool "string option" u32 "string option" u32
  | Atm_Delete_Vpc "string option" u32 "string option" u32
  | Atm_Create_Vcc bool "string option" u32 u32 "string option" u32 u32
  | Atm_Delete_Vcc "string option" u32 u32 "string option" u32 u32

fun atm_step :: "nat \<Rightarrow> atm_op \<Rightarrow> nat \<times> atmsw_table \<times> 'o net \<Rightarrow> nat \<times> atmsw_table \<times> 'o net" where
  "atm_step self (Atm_Create_Vpc ok ni vpi no vpo) (n, t, w) =
     (Suc n, snd (atmsw_create_vpc (Some n) ok self t ni vpi no vpo w))"
| "atm_step self (Atm_Delete_Vpc ni vpi no vpo) (n, t, w) =
     (Suc n, snd (atmsw_delete_vpc t ni vpi no vpo w))"
| "atm_step self (Atm_Create_Vcc ok ni vpi vci no vpo vco) (n, t, w) =
     (Suc n, snd (atmsw_create_vcc (Some n) ok self t ni vpi vci no vpo vco w))"
| "atm_step self (Atm_Delete_Vcc ni vpi vci no vpo vco) (n, t, w) =
     (Suc n, snd (atmsw_delete_vcc t ni vpi vci no vpo vco w))"

fun atm_spec :: "(string option \<Rightarrow> nat option) \<Rightarrow> atm_op \<Rightarrow> vp_map \<times> vc_map \<Rightarrow> vp_map \<times> vc_map" where
  "atm_spec ptr (Atm_Create_Vpc ok ni vpi no vpo) (vps, vcs) =
     (case (ptr ni, ptr no) of
        (Some p, Some q) \<Rightarrow>
          if ok \<and> vps (p, vpi) = None then (vps((p, vpi) \<mapsto> (q, vpo)), vcs) else (vps, vcs)
      | _ \<Rightarrow> (vps, vcs))"
| "atm_spec ptr (Atm_Delete_Vpc ni vpi no vpo) (vps, vcs) =
     (case (ptr ni, ptr no) of
        (Some p, Some q) \<Rightarrow>
          if vps (p, vpi) = Some (q, vpo) then (vps((p, vpi) := None), vcs) else (vps, vcs)
      | _ \<Rightarrow> (vps, vcs))"
| "atm_spec ptr (Atm_Create_Vcc ok ni vpi vci no vpo vco) (vps, vcs) =
     (case (ptr ni, ptr no) of
        (Some p, Some q) \<Rightarrow>
          if ok \<and> vps (p, vpi) = None \<and> vcs (p, vpi, vci) = None
          then (vps, vcs((p, vpi, vci) \<mapsto> (q, vpo, vco))) else (vps, vcs)
      | _ \<Rightarrow> (vps, vcs))"
| "atm_spec ptr (Atm_Delete_Vcc ni vpi vci no vpo vco) (vps, vcs) =
     (case (ptr ni, ptr no) of
        (Some p, Some q) \<Rightarrow>
          if vcs (p, vpi, vci) = Some (q, vpo, vco) then (vps, vcs((p, vpi, vci) := None)) else (vps, vcs)
      | _ \<Rightarrow> (vps, vcs))"

definition atm_abs :: "atmsw_table \<Rightarrow> vp_map \<times> vc_map" where
  "atm_abs t = (atm_vps t, atm_vcs t)"

text \<open>What one request leaves: the invariant, the names, the maps the specification gives.\<close>

definition atm_refines :: "nat \<Rightarrow> atmsw_table \<Rightarrow> 'o net \<Rightarrow> vp_map \<times> vc_map \<Rightarrow> atmsw_table \<times> 'o net \<Rightarrow> bool" where
  "atm_refines n t w m r \<longleftrightarrow> (case r of (t', w') \<Rightarrow> atm_inv n t' \<and> net_inv w' \<and> nio_ptr w' = nio_ptr w \<and>
     filters_of w' = filters_of w \<and> atm_abs t' = m)"

lemma refines_release:
  assumes "atm_inv n t" "net_inv w2" "nio_ptr w2 = nio_ptr w" "net_nio w2 = net_nio w"
  shows "atm_refines n t w (atm_abs t) (t, release_nios inp outp w2)"
    and "atm_refines (Suc n) t w (atm_abs t) (t, release_nios inp outp w2)"
  using release_nios_spec [OF assms(2)] assms atm_inv_Suc [OF assms(1)]
  by (simp_all add: atm_refines_def filters_of_def fun_eq_iff)

lemma add_vp:
  assumes inv: "atm_inv n t" and new: "atm_vps t (p, vpi) = None"
    and c: "c = \<lparr>vp_input = p, vp_output = q, vp_vpi_in = vpi, vp_vpi_out = vpo, vp_cell_cnt = 0\<rparr>"
    and t': "t' = t\<lparr>vp_table := cells_link (atmsw_vpc_hash vpi) n (vp_table t), vp_conns := (vp_conns t)(n \<mapsto> c)\<rparr>"
  shows "atm_inv (Suc n) t'" and "atm_abs t' = ((atm_vps t)((p, vpi) \<mapsto> (q, vpo)), atm_vcs t)"
proof -
  have w: "vp.winv n (vp_table t) (vp_conns t)" "vcc.winv n (vc_table t) (vc_conns t)"
    using inv unfolding atm_inv_def by blast+
  have k: "vp_key c = (p, vpi)" by (simp add: c vp_key_def)
  have none: "atmsw_vp_lookup (vp_table t) (vp_conns t) p vpi = None"
    using new atm_lookups(1) [OF inv] by simp
  note a = vp.add_amap [OF w(1), of c, unfolded k prod.case, OF none]
  show "atm_inv (Suc n) t'" using a(1) vcc.winv_Suc [OF w(2)] by (simp add: t' atm_inv_def)
  show "atm_abs t' = ((atm_vps t)((p, vpi) \<mapsto> (q, vpo)), atm_vcs t)"
    using a(2) [of "\<lambda>c. (vp_output c, vp_vpi_out c)"]
    by (simp add: t' atm_abs_def atm_vps_def atm_vcs_def c)
qed

lemma add_vc:
  assumes inv: "atm_inv n t" and new: "atm_vcs t (p, vpi, vci) = None"
    and c: "c = \<lparr>vcc_input = p, vcc_output = q, vcc_vpi_in = vpi, vcc_vci_in = vci,
      vcc_vpi_out = vpo, vcc_vci_out = vco, vcc_cell_cnt = 0\<rparr>"
    and t': "t' = t\<lparr>vc_table := cells_link (atmsw_vcc_hash vpi vci) n (vc_table t), vc_conns := (vc_conns t)(n \<mapsto> c)\<rparr>"
  shows "atm_inv (Suc n) t'" and "atm_abs t' = (atm_vps t, (atm_vcs t)((p, vpi, vci) \<mapsto> (q, vpo, vco)))"
proof -
  have w: "vp.winv n (vp_table t) (vp_conns t)" "vcc.winv n (vc_table t) (vc_conns t)"
    using inv unfolding atm_inv_def by blast+
  have k: "vcc_key c = (p, vpi, vci)" by (simp add: c vcc_key_def)
  have none: "atmsw_vc_lookup (vc_table t) (vc_conns t) p vpi vci = None"
    using new atm_lookups(2) [OF inv] by simp
  note a = vcc.add_amap [OF w(2), of c, unfolded k prod.case, OF none]
  show "atm_inv (Suc n) t'" using a(1) vp.winv_Suc [OF w(1)] by (simp add: t' atm_inv_def)
  show "atm_abs t' = (atm_vps t, (atm_vcs t)((p, vpi, vci) \<mapsto> (q, vpo, vco)))"
    using a(2) [of "\<lambda>c. (vcc_output c, vcc_vpi_out c, vcc_vci_out c)"]
    by (simp add: t' atm_abs_def atm_vps_def atm_vcs_def c)
qed

lemma remove_vp:
  assumes inv: "atm_inv n t" and i: "atmsw_vp_lookup (vp_table t) (vp_conns t) p vpi = Some i"
    and t': "t' = t\<lparr>vp_table := cells_unlink (atmsw_vpc_hash vpi) i (vp_table t), vp_conns := (vp_conns t)(i := None)\<rparr>"
  shows "atm_inv (Suc n) t'" and "atm_abs t' = ((atm_vps t)((p, vpi) := None), atm_vcs t)"
proof -
  have w: "vp.winv n (vp_table t) (vp_conns t)" "vcc.winv n (vc_table t) (vc_conns t)"
    using inv unfolding atm_inv_def by blast+
  note r = vp.remove_amap [OF w(1), of "(p, vpi)", unfolded prod.case, OF i]
  show "atm_inv (Suc n) t'" "atm_abs t' = ((atm_vps t)((p, vpi) := None), atm_vcs t)"
    using vp.winv_Suc [OF r(1)] r(2) [of "\<lambda>c. (vp_output c, vp_vpi_out c)"] vcc.winv_Suc [OF w(2)]
    by (simp_all add: t' atm_inv_def atm_abs_def atm_vps_def atm_vcs_def)
qed

lemma remove_vc:
  assumes inv: "atm_inv n t" and i: "atmsw_vc_lookup (vc_table t) (vc_conns t) p vpi vci = Some i"
    and t': "t' = t\<lparr>vc_table := cells_unlink (atmsw_vcc_hash vpi vci) i (vc_table t), vc_conns := (vc_conns t)(i := None)\<rparr>"
  shows "atm_inv (Suc n) t'" and "atm_abs t' = (atm_vps t, (atm_vcs t)((p, vpi, vci) := None))"
proof -
  have w: "vp.winv n (vp_table t) (vp_conns t)" "vcc.winv n (vc_table t) (vc_conns t)"
    using inv unfolding atm_inv_def by blast+
  note r = vcc.remove_amap [OF w(2), of "(p, vpi, vci)", unfolded prod.case, OF i]
  show "atm_inv (Suc n) t'" "atm_abs t' = (atm_vps t, (atm_vcs t)((p, vpi, vci) := None))"
    using vcc.winv_Suc [OF r(1)] r(2) [of "\<lambda>c. (vcc_output c, vcc_vpi_out c, vcc_vci_out c)"] vp.winv_Suc [OF w(1)]
    by (simp_all add: t' atm_inv_def atm_abs_def atm_vps_def atm_vcs_def)
qed

lemma create_vpc_refines:
  assumes inv: "atm_inv n t" "net_inv w"
  shows "atm_refines (Suc n) t w (atm_spec (nio_ptr w) (Atm_Create_Vpc ok ni vpi no vpo) (atm_abs t))
    (snd (atmsw_create_vpc (Some n) ok self t ni vpi no vpo w))"
proof -
  obtain w1 w2 where acq: "netio_acquire ni w = (nio_ptr w ni, w1)" "netio_acquire no w1 = (nio_ptr w no, w2)"
    and w2: "net_inv w2" "nio_ptr w2 = nio_ptr w" "net_nio w2 = net_nio w"
    by (rule acquire_pair [OF inv(2)]) blast
  note rel = refines_release(2) [OF inv(1) w2]
  show ?thesis
  proof (cases "\<exists>p q. nio_ptr w ni = Some p \<and> nio_ptr w no = Some q \<and> atm_vps t (p, vpi) = None")
    case False
    then show ?thesis
      using rel by (auto simp: atmsw_create_vpc_def acq atm_abs_def atm_lookups [OF inv(1)] split: option.splits)
  next
    case True
    then obtain p q where pq: "nio_ptr w ni = Some p" "nio_ptr w no = Some q" "atm_vps t (p, vpi) = None" by blast
    define w3 where "w3 = snd (netio_rxl_add ok p self w2)"
    have add: "netio_rxl_add ok p self w2 = (if ok then 0 else -1, w3)" by (simp add: prod_eq_iff w3_def)
    have w3: "net_inv w3" "nio_ptr w3 = nio_ptr w" "net_nio w3 = net_nio w"
      using w2 by (simp_all add: w3_def)
    note rel = refines_release(2) [OF inv(1) w3] and new = add_vp [OF inv(1) pq(3) refl refl, of q vpo]
    have "filters_of w3 = filters_of w" using w3 by (simp add: filters_of_def fun_eq_iff)
    then show ?thesis
      using pq rel new w3 atm_lookups(1) [OF inv(1), of p vpi]
      by (simp add: atmsw_create_vpc_def acq add atm_refines_def) (simp add: atm_abs_def)
  qed
qed

lemma create_vcc_refines:
  assumes inv: "atm_inv n t" "net_inv w"
  shows "atm_refines (Suc n) t w (atm_spec (nio_ptr w) (Atm_Create_Vcc ok ni vpi vci no vpo vco) (atm_abs t))
    (snd (atmsw_create_vcc (Some n) ok self t ni vpi vci no vpo vco w))"
proof -
  obtain w1 w2 where acq: "netio_acquire ni w = (nio_ptr w ni, w1)" "netio_acquire no w1 = (nio_ptr w no, w2)"
    and w2: "net_inv w2" "nio_ptr w2 = nio_ptr w" "net_nio w2 = net_nio w"
    by (rule acquire_pair [OF inv(2)]) blast
  note rel = refines_release(2) [OF inv(1) w2]
  show ?thesis
  proof (cases "\<exists>p q. nio_ptr w ni = Some p \<and> nio_ptr w no = Some q \<and> atm_vps t (p, vpi) = None \<and>
      atm_vcs t (p, vpi, vci) = None")
    case False
    then show ?thesis
      using rel by (auto simp: atmsw_create_vcc_def acq atm_abs_def Let_def atm_lookups [OF inv(1)] split: option.splits)
  next
    case True
    then obtain p q where pq: "nio_ptr w ni = Some p" "nio_ptr w no = Some q" "atm_vps t (p, vpi) = None"
      "atm_vcs t (p, vpi, vci) = None" by blast
    define w3 where "w3 = snd (netio_rxl_add ok p self w2)"
    have add: "netio_rxl_add ok p self w2 = (if ok then 0 else -1, w3)" by (simp add: prod_eq_iff w3_def)
    have w3: "net_inv w3" "nio_ptr w3 = nio_ptr w" "net_nio w3 = net_nio w"
      using w2 by (simp_all add: w3_def)
    note rel = refines_release(2) [OF inv(1) w3] and new = add_vc [OF inv(1) pq(4) refl refl, of q vpo vco]
    have "filters_of w3 = filters_of w" using w3 by (simp add: filters_of_def fun_eq_iff)
    then show ?thesis
      using pq rel new w3 atm_lookups [OF inv(1), of p vpi]
      by (simp add: atmsw_create_vcc_def acq add atm_refines_def) (simp add: atm_abs_def)
  qed
qed

lemma delete_vpc_refines:
  assumes inv: "atm_inv n t" "net_inv w"
  shows "atm_refines (Suc n) t w (atm_spec (nio_ptr w) (Atm_Delete_Vpc ni vpi no vpo) (atm_abs t))
    (snd (atmsw_delete_vpc t ni vpi no vpo w))"
proof -
  have same: "atm_refines (Suc n) t w (atm_abs t) (t, w)"
    using inv atm_inv_Suc [OF inv(1)] by (simp add: atm_refines_def)
  show ?thesis
  proof (cases "\<exists>p q. nio_ptr w ni = Some p \<and> nio_ptr w no = Some q")
    case False
    then show ?thesis using same
      by (auto simp: atmsw_delete_vpc_def nio_ptr_def atm_abs_def split: option.splits)
  next
    case True
    then obtain p q where pq: "nio_ptr w ni = Some p" "nio_ptr w no = Some q" by blast
    let ?P = "\<lambda>c. vp_input c = p \<and> vp_output c = q \<and> vp_vpi_in c = vpi \<and> vp_vpi_out c = vpo"
    let ?i = "atmsw_vp_lookup (vp_table t) (vp_conns t) p vpi"
    note tbl = atm_inv_tables(1) [OF inv(1)]
    have look: "chain_lookup ?P (vp_conns t) (vp_table t (atmsw_vpc_hash vpi)) =
        (case ?i of None \<Rightarrow> None | Some i \<Rightarrow> if cell_sat ?P (vp_conns t) i then Some i else None)"
      using vp.strict_lookup [OF tbl, of ?P "(p, vpi)"] by (simp add: vp_key_def)
    have abs: "atm_vps t (p, vpi) = Some (q, vpo) \<longleftrightarrow> (\<exists>i. ?i = Some i \<and> cell_sat ?P (vp_conns t) i)"
    proof (cases ?i)
      case (Some i)
      obtain c where "vp_conns t i = Some c" "vp_key c = (p, vpi)"
        using vp.lookup_SomeD [OF tbl, of "(p, vpi)" i] Some by auto
      with Some show ?thesis by (auto simp: atm_vps_def vp.amap_def cell_sat_def vp_key_def)
    qed (simp add: atm_vps_def vp.amap_def)
    show ?thesis
    proof (cases "atm_vps t (p, vpi) = Some (q, vpo)")
      case False
      then show ?thesis using same pq look abs
        by (auto simp: atmsw_delete_vpc_def nio_ptr_def atm_abs_def split: option.splits)
    next
      case True
      then obtain i where i: "?i = Some i" "cell_sat ?P (vp_conns t) i" using abs by blast
      note new = remove_vp [OF inv(1) i(1) refl] and w = release_nios_spec [OF inv(2), of "Some p" "Some q"]
      have "filters_of (release_nios (Some p) (Some q) w) = filters_of w" by (simp add: filters_of_def fun_eq_iff)
      then show ?thesis
        using pq True i look new w by (simp add: atmsw_delete_vpc_def atm_refines_def flip: nio_ptr_def) (simp add: atm_abs_def)
    qed
  qed
qed

lemma delete_vcc_refines:
  assumes inv: "atm_inv n t" "net_inv w"
  shows "atm_refines (Suc n) t w (atm_spec (nio_ptr w) (Atm_Delete_Vcc ni vpi vci no vpo vco) (atm_abs t))
    (snd (atmsw_delete_vcc t ni vpi vci no vpo vco w))"
proof -
  have same: "atm_refines (Suc n) t w (atm_abs t) (t, w)"
    using inv atm_inv_Suc [OF inv(1)] by (simp add: atm_refines_def)
  let ?P = "\<lambda>p q c. vcc_input c = p \<and> vcc_output c = q \<and> vcc_vpi_in c = vpi \<and> vcc_vci_in c = vci \<and>
    vcc_vpi_out c = vpo \<and> vcc_vci_out c = vco"
  show ?thesis
  proof (cases "\<exists>p q. nio_ptr w ni = Some p \<and> nio_ptr w no = Some q")
    case False
    then have "chain_lookup (\<lambda>c. Some (vcc_input c) = nio_ptr w ni \<and> Some (vcc_output c) = nio_ptr w no \<and>
        vcc_vpi_in c = vpi \<and> vcc_vci_in c = vci \<and> vcc_vpi_out c = vpo \<and> vcc_vci_out c = vco)
        (vc_conns t) (vc_table t (atmsw_vcc_hash vpi vci)) = None"
      by (auto simp: chain_lookup_None cell_sat_iff)
    then show ?thesis using False same
      by (auto simp: atmsw_delete_vcc_def nio_ptr_def atm_abs_def Let_def split: option.splits)
  next
    case True
    then obtain p q where pq: "nio_ptr w ni = Some p" "nio_ptr w no = Some q" by blast
    let ?i = "atmsw_vc_lookup (vc_table t) (vc_conns t) p vpi vci"
    note tbl = atm_inv_tables(2) [OF inv(1)]
    have look: "chain_lookup (?P p q) (vc_conns t) (vc_table t (atmsw_vcc_hash vpi vci)) =
        (case ?i of None \<Rightarrow> None | Some i \<Rightarrow> if cell_sat (?P p q) (vc_conns t) i then Some i else None)"
      using vcc.strict_lookup [OF tbl, of "?P p q" "(p, vpi, vci)"] by (simp add: vcc_key_def)
    have abs: "atm_vcs t (p, vpi, vci) = Some (q, vpo, vco) \<longleftrightarrow> (\<exists>i. ?i = Some i \<and> cell_sat (?P p q) (vc_conns t) i)"
    proof (cases ?i)
      case (Some i)
      obtain c where "vc_conns t i = Some c" "vcc_key c = (p, vpi, vci)"
        using vcc.lookup_SomeD [OF tbl, of "(p, vpi, vci)" i] Some by auto
      with Some show ?thesis by (auto simp: atm_vcs_def vcc.amap_def cell_sat_def vcc_key_def)
    qed (simp add: atm_vcs_def vcc.amap_def)
    show ?thesis
    proof (cases "atm_vcs t (p, vpi, vci) = Some (q, vpo, vco)")
      case False
      then show ?thesis using same pq look abs
        by (auto simp: atmsw_delete_vcc_def nio_ptr_def atm_abs_def Let_def split: option.splits)
    next
      case True
      then obtain i where i: "?i = Some i" "cell_sat (?P p q) (vc_conns t) i" using abs by blast
      note new = remove_vc [OF inv(1) i(1) refl] and w = release_nios_spec [OF inv(2), of "Some p" "Some q"]
      have "filters_of (release_nios (Some p) (Some q) w) = filters_of w" by (simp add: filters_of_def fun_eq_iff)
      then show ?thesis
        using pq True i look new w by (simp add: atmsw_delete_vcc_def atm_refines_def Let_def flip: nio_ptr_def) (simp add: atm_abs_def)
    qed
  qed
qed

lemma atm_step_refines:
  assumes "atm_inv n t" "net_inv w"
  shows "fst (atm_step self op (n, t, w)) = Suc n"
    and "atm_refines (Suc n) t w (atm_spec (nio_ptr w) op (atm_abs t)) (snd (atm_step self op (n, t, w)))"
proof -
  show "fst (atm_step self op (n, t, w)) = Suc n" by (cases op) simp_all
  show "atm_refines (Suc n) t w (atm_spec (nio_ptr w) op (atm_abs t)) (snd (atm_step self op (n, t, w)))"
    using create_vpc_refines [OF assms] create_vcc_refines [OF assms]
      delete_vpc_refines [OF assms] delete_vcc_refines [OF assms]
    by (cases op) simp_all
qed

lemma atm_run_refines:
  assumes "atm_inv n t" "net_inv w" "fold (atm_step self) ops (n, t, w) = (n', t', w')"
  shows "n' = n + length ops \<and> atm_refines n' t w (fold (atm_spec (nio_ptr w)) ops (atm_abs t)) (t', w')"
  using assms
proof (induction ops arbitrary: n t w)
  case Nil
  then show ?case by (simp add: atm_refines_def)
next
  case (Cons op ops)
  obtain n1 t1 w1 where one: "atm_step self op (n, t, w) = (n1, t1, w1)" by (metis prod_cases3)
  then have r: "n1 = Suc n" "atm_inv n1 t1" "net_inv w1" "nio_ptr w1 = nio_ptr w" "filters_of w1 = filters_of w"
    "atm_abs t1 = atm_spec (nio_ptr w) op (atm_abs t)"
    using atm_step_refines [OF Cons.prems(1,2), where self = self and op = op] by (auto simp: atm_refines_def)
  then show ?case using Cons.IH [of n1 t1 w1] Cons.prems(3) one by (auto simp: atm_refines_def)
qed

definition atmsw_empty :: "string \<Rightarrow> atmsw_table" where
  "atmsw_empty name = \<lparr>atmsw_name = name, atmsw_cell_drop = 0, vp_table = (\<lambda>_. []), vc_table = (\<lambda>_. []),
     vp_conns = Map.empty, vc_conns = Map.empty\<rparr>"

lemma atmsw_empty_inv:
  "atm_inv 0 (atmsw_empty name)" "atm_abs (atmsw_empty name) = (Map.empty, Map.empty)"
proof -
  show "atm_inv 0 (atmsw_empty name)"
    by (simp add: atm_inv_def atmsw_empty_def vp.winv_def vcc.winv_def vp.inv_empty vcc.inv_empty)
  then have inv: "atm_inv 0 (atmsw_empty name)" .
  have "atm_vps (atmsw_empty name) (p, vpi) = None" "atm_vcs (atmsw_empty name) (p, vpi, vci) = None" for p vpi vci
    unfolding atm_lookups [OF inv] by (simp_all add: atmsw_empty_def atmsw_vp_lookup_def atmsw_vc_lookup_def chain_lookup_def)
  then show "atm_abs (atmsw_empty name) = (Map.empty, Map.empty)"
    by (auto simp: atm_abs_def fun_eq_iff)
qed

text \<open>
  C33: the tables of an ATM switch implement the maps of its connections. After any sequence of
  creations and deletions of VP and VC connections, valid or not, the connections found are those
  the sequence leaves when each request is applied to two finite maps: a second connection for the same input is
  refused, a VC is refused where a VP switches its VPI, and a deletion needs all the fields to match.
\<close>

theorem atmsw_tables_refine_maps:
  assumes "net_inv w" "fold (atm_step self) ops (0, atmsw_empty name, w) = (n, t, w')"
  shows "(atm_vps t, atm_vcs t) = fold (atm_spec (nio_ptr w)) ops (Map.empty, Map.empty) \<and>
    atm_inv n t \<and> filters_of w' = filters_of w"
  using atm_run_refines [OF atmsw_empty_inv(1) assms] by (auto simp: atm_refines_def atmsw_empty_inv(2)) (auto simp: atm_abs_def)

definition sample_atm :: "nat \<times> atmsw_table \<times> pf_freqdrop_data net" where
  "sample_atm = fold (atm_step 9)
     [Atm_Create_Vcc True (Some ''a'') 1 100 (Some ''b'') 2 200,
      Atm_Create_Vpc True (Some ''a'') 5 (Some ''b'') 6] (0, atmsw_empty ''sw'', sample_net)"

theorem atmsw_tables_refine_maps_witness:
  "case sample_atm of (n, t, w') \<Rightarrow>
    (atm_vps t, atm_vcs t) = ([(0, 5) \<mapsto> (1, 6)], [(0, 1, 100) \<mapsto> (1, 2, 200)]) \<and> atm_inv n t"
proof -
  obtain n t w' where run: "sample_atm = (n, t, w')" by (metis prod_cases3)
  show ?thesis
    using atmsw_tables_refine_maps [OF sample_net_reg(1) run [unfolded sample_atm_def]] by (simp add: run)
qed

lemma sample_atm:
  obtains n t w where "sample_atm = (n, t, w)" "atm_inv n t" "atm_vps t = [(0, 5) \<mapsto> (1, 6)]"
    "atm_vcs t = [(0, 1, 100) \<mapsto> (1, 2, 200)]" "filters_of w = (\<lambda>_. (None, None))"
proof -
  obtain n t w where run: "sample_atm = (n, t, w)" by (metis prod_cases3)
  have f: "filters_of sample_net = (\<lambda>_. (None, None))"
    by (simp add: filters_of_def sample_net_def netio_create_def Let_def fun_eq_iff)
  note r = atm_run_refines [OF atmsw_empty_inv(1) sample_net_reg(1) run [unfolded sample_atm_def]]
  have "atm_abs t = ([(0, 5) \<mapsto> (1, 6)], [(0, 1, 100) \<mapsto> (1, 2, 200)])"
    using r by (simp add: atm_refines_def atmsw_empty_inv(2))
  then show ?thesis
    by (intro that [OF run]) (use r f in \<open>auto simp: atm_refines_def atm_abs_def\<close>)
qed

theorem atmsw_switches_cell_witness:
  "case sample_atm of (n, t, w) \<Rightarrow>
    (case atmsw_recv_cell (\<lambda>_ _ pkt. int (length pkt)) t 0 ([0x00, 0x10, 0x06, 0x45, 0] @ replicate 48 7) w of (res, t', w') \<Rightarrow>
       res = 0 \<and> (\<exists>out. net_sent w' = net_sent w @ [(1, out)] \<and> cell_vpi out = 2 \<and> cell_vci out = 200 \<and>
         drop 5 out = replicate 48 7))"
proof -
  obtain n t w where s: "sample_atm = (n, t, w)" "atm_inv n t" "atm_vps t = [(0, 5) \<mapsto> (1, 6)]"
    "atm_vcs t = [(0, 1, 100) \<mapsto> (1, 2, 200)]" "filters_of w = (\<lambda>_. (None, None))"
    by (rule sample_atm)
  let ?cell = "[0x00, 0x10, 0x06, 0x45, 0] @ replicate 48 7 :: bytes"
  have v: "cell_vpi ?cell = 1" "cell_vci ?cell = 100"
    by (simp_all add: cell_vpi_def cell_vci_def m_ntoh32_def ATM_HDR_VPI_MASK_def ATM_HDR_VCI_MASK_def
      ATM_HDR_VPI_SHIFT_def ATM_HDR_VCI_SHIFT_def)
  have c: "length ?cell = ATM_CELL_SIZE"
    by (simp add: ATM_CELL_SIZE_def ATM_HDR_SIZE_def ATM_PAYLOAD_SIZE_def)
  have "case atmsw_recv_cell (\<lambda>_ _ pkt. int (length pkt)) t 0 ?cell w of (res, t', w') \<Rightarrow>
       res = 0 \<and> (\<exists>out. net_sent w' = net_sent w @ [(1, out)] \<and> length out = ATM_CELL_SIZE \<and>
         cell_vpi out = 2 \<and> cell_vci out = 200 \<and> take_bit 4 (m_ntoh32 out 0) = take_bit 4 (m_ntoh32 ?cell 0) \<and>
         drop 5 out = drop 5 ?cell \<and> out ! 4 = crc8_serial (take 4 out) XOR 0x55)"
    using atmsw_switches_cell [OF s(2) c, where os = "\<lambda>_ _ pkt. int (length pkt)" and p = 0 and w = w]
    unfolding v by (simp add: s(3-5) plain_nio_def)
  then show ?thesis unfolding s(1) by (auto split: prod.splits)
qed

end
