(* ===== verification/Atm_Vsar.thy ===== *)
theory Atm_Vsar
  imports Atm
begin

text \<open>
  ATM segmentation and reassembly (\<open>common/atm_vsar.c\<close>): a packet is cut into AAL5 cells, the last one
  carrying length and CRC-32, and a receiver puts the cells together again. The
  reference for the sender is the AAL5 frame \<open>aal5_pdu\<close>, cut into 48-byte payloads.
\<close>

section \<open>Segmentation\<close>

definition ATM_AAL5_TRAILER_SIZE :: nat where "ATM_AAL5_TRAILER_SIZE = 8"
definition ATM_AAL5_TRAILER_POS :: nat where "ATM_AAL5_TRAILER_POS = ATM_CELL_SIZE - ATM_AAL5_TRAILER_SIZE"
definition ATM_PTI_EOP :: u32 where "ATM_PTI_EOP = 0x00000002"
definition ATM_PTI_NETWORK :: u32 where "ATM_PTI_NETWORK = 0x00000008"

text \<open>\<open>asc_buffer\<close> is what is left of the current vector; its length is \<open>buf_len\<close>.\<close>

record atm_seg_context =
  asc_nio :: "nat option"
  txfifo_cell :: bytes
  txfifo_pos :: nat
  txfifo_avail :: nat
  aal5_len :: nat
  aal5_crc :: u32
  asc_atm_hdr :: u32
  asc_buffer :: bytes

definition atm_send_cell :: "'o os_send \<Rightarrow> atm_seg_context \<Rightarrow> 'o net \<Rightarrow> atm_seg_context \<times> 'o net" where
  "atm_send_cell os asc w =
     (let cell = m_hton32 (txfifo_cell asc) 0 (asc_atm_hdr asc);
          cell = atm_insert_hec cell
      in (asc\<lparr>txfifo_cell := cell\<rparr>, snd (netio_send os (asc_nio asc) cell w)))"

definition atm_clear_tx_fifo :: "atm_seg_context \<Rightarrow> atm_seg_context" where
  "atm_clear_tx_fifo asc =
     asc\<lparr>txfifo_avail := ATM_PAYLOAD_SIZE, txfifo_pos := ATM_HDR_SIZE,
         txfifo_cell := replicate ATM_CELL_SIZE 0\<rparr>"

definition atm_add_tx_padding :: "atm_seg_context \<Rightarrow> nat \<Rightarrow> atm_seg_context" where
  "atm_add_tx_padding asc len =
     (let len = (if len > txfifo_avail asc then txfifo_avail asc else len)
      in asc\<lparr>txfifo_cell := memcpy_at (txfifo_cell asc) (txfifo_pos asc) (replicate len 0),
             txfifo_pos := txfifo_pos asc + len, txfifo_avail := txfifo_avail asc - len\<rparr>)"

definition atm_send_fifo :: "'o os_send \<Rightarrow> atm_seg_context \<Rightarrow> 'o net \<Rightarrow> atm_seg_context \<times> 'o net" where
  "atm_send_fifo os asc w =
     (if txfifo_avail asc = 0 then
        let asc = asc\<lparr>aal5_crc := crc32_compute (NOT (aal5_crc asc))
              (take ATM_PAYLOAD_SIZE (drop ATM_HDR_SIZE (txfifo_cell asc)))\<rparr>;
            (asc, w) = atm_send_cell os asc w
        in (atm_clear_tx_fifo asc, w)
      else (asc, w))"

definition atm_store_fifo :: "'o os_send \<Rightarrow> atm_seg_context \<Rightarrow> 'o net \<Rightarrow> bool \<times> atm_seg_context \<times> 'o net" where
  "atm_store_fifo os asc w =
     (let len = min (length (asc_buffer asc)) (txfifo_avail asc);
          asc = asc\<lparr>txfifo_cell := memcpy_at (txfifo_cell asc) (txfifo_pos asc) (take len (asc_buffer asc)),
                    asc_buffer := drop len (asc_buffer asc),
                    txfifo_pos := txfifo_pos asc + len, txfifo_avail := txfifo_avail asc - len\<rparr>
      in if txfifo_avail asc = 0 then (True, atm_send_fifo os asc w) else (False, asc, w))"

lemma atm_send_fifo_fields [simp]:
  "asc_buffer (fst (atm_send_fifo os asc w)) = asc_buffer asc"
  "txfifo_avail (fst (atm_send_fifo os asc w)) = (if txfifo_avail asc = 0 then ATM_PAYLOAD_SIZE else txfifo_avail asc)"
  by (simp_all add: atm_send_fifo_def atm_send_cell_def atm_clear_tx_fifo_def Let_def)

text \<open>The inner loop: every turn shortens the buffer, or refills an exhausted FIFO.\<close>

function atm_store_loop :: "'o os_send \<Rightarrow> atm_seg_context \<Rightarrow> 'o net \<Rightarrow> atm_seg_context \<times> 'o net" where
  "atm_store_loop os asc w =
     (if length (asc_buffer asc) > 0 then
        let (_, asc, w) = atm_store_fifo os asc w in atm_store_loop os asc w
      else (asc, w))"
  by pat_completeness auto
termination
  by (relation "measures [\<lambda>(_, asc, _). length (asc_buffer asc), \<lambda>(_, asc, _). if txfifo_avail asc = 0 then 1 else 0]")
     (auto simp: atm_store_fifo_def Let_def ATM_PAYLOAD_SIZE_def atm_send_fifo_def atm_send_cell_def
        atm_clear_tx_fifo_def min_def split: if_splits)

declare atm_store_loop.simps [simp del]

definition atm_aal5_add_trailer :: "atm_seg_context \<Rightarrow> atm_seg_context" where
  "atm_aal5_add_trailer asc =
     (let cell = m_hton32 (txfifo_cell asc) ATM_AAL5_TRAILER_POS (of_nat (aal5_len asc));
          crc = crc32_compute (NOT (aal5_crc asc)) (take (ATM_PAYLOAD_SIZE - 4) (drop ATM_HDR_SIZE cell));
          cell = m_hton32 cell (ATM_AAL5_TRAILER_POS + 4) crc
      in asc\<lparr>aal5_crc := crc, txfifo_cell := cell, txfifo_avail := 0\<rparr>)"

definition atm_aal5_start :: "nat option \<Rightarrow> u32 \<Rightarrow> u32 \<Rightarrow> atm_seg_context" where
  "atm_aal5_start nio vpi vci =
     atm_clear_tx_fifo
       \<lparr>asc_nio = nio, txfifo_cell = [], txfifo_pos = 0, txfifo_avail = 0, aal5_len = 0, aal5_crc = 0,
        asc_atm_hdr = push_bit ATM_HDR_VPI_SHIFT vpi OR push_bit ATM_HDR_VCI_SHIFT vci, asc_buffer = []\<rparr>"

definition atm_aal5_iov :: "'o os_send \<Rightarrow> bytes \<Rightarrow> atm_seg_context \<times> 'o net \<Rightarrow> atm_seg_context \<times> 'o net" where
  "atm_aal5_iov os iov = (\<lambda>(asc, w).
     atm_store_loop os (asc\<lparr>asc_buffer := iov, aal5_len := aal5_len asc + length iov\<rparr>) w)"

definition atm_aal5_send ::
  "'o os_send \<Rightarrow> nat option \<Rightarrow> u32 \<Rightarrow> u32 \<Rightarrow> bytes list \<Rightarrow> 'o net \<Rightarrow> int \<times> 'o net" where
  "atm_aal5_send os nio vpi vci iov w =
     (let (asc, w) = fold (atm_aal5_iov os) iov (atm_aal5_start nio vpi vci, w);
          (asc, w) = (if txfifo_avail asc < ATM_AAL5_TRAILER_SIZE
                      then atm_send_fifo os (atm_add_tx_padding asc (txfifo_avail asc)) w
                      else (asc, w));
          asc = asc\<lparr>asc_atm_hdr := asc_atm_hdr asc OR ATM_PTI_EOP\<rparr>;
          asc = atm_add_tx_padding asc (txfifo_avail asc - ATM_AAL5_TRAILER_SIZE);
          asc = atm_aal5_add_trailer asc;
          (_, w) = atm_send_cell os asc w
      in (0, w))"

section \<open>Reassembly\<close>

definition ATM_REAS_MAX_SIZE :: nat where "ATM_REAS_MAX_SIZE = 16384"

record atm_reas_context =
  arc_buffer :: bytes
  arc_buf_pos :: nat
  arc_len :: nat

definition atm_aal5_recv_reset :: "atm_reas_context \<Rightarrow> atm_reas_context" where
  "atm_aal5_recv_reset arc = arc\<lparr>arc_buf_pos := 0, arc_len := 0\<rparr>"

definition atm_aal5_recv :: "atm_reas_context \<Rightarrow> bytes \<Rightarrow> int \<times> atm_reas_context" where
  "atm_aal5_recv arc cell =
     (if arc_buf_pos arc + ATM_PAYLOAD_SIZE > ATM_REAS_MAX_SIZE then (-1, atm_aal5_recv_reset arc)
      else let atm_hdr = m_ntoh32 cell 0 in
        if atm_hdr AND ATM_PTI_NETWORK \<noteq> 0 then (2, arc)
        else let arc = arc\<lparr>arc_buffer := memcpy_at (arc_buffer arc) (arc_buf_pos arc)
                              (take ATM_PAYLOAD_SIZE (drop ATM_HDR_SIZE cell)),
                           arc_buf_pos := arc_buf_pos arc + ATM_PAYLOAD_SIZE\<rparr> in
          if atm_hdr AND ATM_PTI_EOP \<noteq> 0 then
            let arc = arc\<lparr>arc_len := unat (m_ntoh16 cell (ATM_AAL5_TRAILER_POS + 2))\<rparr>
            in (if arc_len arc \<le> arc_buf_pos arc then 1 else -2, arc)
          else (0, arc))"

section \<open>RFC 1483 bridged encapsulation\<close>

definition ATM_RFC1483B_HLEN :: nat where "ATM_RFC1483B_HLEN = 10"

definition atm_rfc1483b_header :: bytes where
  "atm_rfc1483b_header = [0xaa, 0xaa, 0x03, 0x00, 0x80, 0xc2, 0x00, 0x07, 0x00, 0x00]"

definition atm_aal5_send_rfc1483b ::
  "'o os_send \<Rightarrow> nat option \<Rightarrow> u32 \<Rightarrow> u32 \<Rightarrow> bytes \<Rightarrow> 'o net \<Rightarrow> int \<times> 'o net" where
  "atm_aal5_send_rfc1483b os nio vpi vci pkt w =
     atm_aal5_send os nio vpi vci [atm_rfc1483b_header, pkt] w"

section \<open>The reference frame\<close>

text \<open>The AAL5 frame: data, padding to a multiple of 48 bytes, control and length, CRC-32.\<close>

definition aal5_pad :: "nat \<Rightarrow> nat" where
  "aal5_pad n = (let r = (n + ATM_AAL5_TRAILER_SIZE) mod ATM_PAYLOAD_SIZE
     in if r = 0 then 0 else ATM_PAYLOAD_SIZE - r)"

definition aal5_body :: "bytes \<Rightarrow> bytes" where
  "aal5_body d = d @ replicate (aal5_pad (length d)) 0 @ hton32_bytes (of_nat (length d))"

definition aal5_pdu :: "bytes \<Rightarrow> bytes" where
  "aal5_pdu d = aal5_body d @ hton32_bytes (NOT (crc_serial (0xedb88320 :: u32) (-1) (aal5_body d)))"

fun payloads :: "bytes \<Rightarrow> bytes list" where
  "payloads xs = (if xs = [] then [] else take 48 xs # payloads (drop 48 xs))"

declare payloads.simps [simp del]

text \<open>A cell: header, HEC, payload.\<close>

definition atm_cell :: "u32 \<Rightarrow> bytes \<Rightarrow> bytes" where
  "atm_cell hdr pl = hton32_bytes hdr @ [crc8_serial (hton32_bytes hdr) XOR 0x55] @ pl"

definition aal5_hdr :: "u32 \<Rightarrow> u32 \<Rightarrow> u32" where
  "aal5_hdr vpi vci = push_bit ATM_HDR_VPI_SHIFT vpi OR push_bit ATM_HDR_VCI_SHIFT vci"

definition aal5_cells :: "u32 \<Rightarrow> u32 \<Rightarrow> bytes \<Rightarrow> bytes list" where
  "aal5_cells vpi vci d =
     (let pls = payloads (aal5_pdu d)
      in map (atm_cell (aal5_hdr vpi vci)) (butlast pls) @
         [atm_cell (aal5_hdr vpi vci OR ATM_PTI_EOP) (last pls)])"

section \<open>What the sender emits\<close>

lemma payloads_Nil [simp]: "payloads [] = []" by (simp add: payloads.simps)

lemma payloads_append: "48 dvd length p \<Longrightarrow> payloads (p @ xs) = payloads p @ payloads xs"
proof (induction p rule: payloads.induct)
  case (1 p)
  show ?case
  proof (cases "p = []")
    case False
    then have "48 \<le> length p" using "1.prems" by (auto intro: dvd_imp_le)
    moreover then have "48 dvd length (drop 48 p)" using "1.prems" by (simp add: dvd_diff_nat)
    ultimately show ?thesis
      using "1.IH" [OF False] False by (simp add: payloads.simps [of "p @ xs"] payloads.simps [of p])
  qed simp
qed

lemma payloads_one: "length pl = 48 \<Longrightarrow> payloads pl = [pl]"
  by (auto simp: payloads.simps [of pl])

lemma emit_cell:
  assumes "5 \<le> length c"
  shows "atm_insert_hec (m_hton32 c 0 hdr) = atm_cell hdr (drop 5 c)"
proof -
  have t: "take 4 (m_hton32 c 0 hdr) = hton32_bytes hdr"
    by (simp add: m_hton32_def memcpy_at_def length_hton)
  have "m_hton32 c 0 hdr = hton32_bytes hdr @ c ! 4 # drop 5 c"
    using assms Cons_nth_drop_Suc [of 4 c] by (simp add: m_hton32_def memcpy_at_def length_hton)
  then show ?thesis
    by (simp add: atm_insert_hec_def atm_compute_hec_serial t) (simp add: atm_cell_def list_update_append length_hton)
qed

lemma memcpy_fifo:
  assumes "length r + length xs + n = 48"
  shows "memcpy_at (replicate 5 0 @ r @ replicate (length xs + n) 0) (5 + length r) xs =
    replicate 5 0 @ (r @ xs) @ replicate n 0"
  using assms by (simp add: memcpy_at_def)

lemma crc32_compute_serial: "crc32_compute (NOT 0) ys = NOT (crc_serial (0xedb88320 :: u32) (-1) ys)"
  by (simp add: crc32_compute_def crc32_fold_serial)

text \<open>
  The sender after \<open>p @ r\<close> was stored: \<open>p\<close> is in the cells sent, \<open>r\<close> in the FIFO.
\<close>

definition seg_rel ::
  "'o os_send \<Rightarrow> nat \<Rightarrow> u32 \<Rightarrow> (nat \<times> bytes) list \<Rightarrow> bytes \<Rightarrow> bytes \<Rightarrow> atm_seg_context \<times> 'o net \<Rightarrow> bool" where
  "seg_rel os q hdr s0 p r = (\<lambda>(asc, w). 48 dvd length p \<and> length r \<le> 48 \<and>
     txfifo_cell asc = replicate 5 0 @ r @ replicate (48 - length r) 0 \<and>
     txfifo_pos asc = 5 + length r \<and> txfifo_avail asc = 48 - length r \<and>
     (\<forall>ys. crc32_compute (NOT (aal5_crc asc)) ys = crc32_compute (NOT 0) (p @ ys)) \<and>
     asc_atm_hdr asc = hdr \<and> asc_nio asc = Some q \<and> plain_nio os w q \<and>
     net_sent w = s0 @ map (\<lambda>pl. (q, atm_cell hdr pl)) (payloads p))"

lemma seg_rel_start:
  "plain_nio os w q \<Longrightarrow> seg_rel os q (aal5_hdr vpi vci) (net_sent w) [] [] (atm_aal5_start (Some q) vpi vci, w)"
  by (simp add: seg_rel_def atm_aal5_start_def atm_clear_tx_fifo_def aal5_hdr_def ATM_HDR_SIZE_def
      ATM_PAYLOAD_SIZE_def ATM_CELL_SIZE_def replicate_add [symmetric])

lemma seg_rel_send:
  assumes "seg_rel os q hdr s0 p r (asc, w)" "length r = 48"
  shows "seg_rel os q hdr s0 (p @ r) [] (atm_send_fifo os asc w)"
proof -
  have a: "txfifo_cell asc = replicate 5 0 @ r" "txfifo_avail asc = 0" "48 dvd length p"
    "asc_atm_hdr asc = hdr" "asc_nio asc = Some q" "plain_nio os w q"
    "net_sent w = s0 @ map (\<lambda>pl. (q, atm_cell hdr pl)) (payloads p)"
    and crc: "\<And>ys. crc32_compute (NOT (aal5_crc asc)) ys = crc32_compute (NOT 0) (p @ ys)"
    using assms by (simp_all add: seg_rel_def)
  have cell: "atm_insert_hec (m_hton32 (txfifo_cell asc) 0 hdr) = atm_cell hdr r"
    using emit_cell [of "txfifo_cell asc" hdr] a(1) assms(2) by simp
  obtain w' where w': "netio_send os (Some q) (atm_cell hdr r) w = (int (length (atm_cell hdr r)), w')"
    "net_sent w' = net_sent w @ [(q, atm_cell hdr r)]" "filters_of w' = filters_of w"
    by (rule netio_send_plain [OF a(6)]) blast
  have "crc32_compute (NOT (crc32_compute (NOT (aal5_crc asc)) r)) ys = crc32_compute (NOT 0) ((p @ r) @ ys)" for ys
    unfolding crc32_compute_chain append_assoc by (rule crc)
  moreover have "plain_nio os w' q" using a(6) plain_nio_filters [OF w'(3)] by simp
  moreover have "take 48 (drop 5 (txfifo_cell asc)) = r" using a(1) assms(2) by simp
  then have "atm_send_fifo os asc w =
      (atm_clear_tx_fifo (asc\<lparr>aal5_crc := crc32_compute (NOT (aal5_crc asc)) r, txfifo_cell := atm_cell hdr r\<rparr>), w')"
    using a(2,4,5) cell w'(1)
    by (simp add: atm_send_fifo_def atm_send_cell_def ATM_HDR_SIZE_def ATM_PAYLOAD_SIZE_def Let_def)
  ultimately show ?thesis
    using a(3,4,5,7) assms(2) w'(2)
    by (simp add: seg_rel_def atm_clear_tx_fifo_def ATM_HDR_SIZE_def ATM_PAYLOAD_SIZE_def ATM_CELL_SIZE_def
        replicate_add [symmetric] payloads_append payloads_one)
qed

lemma seg_rel_put:
  assumes "seg_rel os q hdr s0 p r (asc, w)" "length r + length xs \<le> 48"
  shows "seg_rel os q hdr s0 p (r @ xs)
    (asc\<lparr>txfifo_cell := memcpy_at (txfifo_cell asc) (txfifo_pos asc) xs,
         txfifo_pos := txfifo_pos asc + length xs, txfifo_avail := txfifo_avail asc - length xs\<rparr>, w)"
proof -
  obtain n where n: "length r + length xs + n = 48" using assms(2) by (metis le_Suc_ex)
  then have d: "48 - length r = length xs + n" "48 - (length r + length xs) = n" by simp_all
  show ?thesis
    using assms n memcpy_fifo [OF n] unfolding seg_rel_def by (simp add: d)
qed

lemma seg_rel_buffer [simp]:
  "seg_rel os q hdr s0 p r (asc\<lparr>asc_buffer := b\<rparr>, w) = seg_rel os q hdr s0 p r (asc, w)"
  "seg_rel os q hdr s0 p r (asc\<lparr>aal5_len := n\<rparr>, w) = seg_rel os q hdr s0 p r (asc, w)"
  by (simp_all add: seg_rel_def)

lemma atm_send_cell_len [simp]:
  "aal5_len (fst (atm_send_fifo os asc w)) = aal5_len asc"
  by (simp add: atm_send_fifo_def atm_send_cell_def atm_clear_tx_fifo_def Let_def)

lemma seg_rel_store:
  assumes "seg_rel os q hdr s0 p r (asc, w)" "length r < 48" "atm_store_fifo os asc w = (b, asc', w')"
  obtains p' r' where "seg_rel os q hdr s0 p' r' (asc', w')" "length r' < 48"
    "p' @ r' @ asc_buffer asc' = p @ r @ asc_buffer asc" "aal5_len asc' = aal5_len asc"
    "asc_buffer asc \<noteq> [] \<Longrightarrow> length (asc_buffer asc') < length (asc_buffer asc)"
proof -
  let ?n = "min (length (asc_buffer asc)) (48 - length r)"
  let ?xs = "take ?n (asc_buffer asc)"
  have avail: "txfifo_avail asc = 48 - length r" using assms(1) by (simp add: seg_rel_def)
  define asc1 where "asc1 = asc\<lparr>txfifo_cell := memcpy_at (txfifo_cell asc) (txfifo_pos asc) ?xs,
    asc_buffer := drop ?n (asc_buffer asc),
    txfifo_pos := txfifo_pos asc + ?n, txfifo_avail := txfifo_avail asc - ?n\<rparr>"
  have len: "length ?xs = ?n" by simp
  have asc1: "asc1 = (asc\<lparr>txfifo_cell := memcpy_at (txfifo_cell asc) (txfifo_pos asc) ?xs,
      txfifo_pos := txfifo_pos asc + length ?xs, txfifo_avail := txfifo_avail asc - length ?xs\<rparr>)
      \<lparr>asc_buffer := drop ?n (asc_buffer asc)\<rparr>" by (simp add: asc1_def)
  have "length r + length ?xs \<le> 48" using assms(2) by simp
  from seg_rel_put [OF assms(1) this]
  have rel: "seg_rel os q hdr s0 p (r @ ?xs) (asc1, w)" unfolding asc1 seg_rel_buffer .
  have st: "atm_store_fifo os asc w =
      (if txfifo_avail asc1 = 0 then (True, atm_send_fifo os asc1 w) else (False, asc1, w))"
    using assms(2) by (simp add: atm_store_fifo_def asc1_def avail Let_def)
  have f: "asc_buffer asc1 = drop ?n (asc_buffer asc)" "aal5_len asc1 = aal5_len asc"
    "txfifo_avail asc1 = 48 - length r - ?n" by (simp_all add: asc1_def avail)
  show ?thesis
  proof (cases "txfifo_avail asc1 = 0")
    case True
    then have "48 - length r \<le> ?n" using f(3) by simp
    then have l: "length (r @ ?xs) = 48" using assms(2) unfolding length_append len by linarith
    have out: "(asc', w') = atm_send_fifo os asc1 w" using st True assms(3) by simp
    show ?thesis
      by (rule that [of "p @ r @ ?xs" "[]"])
         (use seg_rel_send [OF rel l] f assms(2) atm_send_fifo_fields(1) [of os asc1 w] atm_send_cell_len [of os asc1 w]
           in \<open>auto simp flip: out simp: min_def\<close>)
  next
    case False
    show ?thesis
      by (rule that [of p "r @ ?xs"])
         (use False st assms(2,3) rel f in \<open>auto simp: min_def split: if_splits\<close>)
  qed
qed

lemma seg_rel_loop:
  assumes "seg_rel os q hdr s0 p r (asc, w)" "length r < 48"
  shows "\<exists>p' r'. seg_rel os q hdr s0 p' r' (atm_store_loop os asc w) \<and> length r' < 48 \<and>
    p' @ r' = p @ r @ asc_buffer asc \<and> aal5_len (fst (atm_store_loop os asc w)) = aal5_len asc"
  using assms
proof (induction "length (asc_buffer asc)" arbitrary: p r asc w rule: less_induct)
  case less
  show ?case
  proof (cases "asc_buffer asc = []")
    case True
    then show ?thesis using less.prems by (intro exI [of _ p] exI [of _ r]) (simp add: atm_store_loop.simps [of os asc w])
  next
    case False
    obtain b asc' w' where s: "atm_store_fifo os asc w = (b, asc', w')" by (metis prod_cases3)
    obtain p' r' where n: "seg_rel os q hdr s0 p' r' (asc', w')" "length r' < 48"
      "p' @ r' @ asc_buffer asc' = p @ r @ asc_buffer asc" "aal5_len asc' = aal5_len asc"
      "length (asc_buffer asc') < length (asc_buffer asc)"
      using seg_rel_store [OF less.prems s] False by metis
    have "atm_store_loop os asc w = atm_store_loop os asc' w'"
      using False s by (simp add: atm_store_loop.simps [of os asc w])
    then show ?thesis using less.hyps [OF n(5,1,2)] n(3,4) by simp
  qed
qed

lemma seg_rel_iovs:
  assumes "seg_rel os q hdr s0 p r a" "length r < 48"
  shows "\<exists>p' r'. seg_rel os q hdr s0 p' r' (fold (atm_aal5_iov os) iov a) \<and> length r' < 48 \<and>
    p' @ r' = p @ r @ concat iov \<and> aal5_len (fst (fold (atm_aal5_iov os) iov a)) = aal5_len (fst a) + length (concat iov)"
  using assms
proof (induction iov arbitrary: p r a)
  case (Cons v iov)
  obtain asc w where a: "a = (asc, w)" by fastforce
  have "seg_rel os q hdr s0 p r (asc\<lparr>asc_buffer := v, aal5_len := aal5_len asc + length v\<rparr>, w)"
    using Cons.prems(1) by (simp add: a seg_rel_def)
  from seg_rel_loop [OF this Cons.prems(2)]
  obtain p1 r1 where 1: "seg_rel os q hdr s0 p1 r1 (atm_aal5_iov os v a)" "length r1 < 48"
    "p1 @ r1 = p @ r @ v" "aal5_len (fst (atm_aal5_iov os v a)) = aal5_len asc + length v"
    by (auto simp: atm_aal5_iov_def a)
  from Cons.IH [OF 1(1,2)]
  obtain p2 r2 where 2: "seg_rel os q hdr s0 p2 r2 (fold (atm_aal5_iov os) (v # iov) a)" "length r2 < 48"
    "p2 @ r2 = p1 @ r1 @ concat iov"
    "aal5_len (fst (fold (atm_aal5_iov os) (v # iov) a)) = aal5_len asc + length v + length (concat iov)"
    using 1(4) by auto
  have "p2 @ r2 = p @ r @ concat (v # iov)" using 2(3) 1(3) by (metis append.assoc concat.simps(2))
  then show ?case using 2 a by (intro exI [of _ p2] exI [of _ r2]) simp
qed auto

text \<open>The last cell: padding, length, CRC.\<close>

definition last_body :: "bytes \<Rightarrow> nat \<Rightarrow> bytes" where
  "last_body r n = r @ replicate (40 - length r) 0 @ hton32_bytes (of_nat n)"

lemma length_last_body: "length r \<le> 40 \<Longrightarrow> length (last_body r n) = 44"
  by (simp add: last_body_def length_hton)

lemma seg_rel_trailer:
  assumes "seg_rel os q hdr s0 p r (asc, w)" "length r \<le> 40"
    and asc': "asc' = atm_aal5_add_trailer (atm_add_tx_padding
        (asc\<lparr>asc_atm_hdr := asc_atm_hdr asc OR ATM_PTI_EOP\<rparr>) (txfifo_avail asc - ATM_AAL5_TRAILER_SIZE))"
  shows "txfifo_cell asc' = replicate 5 0 @ last_body r (aal5_len asc) @
      hton32_bytes (crc32_compute (NOT 0) (p @ last_body r (aal5_len asc)))"
    and "asc_atm_hdr asc' = hdr OR ATM_PTI_EOP" "asc_nio asc' = Some q"
proof -
  have a: "txfifo_cell asc = replicate 5 0 @ r @ replicate (48 - length r) 0" "txfifo_pos asc = 5 + length r"
    "txfifo_avail asc = 48 - length r" "asc_atm_hdr asc = hdr" "asc_nio asc = Some q"
    and crc: "\<And>ys. crc32_compute (NOT (aal5_crc asc)) ys = crc32_compute (NOT 0) (p @ ys)"
    using assms(1) by (simp_all add: seg_rel_def)
  let ?len = "hton32_bytes (of_nat (aal5_len asc))" and ?z = "replicate (40 - length r) (0 :: u8)"
  have n: "length r + length ?z + 8 = 48" using assms(2) by simp
  have cell: "txfifo_cell asc = replicate 5 0 @ r @ replicate (length ?z + 8) 0" using a(1) assms(2) by simp
  have pad: "memcpy_at (txfifo_cell asc) (txfifo_pos asc) ?z = replicate 5 0 @ (r @ ?z) @ replicate 8 0"
    unfolding cell a(2) by (rule memcpy_fifo [OF n])
  have c45: "m_hton32 (replicate 5 0 @ (r @ ?z) @ replicate 8 0) 45 v = replicate 5 0 @ (r @ ?z) @ hton32_bytes v @ replicate 4 0" for v
    using assms(2) by (simp add: m_hton32_def memcpy_at_def length_hton)
  have c49: "m_hton32 (replicate 5 0 @ (r @ ?z) @ xs @ replicate 4 0) 49 v = replicate 5 0 @ (r @ ?z) @ xs @ hton32_bytes v"
    if "length xs = 4" for v xs
    using assms(2) that by (simp add: m_hton32_def memcpy_at_def length_hton)
  have body: "take 44 (drop 5 (replicate 5 0 @ (r @ ?z) @ ?len @ replicate 4 0)) = last_body r (aal5_len asc)"
    using assms(2) by (simp add: last_body_def length_hton)
  show "asc_atm_hdr asc' = hdr OR ATM_PTI_EOP" "asc_nio asc' = Some q"
    by (simp_all add: asc' atm_aal5_add_trailer_def atm_add_tx_padding_def Let_def a)
  have t: "txfifo_cell (atm_add_tx_padding (asc\<lparr>asc_atm_hdr := h\<rparr>) (txfifo_avail asc - ATM_AAL5_TRAILER_SIZE)) =
      replicate 5 0 @ (r @ ?z) @ replicate 8 0" for h
  proof -
    have "\<not> 48 - length r < 40 - length r" by simp
    then show ?thesis
      using pad by (simp add: atm_add_tx_padding_def a(3) ATM_AAL5_TRAILER_SIZE_def Let_def del: append_assoc)
  qed
  have f: "aal5_len (atm_add_tx_padding asc k) = aal5_len asc" "aal5_crc (atm_add_tx_padding asc k) = aal5_crc asc" for asc k
    by (simp_all add: atm_add_tx_padding_def Let_def)
  have pos: "ATM_AAL5_TRAILER_POS = 45" "ATM_HDR_SIZE = 5" "ATM_PAYLOAD_SIZE - 4 = 44"
    by (simp_all add: ATM_AAL5_TRAILER_POS_def ATM_CELL_SIZE_def ATM_HDR_SIZE_def ATM_PAYLOAD_SIZE_def ATM_AAL5_TRAILER_SIZE_def)
  have "txfifo_cell asc' = replicate 5 0 @ (r @ ?z) @ ?len @
      hton32_bytes (crc32_compute (NOT (aal5_crc asc)) (last_body r (aal5_len asc)))"
    unfolding asc' atm_aal5_add_trailer_def Let_def t f pos
    by (simp add: c45 c49 body length_hton del: append_assoc take_append drop_append)
  then show "txfifo_cell asc' = replicate 5 0 @ last_body r (aal5_len asc) @
      hton32_bytes (crc32_compute (NOT 0) (p @ last_body r (aal5_len asc)))"
    unfolding crc by (simp add: last_body_def)
qed

lemma seg_rel_finish:
  assumes rel: "seg_rel os q hdr s0 p r (asc, w)" and r: "length r \<le> 40"
    and d: "p @ last_body r (aal5_len asc) = aal5_body d" and hdr: "hdr = aal5_hdr vpi vci"
    and asc': "asc' = atm_aal5_add_trailer (atm_add_tx_padding
        (asc\<lparr>asc_atm_hdr := asc_atm_hdr asc OR ATM_PTI_EOP\<rparr>) (txfifo_avail asc - ATM_AAL5_TRAILER_SIZE))"
  shows "net_sent (snd (atm_send_cell os asc' w)) = s0 @ map (Pair q) (aal5_cells vpi vci d) \<and>
    plain_nio os (snd (atm_send_cell os asc' w)) q"
proof -
  note t = seg_rel_trailer [OF rel r asc']
  let ?pl = "last_body r (aal5_len asc) @ hton32_bytes (crc32_compute (NOT 0) (aal5_body d))"
  have w: "plain_nio os w q" "48 dvd length p"
    "net_sent w = s0 @ map (\<lambda>pl. (q, atm_cell hdr pl)) (payloads p)"
    using rel by (simp_all add: seg_rel_def)
  have cell: "atm_insert_hec (m_hton32 (txfifo_cell asc') 0 (hdr OR ATM_PTI_EOP)) = atm_cell (hdr OR ATM_PTI_EOP) ?pl"
    using emit_cell [of "txfifo_cell asc'" "hdr OR ATM_PTI_EOP"] t(1) d by simp
  obtain w' where w': "netio_send os (Some q) (atm_cell (hdr OR ATM_PTI_EOP) ?pl) w =
      (int (length (atm_cell (hdr OR ATM_PTI_EOP) ?pl)), w')"
    "net_sent w' = net_sent w @ [(q, atm_cell (hdr OR ATM_PTI_EOP) ?pl)]" "filters_of w' = filters_of w"
    by (rule netio_send_plain [OF w(1)]) blast
  have "aal5_pdu d = p @ ?pl"
    using d by (simp add: aal5_pdu_def crc32_compute_serial [simplified])
  moreover have "length ?pl = 48" using r by (simp add: length_last_body length_hton)
  ultimately have "payloads (aal5_pdu d) = payloads p @ [?pl]"
    using payloads_append [OF w(2)] payloads_one by simp
  then have "aal5_cells vpi vci d = map (atm_cell hdr) (payloads p) @ [atm_cell (hdr OR ATM_PTI_EOP) ?pl]"
    by (simp add: aal5_cells_def hdr)
  moreover have "snd (atm_send_cell os asc' w) = w'"
    using t(2,3) cell w'(1) by (simp add: atm_send_cell_def)
  ultimately show ?thesis using w'(2) w(1,3) plain_nio_filters [OF w'(3)] by simp
qed

lemma aal5_pad_cases:
  assumes "48 dvd a" "r < 48"
  shows "aal5_pad (a + r) = (if r \<le> 40 then 40 - r else 88 - r)"
proof -
  obtain k where "a = 48 * k" using assms(1) by blast
  then have "(a + r + 8) mod 48 = (r + 8) mod 48" by (metis add.assoc mod_mult_self4)
  also have "\<dots> = (if r < 40 then r + 8 else r - 40)" using assms(2) by (auto simp: le_mod_geq)
  finally show ?thesis using assms(2) by (auto simp: aal5_pad_def ATM_AAL5_TRAILER_SIZE_def ATM_PAYLOAD_SIZE_def Let_def)
qed

lemma atm_aal5_send_spec:
  assumes "plain_nio os w q"
  shows "case atm_aal5_send os (Some q) vpi vci iov w of (res, w') \<Rightarrow> res = 0 \<and>
    net_sent w' = net_sent w @ map (Pair q) (aal5_cells vpi vci (concat iov)) \<and> plain_nio os w' q"
proof -
  let ?hdr = "aal5_hdr vpi vci" and ?d = "concat iov"
  obtain asc1 w1 where run: "fold (atm_aal5_iov os) iov (atm_aal5_start (Some q) vpi vci, w) = (asc1, w1)" by fastforce
  have l0: "aal5_len (atm_aal5_start (Some q) vpi vci) = 0"
    by (simp add: atm_aal5_start_def atm_clear_tx_fifo_def)
  obtain p r where 1: "seg_rel os q ?hdr (net_sent w) p r (asc1, w1)" "length r < 48" "p @ r = ?d"
    "aal5_len asc1 = length ?d"
    using seg_rel_iovs [OF seg_rel_start [OF assms], of vpi vci iov] l0 run by auto
  have dvd: "48 dvd length p" and av: "txfifo_avail asc1 = 48 - length r" using 1(1) by (simp_all add: seg_rel_def)
  have len: "length ?d = length p + length r" using 1(3) by (metis length_append)
  note pad = aal5_pad_cases [OF dvd 1(2)]
  define a2 where "a2 = (if txfifo_avail asc1 < ATM_AAL5_TRAILER_SIZE
    then atm_send_fifo os (atm_add_tx_padding asc1 (txfifo_avail asc1)) w1 else (asc1, w1))"
  obtain asc2 w2 where a2: "a2 = (asc2, w2)" by fastforce
  have "\<exists>p r. seg_rel os q ?hdr (net_sent w) p r (asc2, w2) \<and> length r \<le> 40 \<and>
    p @ last_body r (length ?d) = aal5_body ?d \<and> aal5_len asc2 = length ?d"
  proof (cases "length r \<le> 40")
    case True
    then have "\<not> 48 - length r < 8" by arith
    then have "a2 = (asc1, w1)" by (simp add: a2_def av ATM_AAL5_TRAILER_SIZE_def)
    moreover have "p @ last_body r (length ?d) = aal5_body ?d"
      using True pad 1(3) len by (simp add: aal5_body_def last_body_def flip: 1(3))
    ultimately show ?thesis using 1 True a2 by auto
  next
    case False
    let ?z = "replicate (48 - length r) (0 :: u8)"
    have short: "48 - length r < 8" using False by arith
    have "atm_add_tx_padding asc1 (txfifo_avail asc1) = asc1\<lparr>
        txfifo_cell := memcpy_at (txfifo_cell asc1) (txfifo_pos asc1) ?z,
        txfifo_pos := txfifo_pos asc1 + length ?z, txfifo_avail := txfifo_avail asc1 - length ?z\<rparr>"
      by (simp add: atm_add_tx_padding_def av Let_def)
    moreover have "seg_rel os q ?hdr (net_sent w) p (r @ ?z) (asc1\<lparr>
        txfifo_cell := memcpy_at (txfifo_cell asc1) (txfifo_pos asc1) ?z,
        txfifo_pos := txfifo_pos asc1 + length ?z, txfifo_avail := txfifo_avail asc1 - length ?z\<rparr>, w1)"
      using 1(2) by (intro seg_rel_put [OF 1(1)]) simp
    moreover have "a2 = atm_send_fifo os (atm_add_tx_padding asc1 (txfifo_avail asc1)) w1"
      using short by (simp add: a2_def av ATM_AAL5_TRAILER_SIZE_def)
    ultimately have "seg_rel os q ?hdr (net_sent w) (p @ r @ ?z) [] a2" "aal5_len (fst a2) = aal5_len asc1"
      using seg_rel_send [of os q ?hdr "net_sent w" p "r @ ?z"] 1(2) by simp_all
    moreover have "?z @ replicate 40 0 = replicate (88 - length r) 0"
      using 1(2) by (simp flip: replicate_add)
    then have "(p @ r @ ?z) @ last_body [] (length ?d) = aal5_body ?d"
      using False pad len by (simp add: aal5_body_def last_body_def flip: 1(3))
    ultimately show ?thesis using a2 1(4) by (intro exI [of _ "p @ r @ ?z"] exI [of _ "[]"]) simp
  qed
  then obtain p' r' where 2: "seg_rel os q ?hdr (net_sent w) p' r' (asc2, w2)" "length r' \<le> 40"
    "p' @ last_body r' (aal5_len asc2) = aal5_body ?d" by metis
  from seg_rel_finish [OF 2 refl refl]
  show ?thesis
    unfolding atm_aal5_send_def run Let_def prod.case a2 [unfolded a2_def] by (simp add: case_prod_beta)
qed
text \<open>
  C35: what the segmentation sends. Whatever the vectors, the cells handed to the NIO are the AAL5
  cells of their concatenation: 48-byte payloads of the data, zero padding, length and CRC-32
  (computed over everything before it), each behind the header of the circuit and its
  HEC, the end-of-packet bit in the last cell only.
\<close>

theorem atm_aal5_send_cells:
  assumes "plain_nio os w q"
  shows "case atm_aal5_send os (Some q) vpi vci iov w of (res, w') \<Rightarrow> res = 0 \<and>
    net_sent w' = net_sent w @ map (Pair q) (aal5_cells vpi vci (concat iov))"
  using atm_aal5_send_spec [OF assms, of vpi vci iov] by (auto split: prod.splits)

theorem atm_aal5_send_cells_witness:
  "net_sent (snd (atm_aal5_send (\<lambda>_ _ pkt. int (length pkt)) (Some 0) 1 100 [[1, 2], [3]] sample_net)) =
    [(0, atm_cell (aal5_hdr 1 100 OR ATM_PTI_EOP) (aal5_pdu [1, 2, 3]))]"
proof -
  have p: "plain_nio (\<lambda>_ _ pkt. int (length pkt)) sample_net 0" by (rule sample_net_plain)
  have "length (aal5_pdu [1, 2, 3]) = 48"
    by (simp add: aal5_pdu_def aal5_body_def aal5_pad_def ATM_AAL5_TRAILER_SIZE_def ATM_PAYLOAD_SIZE_def length_hton)
  then have "payloads (aal5_pdu [1, 2, 3]) = [aal5_pdu [1, 2, 3]]" by (rule payloads_one)
  then show ?thesis
    using atm_aal5_send_cells [OF p, of 1 100 "[[1, 2], [3]]"]
    by (simp add: aal5_cells_def sample_net_plain case_prod_beta)
qed

section \<open>What the receiver puts together\<close>

lemma m_ntoh32_cell: "m_ntoh32 (atm_cell hdr pl) 0 = hdr"
proof -
  have "m_hton32 (replicate 5 0) 0 hdr = hton32_bytes hdr @ [0]"
    by (simp add: m_hton32_def memcpy_at_def length_hton)
  then have "m_ntoh32 (hton32_bytes hdr @ [0]) 0 = hdr"
    using m_ntoh32_hton32 [of 0 "replicate 5 0" hdr] by simp
  moreover have "m_ntoh32 (atm_cell hdr pl) 0 = m_ntoh32 (hton32_bytes hdr @ [0]) 0"
    by (simp add: m_ntoh32_def atm_cell_def hton32_bytes_def)
  ultimately show ?thesis by simp
qed

lemma drop_atm_cell: "drop 5 (atm_cell hdr pl) = pl" "length (atm_cell hdr pl) = 5 + length pl"
  by (simp_all add: atm_cell_def length_hton)

lemma trailer_length:
  assumes "length xs = 40"
  shows "m_ntoh16 (atm_cell hdr (xs @ hton32_bytes v @ ys)) 47 = ucast v"
proof -
  have "atm_cell hdr (xs @ hton32_bytes v @ ys) ! (45 + i) = hton32_bytes v ! i" if "i < 4" for i
    using assms that by (simp add: atm_cell_def nth_append length_hton)
  from this [of 2] this [of 3] have "m_ntoh16 (atm_cell hdr (xs @ hton32_bytes v @ ys)) 47 = m_ntoh16 (hton32_bytes v) 2"
    by (simp add: m_ntoh16_def)
  also have "\<dots> = ucast v"
    by (rule bit_word_eqI) (auto simp: m_ntoh16_def hton32_bytes_def bit_or_iff bit_push_bit_iff bit_ucast_iff bit_drop_bit_eq)
  finally show ?thesis .
qed

text \<open>The receiver holds the payloads \<open>p\<close> of the packet in progress.\<close>

definition reas_rel :: "bytes \<Rightarrow> atm_reas_context \<Rightarrow> bool" where
  "reas_rel p arc \<longleftrightarrow> length (arc_buffer arc) = ATM_REAS_MAX_SIZE \<and> arc_buf_pos arc = length p \<and>
     take (length p) (arc_buffer arc) = p"

lemma reas_rel_reset: "length (arc_buffer arc) = ATM_REAS_MAX_SIZE \<Longrightarrow> reas_rel [] (atm_aal5_recv_reset arc)"
  by (simp add: reas_rel_def atm_aal5_recv_reset_def)

lemma reas_rel_step:
  assumes "reas_rel p arc" "length p + 48 \<le> ATM_REAS_MAX_SIZE" "length pl = 48" "hdr AND ATM_PTI_NETWORK = 0"
  obtains arc' where "reas_rel (p @ pl) arc'"
    "atm_aal5_recv arc (atm_cell hdr pl) =
       (if hdr AND ATM_PTI_EOP \<noteq> 0 then
          (if unat (m_ntoh16 (atm_cell hdr pl) 47) \<le> length p + 48 then 1 else -2,
           arc'\<lparr>arc_len := unat (m_ntoh16 (atm_cell hdr pl) 47)\<rparr>)
        else (0, arc'))"
proof -
  let ?arc = "arc\<lparr>arc_buffer := memcpy_at (arc_buffer arc) (length p) pl, arc_buf_pos := length p + 48\<rparr>"
  have a: "length (arc_buffer arc) = ATM_REAS_MAX_SIZE" "arc_buf_pos arc = length p"
    "take (length p) (arc_buffer arc) = p"
    using assms(1) by (simp_all add: reas_rel_def)
  have "take (length p + 48) (memcpy_at (arc_buffer arc) (length p) pl) = p @ pl"
    using a assms(3) by (simp add: memcpy_at_def)
  then have "reas_rel (p @ pl) ?arc"
    using a assms(2,3) by (simp add: reas_rel_def length_memcpy_at)
  moreover have pos: "ATM_AAL5_TRAILER_POS = 45"
    by (simp add: ATM_AAL5_TRAILER_POS_def ATM_CELL_SIZE_def ATM_HDR_SIZE_def ATM_PAYLOAD_SIZE_def ATM_AAL5_TRAILER_SIZE_def)
  ultimately show ?thesis
    using a assms(2-4)
    by (intro that [of ?arc])
       (simp_all add: atm_aal5_recv_def m_ntoh32_cell drop_atm_cell ATM_HDR_SIZE_def ATM_PAYLOAD_SIZE_def Let_def pos)
qed

text \<open>The header of a circuit has no PTI bit set.\<close>

lemma aal5_hdr_low: "n < 4 \<Longrightarrow> \<not> bit (aal5_hdr vpi vci) n"
  by (simp add: aal5_hdr_def ATM_HDR_VPI_SHIFT_def ATM_HDR_VCI_SHIFT_def bit_or_iff bit_push_bit_iff)

lemma aal5_hdr_pti:
  "aal5_hdr vpi vci AND ATM_PTI_NETWORK = 0" "(aal5_hdr vpi vci OR ATM_PTI_EOP) AND ATM_PTI_NETWORK = 0"
  "aal5_hdr vpi vci AND ATM_PTI_EOP = 0" "(aal5_hdr vpi vci OR ATM_PTI_EOP) AND ATM_PTI_EOP \<noteq> 0"
proof -
  have m: "ATM_PTI_NETWORK = 2 ^ 3" "ATM_PTI_EOP = 2 ^ 1" by (simp_all add: ATM_PTI_NETWORK_def ATM_PTI_EOP_def)
  show "aal5_hdr vpi vci AND ATM_PTI_NETWORK = 0" "(aal5_hdr vpi vci OR ATM_PTI_EOP) AND ATM_PTI_NETWORK = 0"
    "aal5_hdr vpi vci AND ATM_PTI_EOP = 0" "(aal5_hdr vpi vci OR ATM_PTI_EOP) AND ATM_PTI_EOP \<noteq> 0"
    unfolding m and_exp_eq_0_iff_not_bit bit_or_iff bit_exp_iff by (simp_all add: aal5_hdr_low)
qed

lemma payloads_concat: "concat (payloads xs) = xs"
proof (induction xs rule: payloads.induct)
  case (1 xs)
  then show ?case by (cases "xs = []") (simp_all add: payloads.simps [of xs])
qed

lemma payloads_48: "48 dvd length xs \<Longrightarrow> pl \<in> set (payloads xs) \<Longrightarrow> length pl = 48"
proof (induction xs rule: payloads.induct)
  case (1 xs)
  show ?case
  proof (cases "xs = []")
    case False
    then have "48 \<le> length xs" using "1.prems"(1) by (auto intro: dvd_imp_le)
    then show ?thesis
      using 1 False by (auto simp: payloads.simps [of xs] dvd_diff_nat)
  qed (use 1 in simp)
qed

lemma round_up_48: "(n :: nat) + (if n mod 48 = 0 then 0 else 48 - n mod 48) = 48 * ((n + 47) div 48)"
proof -
  define k where "k = n div 48"
  define r where "r = n mod 48"
  have n: "n = 48 * k + r" "r < 48" by (simp_all add: k_def r_def)
  have "(n + 47) div 48 = (if r = 0 then k else k + 1)"
    using n by (intro div_nat_eqI) auto
  then show ?thesis using n by (auto simp: r_def [symmetric])
qed

lemma length_aal5_pdu: "length (aal5_pdu d) = 48 * ((length d + 8 + 47) div 48)"
proof -
  have "length (aal5_pdu d) = (length d + 8) + (if (length d + 8) mod 48 = 0 then 0 else 48 - (length d + 8) mod 48)"
    unfolding aal5_pdu_def aal5_body_def aal5_pad_def ATM_AAL5_TRAILER_SIZE_def ATM_PAYLOAD_SIZE_def Let_def
    by (simp add: length_hton)
  then show ?thesis unfolding round_up_48 .
qed

lemma aal5_pdu_parts:
  obtains xs crc where "aal5_pdu d = concat (butlast (payloads (aal5_pdu d))) @ xs @ hton32_bytes (of_nat (length d)) @ crc"
    "last (payloads (aal5_pdu d)) = xs @ hton32_bytes (of_nat (length d)) @ crc"
    "length xs = 40" "take (length d) (aal5_pdu d) = d" "payloads (aal5_pdu d) \<noteq> []"
proof -
  let ?ps = "payloads (aal5_pdu d)"
  let ?crc = "hton32_bytes (NOT (crc_serial (0xedb88320 :: u32) (-1) (aal5_body d)))"
  have dvd: "48 dvd length (aal5_pdu d)" by (simp add: length_aal5_pdu)
  have ne: "?ps \<noteq> []" using payloads_concat [of "aal5_pdu d"]
    by (metis aal5_pdu_def append_is_Nil_conv concat.simps(1) length_hton(2) list.size(3) zero_neq_numeral)
  have split: "aal5_pdu d = concat (butlast ?ps) @ last ?ps"
    using payloads_concat [of "aal5_pdu d"] append_butlast_last_id [OF ne]
    by (metis append_Nil2 concat.simps concat_append)
  have last: "length (last ?ps) = 48" using payloads_48 [OF dvd] ne by simp
  have tail: "aal5_pdu d = (d @ replicate (aal5_pad (length d)) 0) @ hton32_bytes (of_nat (length d)) @ ?crc"
    by (simp add: aal5_pdu_def aal5_body_def)
  have n: "length (concat (butlast ?ps)) + 40 = length (d @ replicate (aal5_pad (length d)) 0)"
    using arg_cong [OF split, where f = length] arg_cong [OF tail, where f = length] last by (simp add: length_hton)
  have "last ?ps = take 40 (last ?ps) @ hton32_bytes (of_nat (length d)) @ ?crc"
  proof -
    have "drop (length (concat (butlast ?ps)) + 40) (aal5_pdu d) = drop 40 (last ?ps)"
      by (subst split) simp
    moreover have "drop (length (concat (butlast ?ps)) + 40) (aal5_pdu d) = hton32_bytes (of_nat (length d)) @ ?crc"
      unfolding n by (subst tail) simp
    ultimately show ?thesis by (metis append_take_drop_id)
  qed
  moreover have "take (length d) (aal5_pdu d) = d" by (simp add: tail)
  ultimately show ?thesis
    using that [of "take 40 (last ?ps)" ?crc] split last ne by simp
qed

end
