(* ===== verification/Atm_Bridge.thy ===== *)
theory Atm_Bridge
  imports Atm_Vsar
begin

text \<open>
  The ATM bridge (\<open>common/atm_bridge.c\<close>): Ethernet frames of one NIO travel as RFC 1483 cells on
  another. The theorems compose the segmentation of one bridge with the reassembly of its peer:
  frames that fit are carried unchanged and in order, longer ones are lost without harm.
\<close>

section \<open>State\<close>

record atm_bridge =
  br_name :: string
  br_eth_nio :: "nat option"
  br_atm_nio :: "nat option"
  br_vpi :: u32
  br_vci :: u32
  br_arc :: atm_reas_context

text \<open>A new bridge; \<open>malloc\<close>ed memory is cleared, \<open>atm_bridge_create\<close> then registers it.\<close>

definition atm_bridge_new :: "string \<Rightarrow> atm_bridge" where
  "atm_bridge_new name = \<lparr>br_name = name, br_eth_nio = None, br_atm_nio = None, br_vpi = 0, br_vci = 0,
     br_arc = atm_aal5_recv_reset \<lparr>arc_buffer = replicate ATM_REAS_MAX_SIZE 0, arc_buf_pos = 0, arc_len = 0\<rparr>\<rparr>"

section \<open>Packets\<close>

definition atm_bridge_recv_cell ::
  "'o os_send \<Rightarrow> atm_bridge \<Rightarrow> bytes \<Rightarrow> 'o net \<Rightarrow> int \<times> atm_bridge \<times> 'o net" where
  "atm_bridge_recv_cell os t cell w =
     (if length cell \<noteq> ATM_CELL_SIZE then (-1, t, w)
      else let vpi = cell_vpi cell; vci = cell_vci cell in
        if br_vpi t \<noteq> vpi \<or> br_vci t \<noteq> vci then (0, t, w)
        else let (status, arc) = atm_aal5_recv (br_arc t) cell; t = t\<lparr>br_arc := arc\<rparr> in
          if status = 1 then
            let w = (if arc_len arc > ATM_RFC1483B_HLEN \<and>
                        take ATM_RFC1483B_HLEN (arc_buffer arc) = atm_rfc1483b_header
                     then snd (netio_send os (br_eth_nio t)
                            (take (arc_len arc - ATM_RFC1483B_HLEN) (drop ATM_RFC1483B_HLEN (arc_buffer arc))) w)
                     else w)
            in (0, t\<lparr>br_arc := atm_aal5_recv_reset arc\<rparr>, w)
          else if status < 0 then (-1, t\<lparr>br_arc := atm_aal5_recv_reset arc\<rparr>, w)
          else (0, t, w))"

definition atm_bridge_recv_pkt ::
  "'o os_send \<Rightarrow> atm_bridge \<Rightarrow> bytes \<Rightarrow> 'o net \<Rightarrow> int \<times> 'o net" where
  "atm_bridge_recv_pkt os t pkt w =
     atm_aal5_send_rfc1483b os (br_atm_nio t) (br_vpi t) (br_vci t) pkt w"

section \<open>Configuration\<close>

text \<open>
  \<open>hc\<close> and \<open>hp\<close> stand for the two receive handlers of the bridge; \<open>ok1\<close>, \<open>ok2\<close> tell whether
  memory for the listeners is available.
\<close>

definition atm_bridge_configure ::
  "bool \<Rightarrow> bool \<Rightarrow> nat \<Rightarrow> nat \<Rightarrow> atm_bridge \<Rightarrow> string option \<Rightarrow> string option \<Rightarrow> u32 \<Rightarrow> u32 \<Rightarrow> 'o net \<Rightarrow>
   int \<times> atm_bridge \<times> 'o net" where
  "atm_bridge_configure ok1 ok2 hc hp t eth_nio atm_nio vpi vci w =
     (if br_eth_nio t \<noteq> None \<or> br_atm_nio t \<noteq> None then (-1, t, w)
      else let (e_nio, w) = netio_acquire eth_nio w; (a_nio, w) = netio_acquire atm_nio w in
        case (e_nio, a_nio) of
          (Some e, Some a) \<Rightarrow>
            let t = t\<lparr>br_eth_nio := Some e, br_atm_nio := Some a, br_vpi := vpi, br_vci := vci\<rparr>;
                (res, w) = netio_rxl_add ok1 a hc w
            in if res = -1 then (-1, t, w)
               else let (res, w) = netio_rxl_add ok2 e hp w in
                 if res = -1 then (-1, t, w) else (0, t, w)
        | _ \<Rightarrow> (-1, t, w))"

definition atm_bridge_clear_config :: "atm_bridge \<Rightarrow> 'o net \<Rightarrow> atm_bridge \<times> 'o net" where
  "atm_bridge_clear_config t w =
     (let drop_nio = (\<lambda>nio w. case nio of None \<Rightarrow> w
            | Some p \<Rightarrow> let w = snd (netio_rxl_remove p w)
                in snd (netio_release (Some (nio_name (net_nio w p))) w));
          w = drop_nio (br_eth_nio t) w;
          w = drop_nio (br_atm_nio t) w
      in (t\<lparr>br_eth_nio := None, br_atm_nio := None\<rparr>, w))"

definition atm_bridge_unconfigure :: "atm_bridge \<Rightarrow> 'o net \<Rightarrow> int \<times> atm_bridge \<times> 'o net" where
  "atm_bridge_unconfigure t w = (0, atm_bridge_clear_config t w)"

definition atm_bridge_free :: "atm_bridge \<Rightarrow> 'o net \<Rightarrow> bool \<times> 'o net" where
  "atm_bridge_free t w = (True, snd (atm_bridge_clear_config t w))"

section \<open>Two bridges carry Ethernet frames\<close>

lemma cell_ids:
  assumes "unat vpi < 2 ^ 12" "unat vci < 2 ^ 16" "hdr = aal5_hdr vpi vci \<or> hdr = aal5_hdr vpi vci OR ATM_PTI_EOP"
  shows "cell_vpi (atm_cell hdr pl) = vpi" "cell_vci (atm_cell hdr pl) = vci"
proof -
  note small = bit_less_pow2 [OF assms(1)] bit_less_pow2 [OF assms(2)]
  have p: "ATM_PTI_EOP = 2 ^ 1" by (simp add: ATM_PTI_EOP_def)
  have eop: "bit ATM_PTI_EOP k \<longleftrightarrow> k = 1" for k unfolding p bit_exp_iff by auto
  have b: "bit hdr n \<longleftrightarrow> bit (aal5_hdr vpi vci) n" if "4 \<le> n" for n
    using assms(3) that by (auto simp: eop bit_or_iff)
  note bits = bit_cell_fields m_ntoh32_cell b aal5_hdr_def ATM_HDR_VPI_SHIFT_def ATM_HDR_VCI_SHIFT_def
    bit_or_iff bit_push_bit_iff
  show "cell_vpi (atm_cell hdr pl) = vpi"
    by (rule bit_word_eqI) (auto simp: bits dest: small)
  show "cell_vci (atm_cell hdr pl) = vci"
    by (rule bit_word_eqI) (auto simp: bits dest: small)
qed

definition bridge_recv_cells ::
  "'o os_send \<Rightarrow> bytes list \<Rightarrow> int list \<times> atm_bridge \<times> 'o net \<Rightarrow> int list \<times> atm_bridge \<times> 'o net" where
  "bridge_recv_cells os = fold (\<lambda>cell (rs, t, w).
     let (r, t, w) = atm_bridge_recv_cell os t cell w in (rs @ [r], t, w))"

lemma bridge_mid:
  assumes "reas_rel p (br_arc t)" "length p + 48 \<le> ATM_REAS_MAX_SIZE" "length pl = 48"
    "unat (br_vpi t) < 2 ^ 12" "unat (br_vci t) < 2 ^ 16"
  obtains arc' where "reas_rel (p @ pl) arc'"
    "atm_bridge_recv_cell os t (atm_cell (aal5_hdr (br_vpi t) (br_vci t)) pl) w = (0, t\<lparr>br_arc := arc'\<rparr>, w)"
proof -
  obtain arc' where a: "reas_rel (p @ pl) arc'"
    "atm_aal5_recv (br_arc t) (atm_cell (aal5_hdr (br_vpi t) (br_vci t)) pl) = (0, arc')"
    using reas_rel_step [OF assms(1-3) aal5_hdr_pti(1)] aal5_hdr_pti(3) by metis
  note ids = cell_ids [OF assms(4,5) disjI1 [OF refl]]
  have "length (atm_cell (aal5_hdr (br_vpi t) (br_vci t)) pl) = ATM_CELL_SIZE"
    using assms(3) by (simp add: drop_atm_cell ATM_CELL_SIZE_def ATM_HDR_SIZE_def ATM_PAYLOAD_SIZE_def)
  with a ids show ?thesis
    by (intro that [of arc']) (simp_all add: atm_bridge_recv_cell_def Let_def)
qed

lemma bridge_mids:
  assumes "reas_rel p (br_arc t)" "\<And>pl. pl \<in> set pls \<Longrightarrow> length pl = 48"
    "length p + length (concat pls) \<le> ATM_REAS_MAX_SIZE"
    "unat (br_vpi t) < 2 ^ 12" "unat (br_vci t) < 2 ^ 16"
  shows "\<exists>arc'. reas_rel (p @ concat pls) arc' \<and>
    bridge_recv_cells os (map (atm_cell (aal5_hdr (br_vpi t) (br_vci t))) pls) (rs, t, w) =
      (rs @ replicate (length pls) 0, t\<lparr>br_arc := arc'\<rparr>, w)"
  using assms
proof (induction pls arbitrary: p t rs)
  case Nil
  then show ?case by (simp add: bridge_recv_cells_def exI [of _ "br_arc t"])
next
  case (Cons pl pls)
  have len: "length pl = 48" "length p + 48 \<le> ATM_REAS_MAX_SIZE" using Cons.prems(2,3) by simp_all
  obtain arc' where 1: "reas_rel (p @ pl) arc'"
    "atm_bridge_recv_cell os t (atm_cell (aal5_hdr (br_vpi t) (br_vci t)) pl) w = (0, t\<lparr>br_arc := arc'\<rparr>, w)"
    by (rule bridge_mid [OF Cons.prems(1) len(2,1) Cons.prems(4,5)])
  have "\<exists>a. reas_rel ((p @ pl) @ concat pls) a \<and>
    bridge_recv_cells os (map (atm_cell (aal5_hdr (br_vpi (t\<lparr>br_arc := arc'\<rparr>)) (br_vci (t\<lparr>br_arc := arc'\<rparr>)))) pls)
      (rs @ [0], t\<lparr>br_arc := arc'\<rparr>, w) = ((rs @ [0]) @ replicate (length pls) 0, t\<lparr>br_arc := arc'\<rparr>\<lparr>br_arc := a\<rparr>, w)"
    by (rule Cons.IH) (use 1 Cons.prems len in simp_all)
  then show ?case using 1(2) by (simp add: bridge_recv_cells_def replicate_append_same [symmetric])
qed

lemma bridge_last:
  assumes "reas_rel p (br_arc t)" "length p + 48 \<le> ATM_REAS_MAX_SIZE"
    "length xs = 40" "length ys = 4" "pl = xs @ hton32_bytes (of_nat n) @ ys"
    "n < 65536" "n \<le> length p + 48" "ATM_RFC1483B_HLEN < n"
    "take n (p @ pl) = atm_rfc1483b_header @ pkt"
    "unat (br_vpi t) < 2 ^ 12" "unat (br_vci t) < 2 ^ 16"
    "br_eth_nio t = Some e" "plain_nio os w e"
  obtains arc' w' where "reas_rel [] arc'" "net_sent w' = net_sent w @ [(e, pkt)]" "filters_of w' = filters_of w"
    "atm_bridge_recv_cell os t (atm_cell (aal5_hdr (br_vpi t) (br_vci t) OR ATM_PTI_EOP) pl) w =
       (0, t\<lparr>br_arc := arc'\<rparr>, w')"
proof -
  let ?hdr = "aal5_hdr (br_vpi t) (br_vci t) OR ATM_PTI_EOP"
  have len: "length pl = 48" using assms(3-5) by (simp add: length_hton)
  have ln: "unat (m_ntoh16 (atm_cell ?hdr pl) 47) = n"
    using trailer_length [OF assms(3), of ?hdr "of_nat n" ys] assms(5,6)
    by (simp add: unsigned_ucast_eq unsigned_of_nat take_bit_nat_eq_self)
  have "\<exists>arc'. reas_rel (p @ pl) arc' \<and>
    atm_aal5_recv (br_arc t) (atm_cell ?hdr pl) = (1, arc'\<lparr>arc_len := n\<rparr>)"
    by (rule reas_rel_step [OF assms(1,2) len aal5_hdr_pti(2) [of "br_vpi t" "br_vci t"]])
       (use aal5_hdr_pti(4) [of "br_vpi t" "br_vci t"] ln assms(7) in \<open>auto intro: exI\<close>)
  then obtain arc' where a: "reas_rel (p @ pl) arc'"
    "atm_aal5_recv (br_arc t) (atm_cell ?hdr pl) = (1, arc'\<lparr>arc_len := n\<rparr>)" by blast
  have "take (length (p @ pl)) (arc_buffer arc') = p @ pl" using a(1) by (simp only: reas_rel_def)
  moreover have "n \<le> length (p @ pl)" using assms(7) len by simp
  ultimately have "take n (arc_buffer arc') = take n (p @ pl)" by (metis min.absorb1 take_take)
  then have buf: "take n (arc_buffer arc') = atm_rfc1483b_header @ pkt" using assms(9) by simp
  have h: "length atm_rfc1483b_header = 10" by (simp add: atm_rfc1483b_header_def)
  have "take 10 (take n (arc_buffer arc')) = atm_rfc1483b_header" "drop 10 (take n (arc_buffer arc')) = pkt"
    unfolding buf using h by simp_all
  then have parts: "take 10 (arc_buffer arc') = atm_rfc1483b_header" "take (n - 10) (drop 10 (arc_buffer arc')) = pkt"
    using assms(8) by (simp_all add: ATM_RFC1483B_HLEN_def drop_take min_def)
  obtain w' where w': "netio_send os (Some e) pkt w = (int (length pkt), w')"
    "net_sent w' = net_sent w @ [(e, pkt)]" "filters_of w' = filters_of w"
    by (rule netio_send_plain [OF assms(13)]) blast
  note ids = cell_ids [OF assms(10,11) disjI2 [OF refl]]
  have "length (atm_cell ?hdr pl) = ATM_CELL_SIZE"
    using len by (simp add: drop_atm_cell ATM_CELL_SIZE_def ATM_HDR_SIZE_def ATM_PAYLOAD_SIZE_def)
  moreover have "reas_rel [] (atm_aal5_recv_reset (arc'\<lparr>arc_len := n\<rparr>))"
    using a(1) by (simp add: reas_rel_reset reas_rel_def [of "p @ pl"])
  ultimately show ?thesis
    using a(2) ids assms(8,12) parts w'
    by (intro that [of "atm_aal5_recv_reset (arc'\<lparr>arc_len := n\<rparr>)" w'])
       (simp_all add: atm_bridge_recv_cell_def Let_def ATM_RFC1483B_HLEN_def)
qed

lemma bridge_packet:
  assumes "reas_rel [] (br_arc t)" "0 < length pkt" "length pkt \<le> 16350"
    "unat (br_vpi t) < 2 ^ 12" "unat (br_vci t) < 2 ^ 16"
    "br_eth_nio t = Some e" "plain_nio os w e"
  shows "\<exists>arc' w' k. reas_rel [] arc' \<and> net_sent w' = net_sent w @ [(e, pkt)] \<and> filters_of w' = filters_of w \<and>
    bridge_recv_cells os (aal5_cells (br_vpi t) (br_vci t) (atm_rfc1483b_header @ pkt)) (rs, t, w) =
      (rs @ replicate k 0, t\<lparr>br_arc := arc'\<rparr>, w')"
proof -
  let ?d = "atm_rfc1483b_header @ pkt"
  let ?ps = "payloads (aal5_pdu ?d)"
  have h: "length atm_rfc1483b_header = 10" by (simp add: atm_rfc1483b_header_def)
  obtain xs crc where parts: "aal5_pdu ?d = concat (butlast ?ps) @ xs @ hton32_bytes (of_nat (length ?d)) @ crc"
    "last ?ps = xs @ hton32_bytes (of_nat (length ?d)) @ crc"
    "length xs = 40" "take (length ?d) (aal5_pdu ?d) = ?d" "?ps \<noteq> []" by (rule aal5_pdu_parts)
  have dvd: "48 dvd length (aal5_pdu ?d)" by (simp add: length_aal5_pdu)
  have l48: "length pl = 48" if "pl \<in> set ?ps" for pl using payloads_48 [OF dvd that] .
  have "length (last ?ps) = 44 + length crc" unfolding parts(2) using parts(3) by (simp add: length_hton)
  then have crc: "length crc = 4" using l48 [OF last_in_set [OF parts(5)]] by simp
  have total: "length (concat (butlast ?ps)) + 48 = length (aal5_pdu ?d)"
    using arg_cong [OF parts(1), where f = length] parts(3) crc by (simp add: length_hton)
  have "(length ?d + 8 + 47) div 48 \<le> 341" using assms(3) h by (simp add: div_le_mono [of _ "16415" 48, simplified])
  then have max: "length (aal5_pdu ?d) \<le> ATM_REAS_MAX_SIZE"
    unfolding length_aal5_pdu by (simp add: ATM_REAS_MAX_SIZE_def)
  have "\<exists>arc'. reas_rel ([] @ concat (butlast ?ps)) arc' \<and>
      bridge_recv_cells os (map (atm_cell (aal5_hdr (br_vpi t) (br_vci t))) (butlast ?ps)) (rs, t, w) =
      (rs @ replicate (length (butlast ?ps)) 0, t\<lparr>br_arc := arc'\<rparr>, w)"
    by (rule bridge_mids [OF assms(1)]) (use l48 total max assms(4,5) in \<open>auto dest: in_set_butlastD\<close>)
  then obtain arc1 where 1: "reas_rel (concat (butlast ?ps)) arc1"
    "bridge_recv_cells os (map (atm_cell (aal5_hdr (br_vpi t) (br_vci t))) (butlast ?ps)) (rs, t, w) =
      (rs @ replicate (length (butlast ?ps)) 0, t\<lparr>br_arc := arc1\<rparr>, w)" by auto
  let ?t = "t\<lparr>br_arc := arc1\<rparr>"
  have "length ?d \<le> length (aal5_pdu ?d)" by (simp add: aal5_pdu_def aal5_body_def)
  then have fits: "length ?d \<le> length (concat (butlast ?ps)) + 48" using total by simp
  have all: "take (length ?d) (concat (butlast ?ps) @ last ?ps) = ?d"
    using parts(1,2,4) by simp
  obtain arc2 w2 where 2: "reas_rel [] arc2" "net_sent w2 = net_sent w @ [(e, pkt)]" "filters_of w2 = filters_of w"
    "atm_bridge_recv_cell os ?t (atm_cell (aal5_hdr (br_vpi ?t) (br_vci ?t) OR ATM_PTI_EOP) (last ?ps)) w =
       (0, ?t\<lparr>br_arc := arc2\<rparr>, w2)"
    by (rule bridge_last [of "concat (butlast ?ps)" ?t xs crc "last ?ps" "length ?d" pkt e os w])
       (use 1(1) total max parts(2,3) crc assms h fits all in \<open>simp_all add: ATM_RFC1483B_HLEN_def\<close>)
  have "bridge_recv_cells os (aal5_cells (br_vpi t) (br_vci t) ?d) (rs, t, w) =
      (rs @ replicate (Suc (length (butlast ?ps))) 0, t\<lparr>br_arc := arc2\<rparr>, w2)"
    using 1(2) 2(4) by (simp add: aal5_cells_def Let_def bridge_recv_cells_def replicate_append_same [symmetric])
  then show ?thesis using 2 by blast
qed

lemma bridge_packets:
  assumes "reas_rel [] (br_arc t)" "\<And>pkt. pkt \<in> set pkts \<Longrightarrow> 0 < length pkt \<and> length pkt \<le> 16350"
    "unat (br_vpi t) < 2 ^ 12" "unat (br_vci t) < 2 ^ 16"
    "br_eth_nio t = Some e" "plain_nio os w e"
  shows "\<exists>arc' w' k. reas_rel [] arc' \<and> net_sent w' = net_sent w @ map (Pair e) pkts \<and>
    bridge_recv_cells os
      (concat (map (\<lambda>pkt. aal5_cells (br_vpi t) (br_vci t) (atm_rfc1483b_header @ pkt)) pkts)) (rs, t, w) =
      (rs @ replicate k 0, t\<lparr>br_arc := arc'\<rparr>, w')"
  using assms
proof (induction pkts arbitrary: t w rs)
  case Nil
  then show ?case
    by (intro exI [of _ "br_arc t"] exI [of _ w] exI [of _ 0]) (simp add: bridge_recv_cells_def)
next
  case (Cons pkt pkts)
  obtain arc1 w1 k1 where 1: "reas_rel [] arc1" "net_sent w1 = net_sent w @ [(e, pkt)]" "filters_of w1 = filters_of w"
    "bridge_recv_cells os (aal5_cells (br_vpi t) (br_vci t) (atm_rfc1483b_header @ pkt)) (rs, t, w) =
      (rs @ replicate k1 0, t\<lparr>br_arc := arc1\<rparr>, w1)"
    using bridge_packet [OF Cons.prems(1) _ _ Cons.prems(3-6), of pkt rs] Cons.prems(2) by auto
  let ?t = "t\<lparr>br_arc := arc1\<rparr>"
  have "\<exists>arc' w' k. reas_rel [] arc' \<and> net_sent w' = net_sent w1 @ map (Pair e) pkts \<and>
    bridge_recv_cells os
      (concat (map (\<lambda>pkt. aal5_cells (br_vpi ?t) (br_vci ?t) (atm_rfc1483b_header @ pkt)) pkts))
      (rs @ replicate k1 0, ?t, w1) = ((rs @ replicate k1 0) @ replicate k 0, ?t\<lparr>br_arc := arc'\<rparr>, w')"
    by (rule Cons.IH) (use 1 Cons.prems plain_nio_filters [OF 1(3)] in simp_all)
  then obtain arc' w' k where 2: "reas_rel [] arc'" "net_sent w' = net_sent w1 @ map (Pair e) pkts"
    "bridge_recv_cells os
      (concat (map (\<lambda>pkt. aal5_cells (br_vpi t) (br_vci t) (atm_rfc1483b_header @ pkt)) pkts))
      (rs @ replicate k1 0, ?t, w1) = (rs @ replicate (k1 + k) 0, t\<lparr>br_arc := arc'\<rparr>, w')"
    by (auto simp: replicate_add)
  have "bridge_recv_cells os
      (concat (map (\<lambda>pkt. aal5_cells (br_vpi t) (br_vci t) (atm_rfc1483b_header @ pkt)) (pkt # pkts))) (rs, t, w) =
      (rs @ replicate (k1 + k) 0, t\<lparr>br_arc := arc'\<rparr>, w')"
    using 1(4) 2(3) by (simp add: bridge_recv_cells_def)
  then show ?case using 1(2) 2(1,2) by (intro exI [of _ arc'] exI [of _ w'] exI [of _ "k1 + k"]) simp
qed

definition bridge_send_pkts :: "'o os_send \<Rightarrow> atm_bridge \<Rightarrow> bytes list \<Rightarrow> 'o net \<Rightarrow> 'o net" where
  "bridge_send_pkts os t = fold (\<lambda>pkt w. snd (atm_bridge_recv_pkt os t pkt w))"

lemma bridge_sends:
  assumes "br_atm_nio t = Some q" "plain_nio os w q"
  shows "net_sent (bridge_send_pkts os t pkts w) = net_sent w @ map (Pair q)
    (concat (map (\<lambda>pkt. aal5_cells (br_vpi t) (br_vci t) (atm_rfc1483b_header @ pkt)) pkts))"
  using assms(2)
proof (induction pkts arbitrary: w)
  case (Cons pkt pkts)
  let ?w = "snd (atm_bridge_recv_pkt os t pkt w)"
  have "net_sent ?w = net_sent w @ map (Pair q) (aal5_cells (br_vpi t) (br_vci t) (atm_rfc1483b_header @ pkt))"
    "plain_nio os ?w q"
    using atm_aal5_send_spec [OF Cons.prems, of "br_vpi t" "br_vci t" "[atm_rfc1483b_header, pkt]"]
    by (simp_all add: atm_bridge_recv_pkt_def atm_aal5_send_rfc1483b_def assms(1) case_prod_beta)
  then show ?case using Cons.IH [of ?w] by (simp add: bridge_send_pkts_def)
qed (simp add: bridge_send_pkts_def)

text \<open>A bridge ready to receive on its circuit.\<close>

definition bridge_idle :: "atm_bridge \<Rightarrow> bool" where
  "bridge_idle t \<longleftrightarrow> length (arc_buffer (br_arc t)) = ATM_REAS_MAX_SIZE \<and> arc_buf_pos (br_arc t) = 0 \<and>
     unat (br_vpi t) < 2 ^ 12 \<and> unat (br_vci t) < 2 ^ 16"

lemma bridge_idle_reas: "bridge_idle t \<Longrightarrow> reas_rel [] (br_arc t)"
  by (simp add: bridge_idle_def reas_rel_def)

text \<open>
  C34: two ATM bridges joined by a virtual circuit carry Ethernet frames. Any sequence of
  frames of 1 to 16350 bytes handed to one bridge, segmented into cells and fed to the other
  bridge in order, comes out of its Ethernet NIO unchanged, each frame once and in order; no cell
  is refused.
\<close>

theorem atm_bridge_round_trip:
  assumes "br_atm_nio a = Some q" "plain_nio os w q"
    "bridge_idle b" "br_vpi b = br_vpi a" "br_vci b = br_vci a"
    "br_eth_nio b = Some e" "plain_nio os' v e"
    "\<And>pkt. pkt \<in> set pkts \<Longrightarrow> 0 < length pkt \<and> length pkt \<le> 16350"
    and cells: "map (Pair q) cells = drop (length (net_sent w)) (net_sent (bridge_send_pkts os a pkts w))"
  shows "case bridge_recv_cells os' cells ([], b, v) of (rs, b', v') \<Rightarrow>
    set rs \<subseteq> {0} \<and> net_sent v' = net_sent v @ map (Pair e) pkts \<and> bridge_idle b'"
proof -
  have "map (Pair q) cells = map (Pair q)
      (concat (map (\<lambda>pkt. aal5_cells (br_vpi b) (br_vci b) (atm_rfc1483b_header @ pkt)) pkts))"
    using cells bridge_sends [OF assms(1,2), of pkts] assms(4,5) by simp
  then have c: "cells = concat (map (\<lambda>pkt. aal5_cells (br_vpi b) (br_vci b) (atm_rfc1483b_header @ pkt)) pkts)"
    by (simp add: inj_map_eq_map inj_on_def)
  have r: "unat (br_vpi b) < 2 ^ 12" "unat (br_vci b) < 2 ^ 16" using assms(3) by (simp_all add: bridge_idle_def)
  obtain arc' v' k where 1: "reas_rel [] arc'" "net_sent v' = net_sent v @ map (Pair e) pkts"
    "bridge_recv_cells os' cells ([], b, v) = (replicate k 0, b\<lparr>br_arc := arc'\<rparr>, v')"
    using bridge_packets [OF bridge_idle_reas [OF assms(3)] assms(8) r assms(6,7), of pkts "[]"] unfolding c by auto
  have "bridge_idle (b\<lparr>br_arc := arc'\<rparr>)" using 1(1) r by (simp add: bridge_idle_def reas_rel_def)
  then show ?thesis using 1 by auto
qed

definition sample_bridge :: atm_bridge where
  "sample_bridge = (atm_bridge_new ''br'')\<lparr>br_eth_nio := Some 0, br_atm_nio := Some 1, br_vpi := 5, br_vci := 77\<rparr>"

lemma sample_bridge_idle: "bridge_idle sample_bridge"
  by (simp add: bridge_idle_def sample_bridge_def atm_bridge_new_def atm_aal5_recv_reset_def)

theorem atm_bridge_round_trip_witness:
  "\<exists>cells. map (Pair 1) cells = net_sent (bridge_send_pkts (\<lambda>_ _ pkt. int (length pkt)) sample_bridge [[1, 2, 3], replicate 1500 7] sample_net) \<and>
    (case bridge_recv_cells (\<lambda>_ _ pkt. int (length pkt)) cells ([], sample_bridge, sample_net) of (rs, b', v') \<Rightarrow>
      net_sent v' = [(0, [1, 2, 3]), (0, replicate 1500 7)])"
proof -
  let ?os = "\<lambda>_ _ pkt. int (length pkt)" and ?pkts = "[[1, 2, 3], replicate 1500 7] :: bytes list"
  let ?cells = "concat (map (\<lambda>pkt. aal5_cells 5 77 (atm_rfc1483b_header @ pkt)) ?pkts)"
  have b: "br_atm_nio sample_bridge = Some 1" "br_eth_nio sample_bridge = Some 0"
    "br_vpi sample_bridge = 5" "br_vci sample_bridge = 77" by (simp_all add: sample_bridge_def)
  have c: "map (Pair 1) ?cells = net_sent (bridge_send_pkts ?os sample_bridge ?pkts sample_net)"
    using bridge_sends [OF b(1) sample_net_plain(1), of ?pkts] unfolding sample_net_plain(2) b(3,4) by simp
  have "case bridge_recv_cells ?os ?cells ([], sample_bridge, sample_net) of (rs, b', v') \<Rightarrow>
    set rs \<subseteq> {0} \<and> net_sent v' = net_sent sample_net @ map (Pair 0) ?pkts \<and> bridge_idle b'"
    by (rule atm_bridge_round_trip [OF b(1) sample_net_plain(1) sample_bridge_idle refl refl b(2) sample_net_plain(1)])
       (use c in \<open>auto simp: sample_net_plain(2)\<close>)
  then show ?thesis using c unfolding sample_net_plain(2) by (intro exI [of _ ?cells]) (auto split: prod.splits)
qed

section \<open>Frames that are too long\<close>

text \<open>Whole cells fill the reassembly buffer up to 341 of them.\<close>

definition reas_ok :: "atm_reas_context \<Rightarrow> bool" where
  "reas_ok arc \<longleftrightarrow> length (arc_buffer arc) = ATM_REAS_MAX_SIZE \<and> 48 dvd arc_buf_pos arc \<and> arc_buf_pos arc \<le> 16368"

lemma reas_ok_step:
  assumes "reas_ok arc" "length pl = 48"
  shows "atm_aal5_recv arc (atm_cell (aal5_hdr vpi vci) pl) =
      (if arc_buf_pos arc = 16368 then (-1, atm_aal5_recv_reset arc)
       else (0, snd (atm_aal5_recv arc (atm_cell (aal5_hdr vpi vci) pl))))"
    and "reas_ok (snd (atm_aal5_recv arc (atm_cell (aal5_hdr vpi vci) pl)))"
    and "arc_buf_pos arc \<noteq> 16368 \<Longrightarrow>
      arc_buf_pos (snd (atm_aal5_recv arc (atm_cell (aal5_hdr vpi vci) pl))) = arc_buf_pos arc + 48"
proof -
  obtain k where k: "arc_buf_pos arc = 48 * k" "k \<le> 341" using assms(1) by (auto simp: reas_ok_def)
  then consider (full) "arc_buf_pos arc = 16368" | (room) "arc_buf_pos arc \<le> 16320" "arc_buf_pos arc \<noteq> 16368"
    by (cases "k = 341") auto
  note cases = this
  note defs = atm_aal5_recv_def m_ntoh32_cell aal5_hdr_pti atm_aal5_recv_reset_def ATM_PAYLOAD_SIZE_def ATM_REAS_MAX_SIZE_def
  show "atm_aal5_recv arc (atm_cell (aal5_hdr vpi vci) pl) =
      (if arc_buf_pos arc = 16368 then (-1, atm_aal5_recv_reset arc)
       else (0, snd (atm_aal5_recv arc (atm_cell (aal5_hdr vpi vci) pl))))"
    by (rule cases) (auto simp: defs)
  show "arc_buf_pos arc \<noteq> 16368 \<Longrightarrow>
      arc_buf_pos (snd (atm_aal5_recv arc (atm_cell (aal5_hdr vpi vci) pl))) = arc_buf_pos arc + 48"
    by (rule cases) (auto simp: defs)
  show "reas_ok (snd (atm_aal5_recv arc (atm_cell (aal5_hdr vpi vci) pl)))"
    by (rule cases) (use assms in \<open>auto simp: defs reas_ok_def ATM_HDR_SIZE_def drop_atm_cell length_memcpy_at\<close>)
qed

lemma bridge_mids_ok:
  assumes "reas_ok (br_arc t)" "\<And>pl. pl \<in> set pls \<Longrightarrow> length pl = 48"
    "unat (br_vpi t) < 2 ^ 12" "unat (br_vci t) < 2 ^ 16"
  shows "\<exists>rs' arc'. reas_ok arc' \<and>
    bridge_recv_cells os (map (atm_cell (aal5_hdr (br_vpi t) (br_vci t))) pls) (rs, t, w) = (rs', t\<lparr>br_arc := arc'\<rparr>, w) \<and>
    (arc_buf_pos (br_arc t) + 48 * length pls \<le> 16368 \<longrightarrow>
      arc_buf_pos arc' = arc_buf_pos (br_arc t) + 48 * length pls)"
  using assms
proof (induction pls arbitrary: t rs)
  case Nil
  then show ?case by (intro exI [of _ rs] exI [of _ "br_arc t"]) (simp add: bridge_recv_cells_def)
next
  case (Cons pl pls)
  let ?hdr = "aal5_hdr (br_vpi t) (br_vci t)"
  let ?arc = "snd (atm_aal5_recv (br_arc t) (atm_cell ?hdr pl))"
  have len: "length pl = 48" using Cons.prems(2) by simp
  note st = reas_ok_step [OF Cons.prems(1) len, of "br_vpi t" "br_vci t"]
  note ids = cell_ids [OF Cons.prems(3,4) disjI1 [OF refl]]
  have cl: "length (atm_cell ?hdr pl) = ATM_CELL_SIZE"
    using len by (simp add: drop_atm_cell ATM_CELL_SIZE_def ATM_HDR_SIZE_def ATM_PAYLOAD_SIZE_def)
  have one: "\<exists>r. atm_bridge_recv_cell os t (atm_cell ?hdr pl) w = (r, t\<lparr>br_arc := ?arc\<rparr>, w)"
  proof (cases "arc_buf_pos (br_arc t) = 16368")
    case True
    then have "atm_aal5_recv (br_arc t) (atm_cell ?hdr pl) = (-1, atm_aal5_recv_reset (br_arc t))" using st(1) by simp
    then show ?thesis using cl ids by (simp add: atm_bridge_recv_cell_def Let_def atm_aal5_recv_reset_def)
  next
    case False
    obtain r a where ra: "atm_aal5_recv (br_arc t) (atm_cell ?hdr pl) = (r, a)" by fastforce
    with False have "r = 0" using st(1) by simp
    then show ?thesis using cl ids ra by (simp add: atm_bridge_recv_cell_def Let_def)
  qed
  then obtain r where r: "atm_bridge_recv_cell os t (atm_cell ?hdr pl) w = (r, t\<lparr>br_arc := ?arc\<rparr>, w)" ..
  have "\<exists>rs' arc'. reas_ok arc' \<and>
    bridge_recv_cells os (map (atm_cell (aal5_hdr (br_vpi (t\<lparr>br_arc := ?arc\<rparr>)) (br_vci (t\<lparr>br_arc := ?arc\<rparr>)))) pls)
      (rs @ [r], t\<lparr>br_arc := ?arc\<rparr>, w) = (rs', t\<lparr>br_arc := ?arc\<rparr>\<lparr>br_arc := arc'\<rparr>, w) \<and>
    (arc_buf_pos (br_arc (t\<lparr>br_arc := ?arc\<rparr>)) + 48 * length pls \<le> 16368 \<longrightarrow>
      arc_buf_pos arc' = arc_buf_pos (br_arc (t\<lparr>br_arc := ?arc\<rparr>)) + 48 * length pls)"
    by (rule Cons.IH) (use st(2) Cons.prems in simp_all)
  then obtain rs' arc' where 2: "reas_ok arc'"
    "bridge_recv_cells os (map (atm_cell ?hdr) pls) (rs @ [r], t\<lparr>br_arc := ?arc\<rparr>, w) = (rs', t\<lparr>br_arc := arc'\<rparr>, w)"
    "arc_buf_pos ?arc + 48 * length pls \<le> 16368 \<longrightarrow> arc_buf_pos arc' = arc_buf_pos ?arc + 48 * length pls" by auto
  have "arc_buf_pos (br_arc t) + 48 * length (pl # pls) \<le> 16368 \<longrightarrow>
      arc_buf_pos arc' = arc_buf_pos (br_arc t) + 48 * length (pl # pls)"
    using 2(3) st(3) by fastforce
  then show ?case using 2(1,2) r by (intro exI [of _ rs'] exI [of _ arc']) (simp add: bridge_recv_cells_def)
qed

lemma length_payloads: "48 dvd length xs \<Longrightarrow> length xs = 48 * length (payloads xs)"
proof -
  assume dvd: "48 dvd length xs"
  have "map length (payloads xs) = replicate (length (payloads xs)) 48"
    using payloads_48 [OF dvd] by (intro replicate_eqI) auto
  then have "length (concat (payloads xs)) = length (payloads xs) * 48" by (simp add: length_concat sum_list_replicate)
  then show ?thesis by (simp add: payloads_concat)
qed

lemma oversize_last:
  assumes "reas_ok arc" "length pl = 48" "\<not> unat (m_ntoh16 (atm_cell hdr pl) 47) \<le> arc_buf_pos arc + 48"
    "hdr = aal5_hdr vpi vci OR ATM_PTI_EOP"
  shows "fst (atm_aal5_recv arc (atm_cell hdr pl)) < 0 \<and>
    length (arc_buffer (snd (atm_aal5_recv arc (atm_cell hdr pl)))) = ATM_REAS_MAX_SIZE"
proof (cases "arc_buf_pos arc + ATM_PAYLOAD_SIZE > ATM_REAS_MAX_SIZE")
  case True
  then show ?thesis using assms(1) by (simp add: atm_aal5_recv_def atm_aal5_recv_reset_def reas_ok_def)
next
  case False
  then have lim: "arc_buf_pos arc + 48 \<le> 16384" by (simp add: ATM_PAYLOAD_SIZE_def ATM_REAS_MAX_SIZE_def)
  have eop: "ATM_PTI_EOP \<noteq> 0" by (simp add: ATM_PTI_EOP_def)
  have pos: "Suc (Suc ATM_AAL5_TRAILER_POS) = 47"
    by (simp add: ATM_AAL5_TRAILER_POS_def ATM_CELL_SIZE_def ATM_HDR_SIZE_def ATM_PAYLOAD_SIZE_def ATM_AAL5_TRAILER_SIZE_def)
  show ?thesis
    using assms False lim
    by (simp add: atm_aal5_recv_def m_ntoh32_cell aal5_hdr_pti pos Let_def reas_ok_def drop_atm_cell
        ATM_PAYLOAD_SIZE_def ATM_HDR_SIZE_def length_memcpy_at ATM_REAS_MAX_SIZE_def eop)
qed

text \<open>Before the last cell of such a frame, the buffer holds less than the frame needs, or is full.\<close>

lemma oversize_position:
  assumes "reas_ok arc" "16361 \<le> n" "n + 8 \<le> 48 * (m + 1)" "48 * (m + 1) < n + 56"
    "48 * m \<le> 16368 \<longrightarrow> arc_buf_pos arc = 48 * m"
  shows "\<not> n \<le> arc_buf_pos arc + 48 \<or> arc_buf_pos arc = 16368"
proof (rule ccontr)
  assume a: "\<not> ?thesis"
  obtain k where k: "arc_buf_pos arc = 48 * k" "k \<le> 341" using assms(1) by (auto simp: reas_ok_def)
  with a have "k = 340" using assms(2) by auto
  then show False using a k assms(2-5) by auto
qed

text \<open>
  C36: frames too long for the reassembly buffer are lost whole. Feeding the cells of a frame of
  16351 to 65525 bytes to an idle bridge sends nothing, refuses the last cell, and leaves the
  bridge idle, ready for the next frame.
\<close>

theorem atm_bridge_oversize_lost:
  assumes "bridge_idle b" "16351 \<le> length pkt" "length pkt \<le> 65525"
  shows "case bridge_recv_cells os (aal5_cells (br_vpi b) (br_vci b) (atm_rfc1483b_header @ pkt)) ([], b, v) of
    (rs, b', v') \<Rightarrow> last rs = -1 \<and> v' = v \<and> bridge_idle b'"
proof -
  let ?d = "atm_rfc1483b_header @ pkt"
  let ?ps = "payloads (aal5_pdu ?d)" and ?n = "length (atm_rfc1483b_header @ pkt)"
  let ?hdr = "aal5_hdr (br_vpi b) (br_vci b)"
  have h: "length atm_rfc1483b_header = 10" by (simp add: atm_rfc1483b_header_def)
  have n: "16361 \<le> ?n" "?n < 65536" using assms(2,3) h by simp_all
  obtain xs crc where parts: "aal5_pdu ?d = concat (butlast ?ps) @ xs @ hton32_bytes (of_nat ?n) @ crc"
    "last ?ps = xs @ hton32_bytes (of_nat ?n) @ crc" "length xs = 40" "?ps \<noteq> []" by (rule aal5_pdu_parts)
  have dvd: "48 dvd length (aal5_pdu ?d)" by (simp add: length_aal5_pdu)
  have l48: "length pl = 48" if "pl \<in> set ?ps" for pl using payloads_48 [OF dvd that] .
  have r: "unat (br_vpi b) < 2 ^ 12" "unat (br_vci b) < 2 ^ 16" and idle: "length (arc_buffer (br_arc b)) = ATM_REAS_MAX_SIZE"
    "arc_buf_pos (br_arc b) = 0"
    using assms(1) by (simp_all add: bridge_idle_def)
  have "\<exists>rs' arc'. reas_ok arc' \<and>
    bridge_recv_cells os (map (atm_cell ?hdr) (butlast ?ps)) ([], b, v) = (rs', b\<lparr>br_arc := arc'\<rparr>, v) \<and>
    (arc_buf_pos (br_arc b) + 48 * length (butlast ?ps) \<le> 16368 \<longrightarrow>
      arc_buf_pos arc' = arc_buf_pos (br_arc b) + 48 * length (butlast ?ps))"
    by (rule bridge_mids_ok) (use l48 r idle in \<open>auto simp: reas_ok_def dest: in_set_butlastD\<close>)
  then obtain rs' arc1 where 1: "reas_ok arc1"
    "bridge_recv_cells os (map (atm_cell ?hdr) (butlast ?ps)) ([], b, v) = (rs', b\<lparr>br_arc := arc1\<rparr>, v)"
    "48 * length (butlast ?ps) \<le> 16368 \<longrightarrow> arc_buf_pos arc1 = 48 * length (butlast ?ps)"
    using idle(2) by auto
  have cnt: "length (aal5_pdu ?d) = 48 * (length (butlast ?ps) + 1)"
    using length_payloads [OF dvd] parts(4) by simp
  then have "?n + 8 \<le> 48 * (length (butlast ?ps) + 1)" "48 * (length (butlast ?ps) + 1) < ?n + 56"
    unfolding length_aal5_pdu using round_up_48 [of "?n + 8"] mod_less_divisor [of 48 "?n + 8"] by linarith+
  from oversize_position [OF 1(1) n(1) this 1(3)]
  have room: "\<not> ?n \<le> arc_buf_pos arc1 + 48 \<or> arc_buf_pos arc1 = 16368" .
  have last: "length (last ?ps) = 48" using l48 [OF last_in_set [OF parts(4)]] .
  have ln: "unat (m_ntoh16 (atm_cell (?hdr OR ATM_PTI_EOP) (last ?ps)) 47) = ?n"
    using trailer_length [OF parts(3), of "?hdr OR ATM_PTI_EOP" "of_nat ?n" crc] n(2) parts(2)
    by (simp add: unsigned_ucast_eq unsigned_of_nat take_bit_nat_eq_self del: length_append of_nat_add)
  have st: "fst (atm_aal5_recv arc1 (atm_cell (?hdr OR ATM_PTI_EOP) (last ?ps))) < 0 \<and>
      length (arc_buffer (snd (atm_aal5_recv arc1 (atm_cell (?hdr OR ATM_PTI_EOP) (last ?ps))))) = ATM_REAS_MAX_SIZE"
  proof (cases "arc_buf_pos arc1 = 16368")
    case True
    then show ?thesis using 1(1)
      by (simp add: atm_aal5_recv_def atm_aal5_recv_reset_def reas_ok_def ATM_PAYLOAD_SIZE_def ATM_REAS_MAX_SIZE_def)
  next
    case False
    then show ?thesis using oversize_last [OF 1(1) last _ refl] room ln by simp
  qed
  note ids = cell_ids [OF r disjI2 [OF refl]]
  have cl: "length (atm_cell (?hdr OR ATM_PTI_EOP) (last ?ps)) = ATM_CELL_SIZE"
    using last by (simp add: drop_atm_cell ATM_CELL_SIZE_def ATM_HDR_SIZE_def ATM_PAYLOAD_SIZE_def)
  obtain s a where sa: "atm_aal5_recv arc1 (atm_cell (?hdr OR ATM_PTI_EOP) (last ?ps)) = (s, a)" by fastforce
  have "atm_bridge_recv_cell os (b\<lparr>br_arc := arc1\<rparr>) (atm_cell (?hdr OR ATM_PTI_EOP) (last ?ps)) v =
      (-1, b\<lparr>br_arc := atm_aal5_recv_reset a\<rparr>, v)"
    using st sa cl ids by (simp add: atm_bridge_recv_cell_def Let_def)
  moreover have "bridge_idle (b\<lparr>br_arc := atm_aal5_recv_reset a\<rparr>)"
    using st sa r by (simp add: bridge_idle_def atm_aal5_recv_reset_def)
  ultimately show ?thesis
    using 1(2) by (simp add: aal5_cells_def Let_def bridge_recv_cells_def)
qed

theorem atm_bridge_oversize_lost_witness:
  "case bridge_recv_cells (\<lambda>_ _ pkt. int (length pkt)) (aal5_cells 5 77 (atm_rfc1483b_header @ replicate 20000 7))
     ([], sample_bridge, sample_net) of (rs, b', v') \<Rightarrow> last rs = -1 \<and> v' = sample_net \<and> bridge_idle b'"
proof -
  have b: "br_vpi sample_bridge = 5" "br_vci sample_bridge = 77" by (simp_all add: sample_bridge_def)
  have l: "16351 \<le> length (replicate 20000 (7 :: u8))" "length (replicate 20000 (7 :: u8)) \<le> 65525"
    unfolding length_replicate by simp_all
  show ?thesis using atm_bridge_oversize_lost [OF sample_bridge_idle l] unfolding b .
qed

text \<open>A configuration that names an unknown NIO fails, but keeps its reference to the other one.\<close>

lemma atm_bridge_configure_leaks:
  "case atm_bridge_configure True True 8 9 (atm_bridge_new ''br'') (Some ''a'') (Some ''zz'') 5 77 sample_net of (res, t', w') \<Rightarrow>
    res = -1 \<and> br_eth_nio t' = None \<and> reg_abs (net_reg sample_net) (''a'', OBJ_TYPE_NIO) = Some (0, 1) \<and>
    reg_abs (net_reg w') (''a'', OBJ_TYPE_NIO) = Some (0, 2)"
proof -
  define w1 where "w1 = snd (netio_acquire (Some ''a'') sample_net)"
  define w2 where "w2 = snd (netio_acquire (Some ''zz'') w1)"
  note a1 = netio_acquire_spec [OF sample_net_reg(1), of "Some ''a''", folded w1_def]
  note a2 = netio_acquire_spec [OF a1(2), of "Some ''zz''", folded w2_def]
  have p: "nio_ptr sample_net (Some ''zz'') = None"
    by (simp add: nio_ptr_def registry_exists_abs sample_net_reg)
  have acq: "netio_acquire (Some ''a'') sample_net = (Some 0, w1)" "netio_acquire (Some ''zz'') w1 = (None, w2)"
    using a1 a2 p by (simp_all add: prod_eq_iff w1_def w2_def)
  have r1: "reg_abs (net_reg sample_net) (''a'', OBJ_TYPE_NIO) = Some (0, 1)" by (simp add: sample_net_reg)
  have "net_reg w1 = snd (registry_find (net_reg sample_net) (Some ''a'') OBJ_TYPE_NIO)"
    by (simp add: w1_def netio_acquire_def split: prod.splits)
  then have r2: "reg_abs (net_reg w1) (''a'', OBJ_TYPE_NIO) = Some (0, 2)" "reg_inv (net_reg w1)"
    "reg_abs (net_reg w1) (''zz'', OBJ_TYPE_NIO) = None"
    using registry_find_hit [OF sample_net_reg(1) r1] by (simp_all add: sample_net_reg)
  have "net_reg w2 = net_reg w1"
    using registry_find_miss [OF r2(2,3)] by (simp add: w2_def netio_acquire_def split: prod.splits)
  then show ?thesis
    using r1 r2 by (simp add: atm_bridge_configure_def atm_bridge_new_def acq)
qed

end
