(* ===== verification/Eth_Switch.thy ===== *)
theory Eth_Switch
  imports Conn_Table
begin

text \<open>
  The virtual Ethernet switch (\<open>common/eth_switch.c\<close>): ports with their VLAN configuration
  (kept in the NIO descriptors), the MAC address table, 802.1Q tagging, flooding and
  forwarding. A packet is the receive buffer of its NIO with the number of bytes received.
\<close>

section \<open>Frames (net.h)\<close>

abbreviation (input) N_ETH_HLEN :: nat where "N_ETH_HLEN \<equiv> 14"
abbreviation (input) DOT1Q_HLEN :: nat where "DOT1Q_HLEN \<equiv> 16"

definition N_ETH_PROTO_DOT1Q :: u16 where "N_ETH_PROTO_DOT1Q = 0x8100"
definition N_ETH_PROTO_DOT1Q_2 :: u16 where "N_ETH_PROTO_DOT1Q_2 = 0x9100"
definition N_ETH_PROTO_DOT1Q_3 :: u16 where "N_ETH_PROTO_DOT1Q_3 = 0x9200"
definition N_ETH_PROTO_DOT1Q_4 :: u16 where "N_ETH_PROTO_DOT1Q_4 = 0x88A8"

definition tag_type :: "u16 \<Rightarrow> bool" where
  "tag_type et \<longleftrightarrow> et = N_ETH_PROTO_DOT1Q \<or> et = N_ETH_PROTO_DOT1Q_2 \<or>
     et = N_ETH_PROTO_DOT1Q_3 \<or> et = N_ETH_PROTO_DOT1Q_4"

definition eth_daddr :: "bytes \<Rightarrow> bytes" where "eth_daddr pkt = take 6 pkt"
definition eth_saddr :: "bytes \<Rightarrow> bytes" where "eth_saddr pkt = take 6 (drop 6 pkt)"

definition eth_addr_is_mcast :: "bytes \<Rightarrow> bool" where
  "eth_addr_is_mcast addr \<longleftrightarrow> addr ! 0 AND 1 \<noteq> 0"

definition eth_addr_is_cisco_isl :: "bytes \<Rightarrow> bool" where
  "eth_addr_is_cisco_isl addr \<longleftrightarrow> take 5 addr = [0x01, 0x00, 0x0c, 0x00, 0x00]"

definition eth_llc_check_snap :: "bytes \<Rightarrow> bool" where
  "eth_llc_check_snap llc \<longleftrightarrow> llc ! 0 = 0xAA \<and> llc ! 1 = 0xAA \<and> llc ! 2 = 0x03"

section \<open>State (eth_switch.h)\<close>

definition ETHSW_HASH_SIZE :: nat where "ETHSW_HASH_SIZE = 4096"
definition ETHSW_MAX_NIO :: nat where "ETHSW_MAX_NIO = 64"

definition ETHSW_PORT_TYPE_ACCESS :: nat where "ETHSW_PORT_TYPE_ACCESS = 1"
definition ETHSW_PORT_TYPE_DOT1Q :: nat where "ETHSW_PORT_TYPE_DOT1Q = 2"
definition ETHSW_PORT_TYPE_QINQ :: nat where "ETHSW_PORT_TYPE_QINQ = 3"
definition ETHSW_PORT_TYPE_ISL :: nat where "ETHSW_PORT_TYPE_ISL = 4"

lemmas port_types = ETHSW_PORT_TYPE_ACCESS_def ETHSW_PORT_TYPE_DOT1Q_def
  ETHSW_PORT_TYPE_QINQ_def ETHSW_PORT_TYPE_ISL_def

record ethsw_packet =
  sp_pkt :: bytes
  sp_pkt_len :: nat
  sp_input_port :: nat
  sp_input_vlan :: u32
  sp_input_tag :: bool

record ethsw_mac_entry =
  me_nio :: "nat option"
  me_mac_addr :: bytes
  me_vlan_id :: u16

record ethsw_table =
  es_name :: string
  es_nio :: "nat option list"
  es_mac :: "nat \<Rightarrow> ethsw_mac_entry"

definition no_mac_entry :: ethsw_mac_entry where
  "no_mac_entry = \<lparr>me_nio = None, me_mac_addr = replicate 6 0, me_vlan_id = 0\<rparr>"

definition ethsw_new :: "string \<Rightarrow> ethsw_table" where
  "ethsw_new name = \<lparr>es_name = name, es_nio = replicate ETHSW_MAX_NIO None, es_mac = (\<lambda>_. no_mac_entry)\<rparr>"

section \<open>The MAC address table\<close>

definition ethsw_hash_index :: "bytes \<Rightarrow> u32 \<Rightarrow> nat" where
  "ethsw_hash_index addr vlan =
     (let h = push_bit 8 (ucast (addr ! 0)) OR ucast (addr ! 1);
          h = h XOR (push_bit 8 (ucast (addr ! 2)) OR ucast (addr ! 3));
          h = h XOR (push_bit 8 (ucast (addr ! 4)) OR ucast (addr ! 5));
          h = h XOR vlan
      in unat (h AND of_nat (ETHSW_HASH_SIZE - 1)))"

definition ethsw_invalidate :: "ethsw_table \<Rightarrow> ethsw_table" where
  "ethsw_invalidate t = t\<lparr>es_mac := (\<lambda>_. no_mac_entry)\<rparr>"

definition ethsw_invalidate_port :: "ethsw_table \<Rightarrow> nat \<Rightarrow> ethsw_table" where
  "ethsw_invalidate_port t nio =
     t\<lparr>es_mac := (\<lambda>i. let entry = es_mac t i in
          if me_nio entry = Some nio then entry\<lparr>me_nio := None, me_vlan_id := 0\<rparr> else entry)\<rparr>"

section \<open>Tags\<close>

text \<open>The tag is the VLAN of the packet; the \<open>vlan\<close> argument of the C function is not used.\<close>

definition dot1q_push_tag :: "ethsw_packet \<Rightarrow> u16 \<Rightarrow> bytes" where
  "dot1q_push_tag sp et =
     (let pkt = replicate (sp_pkt_len sp + 4) 0;
          pkt = memcpy_at pkt 0 (take (N_ETH_HLEN - 2) (sp_pkt sp));
          pkt = m_hton16 pkt 12 et;
          pkt = m_hton16 pkt 14 (ucast (sp_input_vlan sp))
      in memcpy_at pkt DOT1Q_HLEN
           (take (sp_pkt_len sp - (N_ETH_HLEN - 2)) (drop (N_ETH_HLEN - 2) (sp_pkt sp))))"

text \<open>Below 16 bytes the second copy has a negative size.\<close>

definition dot1q_pop_tag :: "ethsw_packet \<Rightarrow> bytes outcome" where
  "dot1q_pop_tag sp =
     (if sp_pkt_len sp < DOT1Q_HLEN then Inl Bad_Memcpy
      else let pkt = replicate (sp_pkt_len sp - 4) 0;
               pkt = memcpy_at pkt 0 (take (N_ETH_HLEN - 2) (sp_pkt sp))
           in Inr (memcpy_at pkt (N_ETH_HLEN - 2)
                (take (sp_pkt_len sp - DOT1Q_HLEN) (drop DOT1Q_HLEN (sp_pkt sp)))))"

section \<open>Output\<close>

text \<open>\<open>mem\<close> tells for which output ports the temporary buffer can be allocated.\<close>

definition send_plain :: "'o os_send \<Rightarrow> ethsw_packet \<Rightarrow> nat \<Rightarrow> 'o net \<Rightarrow> 'o net outcome" where
  "send_plain os sp op w = Inr (snd (netio_send os (Some op) (take (sp_pkt_len sp) (sp_pkt sp)) w))"

definition send_pushed ::
  "'o os_send \<Rightarrow> (nat \<Rightarrow> bool) \<Rightarrow> ethsw_packet \<Rightarrow> nat \<Rightarrow> 'o net \<Rightarrow> 'o net outcome" where
  "send_pushed os mem sp op w =
     (if \<not> mem op then Inr w
      else Inr (snd (netio_send os (Some op) (dot1q_push_tag sp (ethertype (net_nio w (sp_input_port sp)))) w)))"

definition send_popped ::
  "'o os_send \<Rightarrow> (nat \<Rightarrow> bool) \<Rightarrow> ethsw_packet \<Rightarrow> nat \<Rightarrow> 'o net \<Rightarrow> 'o net outcome" where
  "send_popped os mem sp op w =
     (if \<not> mem op then Inr w
      else bind_out (dot1q_pop_tag sp) (\<lambda>pkt. Inr (snd (netio_send os (Some op) pkt w))))"

definition ethsw_iv_access ::
  "'o os_send \<Rightarrow> (nat \<Rightarrow> bool) \<Rightarrow> ethsw_packet \<Rightarrow> nat \<Rightarrow> 'o net \<Rightarrow> 'o net outcome" where
  "ethsw_iv_access os mem sp op w =
     (let nio = net_nio w op in
      if vlan_port_type nio = ETHSW_PORT_TYPE_ACCESS then send_plain os sp op w
      else if vlan_port_type nio = ETHSW_PORT_TYPE_DOT1Q then
        if ucast (vlan_id nio) = sp_input_vlan sp then send_plain os sp op w
        else send_pushed os mem sp op w
      else Inr w)"

definition ethsw_iv_dot1q ::
  "'o os_send \<Rightarrow> (nat \<Rightarrow> bool) \<Rightarrow> ethsw_packet \<Rightarrow> nat \<Rightarrow> 'o net \<Rightarrow> 'o net outcome" where
  "ethsw_iv_dot1q os mem sp op w =
     (if \<not> sp_input_tag sp then ethsw_iv_access os mem sp op w
      else let nio = net_nio w op in
        if vlan_port_type nio = ETHSW_PORT_TYPE_ACCESS then send_popped os mem sp op w
        else if vlan_port_type nio = ETHSW_PORT_TYPE_DOT1Q then
          if ucast (vlan_id nio) = sp_input_vlan sp then send_popped os mem sp op w
          else send_plain os sp op w
        else if vlan_port_type nio = ETHSW_PORT_TYPE_QINQ then
          if ucast (vlan_id nio) = sp_input_vlan sp then send_popped os mem sp op w else Inr w
        else Inr w)"

definition ethsw_iv_qinq ::
  "'o os_send \<Rightarrow> (nat \<Rightarrow> bool) \<Rightarrow> ethsw_packet \<Rightarrow> nat \<Rightarrow> 'o net \<Rightarrow> 'o net outcome" where
  "ethsw_iv_qinq os mem sp op w =
     (let nio = net_nio w op in
      if vlan_port_type nio = ETHSW_PORT_TYPE_DOT1Q then send_pushed os mem sp op w
      else if vlan_port_type nio = ETHSW_PORT_TYPE_QINQ then
        if vlan_id (net_nio w (sp_input_port sp)) = vlan_id nio then send_popped os mem sp op w else Inr w
      else Inr w)"

text \<open>The input vectors are function pointers of the descriptor, numbered here.\<close>

definition IV_ACCESS :: nat where "IV_ACCESS = 0"
definition IV_DOT1Q :: nat where "IV_DOT1Q = 1"
definition IV_QINQ :: nat where "IV_QINQ = 2"

lemmas iv_defs = IV_ACCESS_def IV_DOT1Q_def IV_QINQ_def

definition input_vector ::
  "'o os_send \<Rightarrow> (nat \<Rightarrow> bool) \<Rightarrow> ethsw_packet \<Rightarrow> nat \<Rightarrow> 'o net \<Rightarrow> 'o net outcome" where
  "input_vector os mem sp op w =
     (case vlan_input_vector (net_nio w (sp_input_port sp)) of None \<Rightarrow> Inl Assert_Failed
      | Some iv \<Rightarrow>
          if iv = IV_ACCESS then ethsw_iv_access os mem sp op w
          else if iv = IV_DOT1Q then ethsw_iv_dot1q os mem sp op w
          else ethsw_iv_qinq os mem sp op w)"

fun flood_loop ::
  "'o os_send \<Rightarrow> (nat \<Rightarrow> bool) \<Rightarrow> ethsw_packet \<Rightarrow> nat option list \<Rightarrow> 'o net \<Rightarrow> 'o net outcome" where
  "flood_loop os mem sp [] w = Inr w"
| "flood_loop os mem sp (p # ports) w =
     (case p of None \<Rightarrow> flood_loop os mem sp ports w
      | Some op \<Rightarrow>
          if op = sp_input_port sp then flood_loop os mem sp ports w
          else if vlan_port_type (net_nio w op) = ETHSW_PORT_TYPE_ACCESS \<and>
                  ucast (vlan_id (net_nio w op)) \<noteq> sp_input_vlan sp then flood_loop os mem sp ports w
          else bind_out (input_vector os mem sp op w) (flood_loop os mem sp ports))"

definition ethsw_flood ::
  "'o os_send \<Rightarrow> (nat \<Rightarrow> bool) \<Rightarrow> ethsw_table \<Rightarrow> ethsw_packet \<Rightarrow> 'o net \<Rightarrow> 'o net outcome" where
  "ethsw_flood os mem t sp w =
     (if vlan_input_vector (net_nio w (sp_input_port sp)) = None then Inl Assert_Failed
      else flood_loop os mem sp (es_nio t) w)"

definition ethsw_forward ::
  "'o os_send \<Rightarrow> (nat \<Rightarrow> bool) \<Rightarrow> ethsw_table \<Rightarrow> ethsw_packet \<Rightarrow> 'o net \<Rightarrow> (ethsw_table \<times> 'o net) outcome" where
  "ethsw_forward os mem t sp w =
     (let saddr = eth_saddr (sp_pkt sp); daddr = eth_daddr (sp_pkt sp);
          h = ethsw_hash_index saddr (sp_input_vlan sp);
          t = t\<lparr>es_mac := (es_mac t)(h :=
                \<lparr>me_nio = Some (sp_input_port sp), me_mac_addr = saddr, me_vlan_id = ucast (sp_input_vlan sp)\<rparr>)\<rparr>;
          out = (\<lambda>r. bind_out r (\<lambda>w. Inr (t, w)))
      in if eth_addr_is_mcast daddr then out (ethsw_flood os mem t sp w)
         else let entry = es_mac t (ethsw_hash_index daddr (sp_input_vlan sp)) in
           if me_mac_addr entry \<noteq> daddr \<or> ucast (me_vlan_id entry) \<noteq> sp_input_vlan sp
           then out (ethsw_flood os mem t sp w)
           else if me_nio entry \<noteq> Some (sp_input_port sp) then
             (case me_nio entry of None \<Rightarrow> Inl Null_Deref
              | Some op \<Rightarrow> out (input_vector os mem sp op w))
           else Inr (t, w))"

text \<open>
  An access or ISL port leaves \<open>input_tag\<close> uninitialised; only the vector of 802.1Q ports reads it.
\<close>

definition ethsw_receive ::
  "'o os_send \<Rightarrow> (nat \<Rightarrow> bool) \<Rightarrow> ethsw_table \<Rightarrow> nat \<Rightarrow> bytes \<Rightarrow> nat \<Rightarrow> 'o net \<Rightarrow>
   (int \<times> ethsw_table \<times> 'o net) outcome" where
  "ethsw_receive os mem t nio pkt pkt_len w =
     (if pkt_len < N_ETH_HLEN then Inr (-1, t, w)
      else
        let port = net_nio w nio;
            fwd = (\<lambda>vlan tag.
              if vlan \<noteq> 0 then
                bind_out (ethsw_forward os mem t
                    \<lparr>sp_pkt = pkt, sp_pkt_len = pkt_len, sp_input_port = nio, sp_input_vlan = vlan, sp_input_tag = tag\<rparr> w)
                  (\<lambda>(t, w). Inr (0, t, w))
              else Inr (0, t, w)) in
        if vlan_port_type port = ETHSW_PORT_TYPE_ACCESS then fwd (ucast (vlan_id port)) False
        else if vlan_port_type port = ETHSW_PORT_TYPE_DOT1Q then
          if \<not> tag_type (m_ntoh16 pkt 12) then fwd (ucast (vlan_id port)) False
          else fwd (ucast (m_ntoh16 pkt 14) AND 0xFFF) True
        else if vlan_port_type port = ETHSW_PORT_TYPE_QINQ then
          if \<not> tag_type (m_ntoh16 pkt 12) then Inr (-1, t, w)
          else fwd (ucast (vlan_id port)) False
        else if vlan_port_type port = ETHSW_PORT_TYPE_ISL then
          if \<not> eth_addr_is_cisco_isl (eth_daddr pkt) then Inr (0, t, w)
          else if \<not> eth_llc_check_snap (drop 14 pkt) then Inr (0, t, w)
          else fwd (drop_bit 1 (push_bit 8 (ucast (pkt ! 20)) OR ucast (pkt ! 21))) False
        else Inr (-1, t, w))"

definition ethsw_recv_pkt ::
  "'o os_send \<Rightarrow> (nat \<Rightarrow> bool) \<Rightarrow> bool \<Rightarrow> ethsw_table \<Rightarrow> nat \<Rightarrow> bytes \<Rightarrow> nat \<Rightarrow> 'o net \<Rightarrow>
   (int \<times> ethsw_table \<times> 'o net) outcome" where
  "ethsw_recv_pkt os mem trylock t nio pkt pkt_len w =
     (if trylock
      then bind_out (ethsw_receive os mem t nio pkt pkt_len w) (\<lambda>(_, t, w). Inr (0, t, w))
      else Inr (0, t, w))"

section \<open>Ports\<close>

definition set_access_port :: "'o netio_desc \<Rightarrow> u32 \<Rightarrow> 'o netio_desc" where
  "set_access_port nio vlan =
     nio\<lparr>vlan_port_type := ETHSW_PORT_TYPE_ACCESS, vlan_id := ucast vlan,
         vlan_input_vector := Some IV_ACCESS, ethertype := N_ETH_PROTO_DOT1Q\<rparr>"

definition set_dot1q_port :: "'o netio_desc \<Rightarrow> u32 \<Rightarrow> 'o netio_desc" where
  "set_dot1q_port nio native_vlan =
     nio\<lparr>vlan_port_type := ETHSW_PORT_TYPE_DOT1Q, vlan_id := ucast native_vlan,
         vlan_input_vector := Some IV_DOT1Q, ethertype := N_ETH_PROTO_DOT1Q\<rparr>"

definition set_qinq_port :: "'o netio_desc \<Rightarrow> u32 \<Rightarrow> u16 \<Rightarrow> 'o netio_desc" where
  "set_qinq_port nio outer_vlan et =
     nio\<lparr>vlan_port_type := ETHSW_PORT_TYPE_QINQ, vlan_id := ucast outer_vlan,
         vlan_input_vector := Some IV_QINQ, ethertype := et\<rparr>"

fun free_slot :: "nat option list \<Rightarrow> nat option" where
  "free_slot [] = None"
| "free_slot (p # ps) = (if p = None then Some 0 else map_option Suc (free_slot ps))"

fun slot_of :: "nat \<Rightarrow> nat option list \<Rightarrow> nat option" where
  "slot_of nio [] = None"
| "slot_of nio (p # ps) = (if p = Some nio then Some 0 else map_option Suc (slot_of nio ps))"

text \<open>
  \<open>handler\<close> numbers \<open>ethsw_recv_pkt\<close> on this switch; the result of \<open>netio_rxl_add\<close> is ignored.
\<close>

definition ethsw_add_netio ::
  "bool \<Rightarrow> nat \<Rightarrow> ethsw_table \<Rightarrow> string option \<Rightarrow> 'o net \<Rightarrow> int \<times> ethsw_table \<times> 'o net" where
  "ethsw_add_netio rxl_ok handler t name w =
     (case free_slot (es_nio t) of None \<Rightarrow> (-1, t, w)
      | Some i \<Rightarrow>
          (case netio_acquire name w of
             (None, w) \<Rightarrow> (-1, t, w)
           | (Some nio, w) \<Rightarrow>
               let w = upd_nio nio (set_access_port (net_nio w nio) 1) w;
                   t = t\<lparr>es_nio := (es_nio t)[i := Some nio]\<rparr>;
                   (_, w) = netio_rxl_add rxl_ok nio handler w
               in (0, t, w)))"

definition ethsw_free_nio :: "nat \<Rightarrow> 'o net \<Rightarrow> 'o net" where
  "ethsw_free_nio nio w =
     (let w = snd (netio_rxl_remove nio w) in snd (netio_release (Some (nio_name (net_nio w nio))) w))"

definition ethsw_remove_netio ::
  "ethsw_table \<Rightarrow> string option \<Rightarrow> 'o net \<Rightarrow> int \<times> ethsw_table \<times> 'o net" where
  "ethsw_remove_netio t name w =
     (case registry_exists (net_reg w) name OBJ_TYPE_NIO of None \<Rightarrow> (-1, t, w)
      | Some nio \<Rightarrow>
          (case slot_of nio (es_nio t) of None \<Rightarrow> (-1, t, w)
           | Some i \<Rightarrow>
               let t = ethsw_invalidate_port t nio; t = t\<lparr>es_nio := (es_nio t)[i := None]\<rparr>
               in (0, t, ethsw_free_nio nio w)))"

definition ethsw_clear_mac_addr_table :: "ethsw_table \<Rightarrow> int \<times> ethsw_table" where
  "ethsw_clear_mac_addr_table t = (0, ethsw_invalidate t)"

text \<open>The entries the callback is given, in order.\<close>

definition ethsw_iterate_mac_addr_table :: "ethsw_table \<Rightarrow> ethsw_mac_entry list" where
  "ethsw_iterate_mac_addr_table t =
     filter (\<lambda>entry. me_nio entry \<noteq> None) (map (es_mac t) [0..<ETHSW_HASH_SIZE])"

definition port_named :: "ethsw_table \<Rightarrow> string \<Rightarrow> 'o net \<Rightarrow> nat option" where
  "port_named t name w =
     (case List.find (\<lambda>p. case p of None \<Rightarrow> False | Some nio \<Rightarrow> nio_name (net_nio w nio) = name) (es_nio t) of
        Some (Some nio) \<Rightarrow> Some nio | _ \<Rightarrow> None)"

definition ethsw_set_access_port :: "ethsw_table \<Rightarrow> string \<Rightarrow> u32 \<Rightarrow> 'o net \<Rightarrow> int \<times> 'o net" where
  "ethsw_set_access_port t name vlan w =
     (case port_named t name w of None \<Rightarrow> (-1, w)
      | Some nio \<Rightarrow> (0, upd_nio nio (set_access_port (net_nio w nio) vlan) w))"

definition ethsw_set_dot1q_port :: "ethsw_table \<Rightarrow> string \<Rightarrow> u32 \<Rightarrow> 'o net \<Rightarrow> int \<times> 'o net" where
  "ethsw_set_dot1q_port t name native_vlan w =
     (case port_named t name w of None \<Rightarrow> (-1, w)
      | Some nio \<Rightarrow> (0, upd_nio nio (set_dot1q_port (net_nio w nio) native_vlan) w))"

definition ethsw_set_qinq_port :: "ethsw_table \<Rightarrow> string \<Rightarrow> u32 \<Rightarrow> u16 \<Rightarrow> 'o net \<Rightarrow> int \<times> 'o net" where
  "ethsw_set_qinq_port t name outer_vlan et w =
     (if \<not> tag_type et then (-1, w)
      else case port_named t name w of None \<Rightarrow> (-1, w)
      | Some nio \<Rightarrow> (0, upd_nio nio (set_qinq_port (net_nio w nio) outer_vlan et) w))"

section \<open>Saving and freeing\<close>

datatype ethsw_line =
    Add_Nio string string
  | Set_Access_Port string string u16
  | Set_Dot1q_Port string string u16
  | Set_Qinq_Port string string u16 u16

fun save_ports :: "string \<Rightarrow> 'o net \<Rightarrow> nat option list \<Rightarrow> ethsw_line list outcome" where
  "save_ports name w [] = Inr []"
| "save_ports name w (p # ps) =
     (case p of None \<Rightarrow> Inl Null_Deref
      | Some nio \<Rightarrow>
          let d = net_nio w nio;
              lines = Add_Nio name (nio_name d) #
                (if vlan_port_type d = ETHSW_PORT_TYPE_ACCESS then [Set_Access_Port name (nio_name d) (vlan_id d)]
                 else if vlan_port_type d = ETHSW_PORT_TYPE_DOT1Q then [Set_Dot1q_Port name (nio_name d) (vlan_id d)]
                 else if vlan_port_type d = ETHSW_PORT_TYPE_QINQ
                 then [Set_Qinq_Port name (nio_name d) (vlan_id d) (ethertype d)] else [])
          in bind_out (save_ports name w ps) (\<lambda>ls. Inr (lines @ ls)))"

definition ethsw_save_config :: "ethsw_table \<Rightarrow> 'o net \<Rightarrow> ethsw_line list outcome" where
  "ethsw_save_config t w = save_ports (es_name t) w (es_nio t)"

definition ethsw_free :: "ethsw_table \<Rightarrow> 'o net \<Rightarrow> bool \<times> 'o net" where
  "ethsw_free t w = (True, fold (\<lambda>p w. case p of None \<Rightarrow> w | Some nio \<Rightarrow> ethsw_free_nio nio w) (es_nio t) w)"

section \<open>What the tags do to a frame\<close>

lemma push_tag_eq:
  assumes "14 \<le> sp_pkt_len sp" "sp_pkt_len sp \<le> length (sp_pkt sp)"
  shows "dot1q_push_tag sp et = take 12 (sp_pkt sp) @ hton16_bytes et @ hton16_bytes (ucast (sp_input_vlan sp)) @
    take (sp_pkt_len sp - 12) (drop 12 (sp_pkt sp))"
proof -
  define n where "n = sp_pkt_len sp - 12"
  then have n: "sp_pkt_len sp = 12 + n" "2 \<le> n" using assms(1) by simp_all
  show ?thesis
    using n assms(2) by (simp add: dot1q_push_tag_def m_hton16_def memcpy_at_def length_hton Let_def min_def) linarith
qed

lemma pop_tag_eq:
  assumes "16 \<le> sp_pkt_len sp" "sp_pkt_len sp \<le> length (sp_pkt sp)"
  shows "dot1q_pop_tag sp = Inr (take 12 (sp_pkt sp) @ take (sp_pkt_len sp - 16) (drop 16 (sp_pkt sp)))"
proof -
  have "sp_pkt_len sp - 4 = 12 + (sp_pkt_len sp - 16)" using assms(1) by simp
  then show ?thesis using assms by (simp add: dot1q_pop_tag_def memcpy_at_def Let_def min_def)
qed

text \<open>How a receiver on a port of the given configuration reads a frame: its VLAN and its untagged form.\<close>

definition frame_tagged :: "bytes \<Rightarrow> bool" where
  "frame_tagged f \<longleftrightarrow> tag_type (m_ntoh16 f 12)"

definition frame_vlan :: "'o netio_desc \<Rightarrow> bytes \<Rightarrow> u32" where
  "frame_vlan port f =
     (if vlan_port_type port = ETHSW_PORT_TYPE_DOT1Q \<and> frame_tagged f then ucast (m_ntoh16 f 14) AND 0xFFF
      else ucast (vlan_id port))"

definition frame_body :: "'o netio_desc \<Rightarrow> bytes \<Rightarrow> bytes" where
  "frame_body port f =
     (if vlan_port_type port = ETHSW_PORT_TYPE_DOT1Q \<and> frame_tagged f then take 12 f @ drop 16 f else f)"

definition vlan_port :: "'o netio_desc \<Rightarrow> bool" where
  "vlan_port port \<longleftrightarrow> tag_type (ethertype port) \<and> unat (vlan_id port) < 4096 \<and>
     (vlan_port_type port = ETHSW_PORT_TYPE_ACCESS \<and> vlan_input_vector port = Some IV_ACCESS \<or>
      vlan_port_type port = ETHSW_PORT_TYPE_DOT1Q \<and> vlan_input_vector port = Some IV_DOT1Q)"

lemma ntoh16_app: "i + 2 \<le> length xs \<Longrightarrow> m_ntoh16 (xs @ ys) i = m_ntoh16 xs i"
  by (simp add: m_ntoh16_def nth_append)

lemma ntoh16_at: "length xs = i \<Longrightarrow> m_ntoh16 (xs @ hton16_bytes v @ ys) i = v"
proof -
  assume "length xs = i"
  then have "m_ntoh16 (xs @ hton16_bytes v @ ys) i = m_ntoh16 (hton16_bytes v) 0"
    by (simp add: m_ntoh16_def nth_append length_hton)
  also have "\<dots> = v"
    by (rule bit_word_eqI) (auto simp: m_ntoh16_def hton16_bytes_def bit_or_iff bit_push_bit_iff bit_ucast_iff bit_drop_bit_eq)
  finally show ?thesis .
qed

lemma ntoh16_take: "i + 2 \<le> n \<Longrightarrow> n \<le> length xs \<Longrightarrow> m_ntoh16 (take n xs) i = m_ntoh16 xs i"
  by (simp add: m_ntoh16_def)

text \<open>The three ways to send: as is, with a tag, without its tag.\<close>

lemma frame_forms:
  assumes "12 \<le> length f" "tag_type et" "unat v < 4096"
  shows "vlan_port_type port = ETHSW_PORT_TYPE_DOT1Q \<Longrightarrow>
      frame_vlan port (take 12 f @ hton16_bytes et @ hton16_bytes (ucast v) @ drop 12 f) = v"
    and "vlan_port_type port = ETHSW_PORT_TYPE_DOT1Q \<Longrightarrow>
      frame_body port (take 12 f @ hton16_bytes et @ hton16_bytes (ucast v) @ drop 12 f) = f"
proof -
  let ?f = "take 12 f @ hton16_bytes et @ hton16_bytes (ucast v) @ drop 12 f"
  have et: "m_ntoh16 ?f 12 = et" using assms(1) by (intro ntoh16_at) simp
  have "m_ntoh16 ((take 12 f @ hton16_bytes et) @ hton16_bytes (ucast v) @ drop 12 f) 14 = ucast v"
    using assms(1) by (intro ntoh16_at) (simp add: length_hton)
  then have vl: "m_ntoh16 ?f 14 = ucast v" by simp
  have "ucast (ucast v :: u16) AND 0xFFF = v"
  proof -
    have m: "(0xFFF :: u32) = mask 12" by (simp add: mask_eq_exp_minus_1)
    have "unat v < 2 ^ 12" using assms(3) by simp
    then have "bit v n \<Longrightarrow> n < 12" for n by (rule bit_less_pow2)
    then show ?thesis
      unfolding m by (intro bit_word_eqI) (fastforce simp: bit_and_iff bit_mask_iff bit_ucast_iff)
  qed
  then show "vlan_port_type port = ETHSW_PORT_TYPE_DOT1Q \<Longrightarrow> frame_vlan port ?f = v"
    using assms(2) et vl by (simp add: frame_vlan_def frame_tagged_def)
  have "take 12 ?f @ drop 16 ?f = f" using assms(1) by (simp add: length_hton)
  then show "vlan_port_type port = ETHSW_PORT_TYPE_DOT1Q \<Longrightarrow> frame_body port ?f = f"
    using assms(2) et by (simp add: frame_body_def frame_tagged_def)
qed
section \<open>Sending leaves the configuration of the ports alone\<close>

definition port_cfg :: "'o net \<Rightarrow> nat \<Rightarrow> nat \<times> u16 \<times> nat option \<times> u16 \<times> string" where
  "port_cfg w p = (let d = net_nio w p in
     (vlan_port_type d, vlan_id d, vlan_input_vector d, ethertype d, nio_name d))"

lemma netio_send_cfg [simp]: "port_cfg (snd (netio_send os q pkt w)) = port_cfg w"
  by (auto simp: netio_send_def netio_tx_def port_cfg_def Let_def upd_nio_def fun_eq_iff netio_update_bw_stat_def
      split: option.splits prod.splits)

lemma port_cfgD:
  assumes "port_cfg w' = port_cfg w"
  shows "vlan_port_type (net_nio w' p) = vlan_port_type (net_nio w p)" "vlan_id (net_nio w' p) = vlan_id (net_nio w p)"
    "vlan_input_vector (net_nio w' p) = vlan_input_vector (net_nio w p)" "ethertype (net_nio w' p) = ethertype (net_nio w p)"
    "nio_name (net_nio w' p) = nio_name (net_nio w p)"
  using fun_cong [OF assms, of p] by (simp_all add: port_cfg_def Let_def)

lemma frame_cfg:
  assumes "port_cfg w' = port_cfg w"
  shows "frame_vlan (net_nio w' p) = frame_vlan (net_nio w p)" "frame_body (net_nio w' p) = frame_body (net_nio w p)"
    "vlan_port (net_nio w' p) = vlan_port (net_nio w p)"
  by (auto simp: frame_vlan_def frame_body_def vlan_port_def fun_eq_iff port_cfgD [OF assms])

text \<open>A packet as \<open>ethsw_receive\<close> hands it to the output side: a frame that is tagged at most once.\<close>

definition vlan_packet :: "'o net \<Rightarrow> ethsw_packet \<Rightarrow> bool" where
  "vlan_packet w sp \<longleftrightarrow>
     (let port = net_nio w (sp_input_port sp); f = take (sp_pkt_len sp) (sp_pkt sp) in
      vlan_port port \<and> sp_pkt_len sp \<le> length (sp_pkt sp) \<and> 14 \<le> length (frame_body port f) \<and>
      \<not> frame_tagged (frame_body port f) \<and> sp_input_vlan sp = frame_vlan port f \<and>
      (sp_input_tag sp \<longleftrightarrow> vlan_port_type port = ETHSW_PORT_TYPE_DOT1Q \<and> frame_tagged f))"

abbreviation sp_frame :: "ethsw_packet \<Rightarrow> bytes" where
  "sp_frame sp \<equiv> take (sp_pkt_len sp) (sp_pkt sp)"

abbreviation sp_body :: "'o net \<Rightarrow> ethsw_packet \<Rightarrow> bytes" where
  "sp_body w sp \<equiv> frame_body (net_nio w (sp_input_port sp)) (sp_frame sp)"

lemma unat_ucast_16_32: "unat (ucast (x :: u16) :: u32) = unat x"
  using unsigned_less [of x, where 'a = nat] by (simp add: unsigned_ucast_eq take_bit_nat_eq_self)

lemma frame_vlan_small: "vlan_port port \<Longrightarrow> unat (frame_vlan port f) < 4096"
proof -
  assume p: "vlan_port port"
  have le: "unat (x AND 0xFFF :: u32) \<le> 4095" for x
    using word_and_le1 [of x "0xFFF :: u32"] by (simp add: word_le_nat_alt)
  have "unat (x AND 0xFFF :: u32) < 4096" for x
    using le [of x] by linarith
  then show ?thesis using p by (auto simp: frame_vlan_def vlan_port_def unat_ucast_16_32)
qed

lemma packet_forms:
  assumes v: "vlan_packet w sp" and op: "vlan_port port"
  shows "sp_input_tag sp \<Longrightarrow> dot1q_pop_tag sp = Inr (sp_body w sp)"
    and "\<not> sp_input_tag sp \<Longrightarrow> sp_body w sp = sp_frame sp"
    and "\<not> sp_input_tag sp \<Longrightarrow> tag_type et \<Longrightarrow> vlan_port_type port = ETHSW_PORT_TYPE_DOT1Q \<Longrightarrow>
      frame_vlan port (dot1q_push_tag sp et) = sp_input_vlan sp \<and> frame_body port (dot1q_push_tag sp et) = sp_body w sp"
    and "ucast (vlan_id port) = sp_input_vlan sp \<Longrightarrow>
      frame_vlan port (sp_body w sp) = sp_input_vlan sp \<and> frame_body port (sp_body w sp) = sp_body w sp"
    and "sp_input_tag sp \<Longrightarrow> vlan_port_type port = ETHSW_PORT_TYPE_DOT1Q \<Longrightarrow>
      frame_vlan port (sp_frame sp) = sp_input_vlan sp \<and> frame_body port (sp_frame sp) = sp_body w sp"
proof -
  let ?in = "net_nio w (sp_input_port sp)" and ?f = "sp_frame sp"
  have p: "vlan_port ?in" "sp_pkt_len sp \<le> length (sp_pkt sp)" "14 \<le> length (sp_body w sp)"
    "\<not> frame_tagged (sp_body w sp)" "sp_input_vlan sp = frame_vlan ?in ?f"
    "sp_input_tag sp \<longleftrightarrow> vlan_port_type ?in = ETHSW_PORT_TYPE_DOT1Q \<and> frame_tagged ?f"
    using v by (simp_all add: vlan_packet_def Let_def)
  have small: "unat (sp_input_vlan sp) < 4096" using frame_vlan_small [OF p(1)] p(5) by simp
  show untag: "\<not> sp_input_tag sp \<Longrightarrow> sp_body w sp = ?f"
    using p(6) by (auto simp: frame_body_def)
  show "sp_input_tag sp \<Longrightarrow> dot1q_pop_tag sp = Inr (sp_body w sp)"
  proof -
    assume t: "sp_input_tag sp"
    then have b: "sp_body w sp = take 12 ?f @ drop 16 ?f" using p(6) by (simp add: frame_body_def)
    have "18 \<le> sp_pkt_len sp" using p(2,3) b by simp
    then show ?thesis using pop_tag_eq [of sp] p(2) b by (simp add: drop_take min_def)
  qed
  show "frame_vlan port (dot1q_push_tag sp et) = sp_input_vlan sp \<and> frame_body port (dot1q_push_tag sp et) = sp_body w sp"
    if t: "\<not> sp_input_tag sp" and et: "tag_type et" and d: "vlan_port_type port = ETHSW_PORT_TYPE_DOT1Q"
  proof -
    have len: "14 \<le> sp_pkt_len sp" using p(3) untag [OF t] by simp
    then have push: "dot1q_push_tag sp et =
        take 12 ?f @ hton16_bytes et @ hton16_bytes (ucast (sp_input_vlan sp)) @ drop 12 ?f"
      using push_tag_eq [of sp et] p(2) by (simp add: drop_take min_def)
    have "12 \<le> length ?f" using len p(2) by simp
    note ff = frame_forms [OF this et small]
    show ?thesis unfolding push untag [OF t] using ff d by blast
  qed
  show "frame_vlan port (sp_body w sp) = sp_input_vlan sp \<and> frame_body port (sp_body w sp) = sp_body w sp"
    if "ucast (vlan_id port) = sp_input_vlan sp"
    using p(4) that by (simp add: frame_vlan_def frame_body_def [of port])
  show "frame_vlan port ?f = sp_input_vlan sp \<and> frame_body port ?f = sp_body w sp"
    if "sp_input_tag sp" "vlan_port_type port = ETHSW_PORT_TYPE_DOT1Q"
    using p(5,6) that by (simp add: frame_vlan_def frame_body_def)
qed

text \<open>One output port.\<close>

definition delivered :: "'o os_send \<Rightarrow> 'o net \<Rightarrow> ethsw_packet \<Rightarrow> nat \<Rightarrow> 'o net \<Rightarrow> bool" where
  "delivered os w sp op w' \<longleftrightarrow> (\<exists>out. net_sent w' = net_sent w @ [(op, out)] \<and>
     frame_vlan (net_nio w op) out = sp_input_vlan sp \<and> frame_body (net_nio w op) out = sp_body w sp) \<and>
     port_cfg w' = port_cfg w \<and> filters_of w' = filters_of w"

lemma send_delivers:
  assumes "plain_nio os w op" "frame_vlan (net_nio w op) out = sp_input_vlan sp"
    "frame_body (net_nio w op) out = sp_body w sp"
  shows "delivered os w sp op (snd (netio_send os (Some op) out w))"
proof -
  obtain w' where "netio_send os (Some op) out w = (int (length out), w')" "net_sent w' = net_sent w @ [(op, out)]"
    "filters_of w' = filters_of w"
    by (rule netio_send_plain [OF assms(1)]) blast
  then show ?thesis
    using assms(2,3) netio_send_cfg [of os "Some op" out w] by (simp add: delivered_def)
qed

lemma input_vector_delivers:
  assumes v: "vlan_packet w sp" and op: "vlan_port (net_nio w op)" "plain_nio os w op" "mem op"
    and acc: "vlan_port_type (net_nio w op) = ETHSW_PORT_TYPE_ACCESS \<Longrightarrow> ucast (vlan_id (net_nio w op)) = sp_input_vlan sp"
  shows "\<exists>w'. input_vector os mem sp op w = Inr w' \<and> delivered os w sp op w'"
proof -
  let ?in = "net_nio w (sp_input_port sp)" and ?op = "net_nio w op"
  have inp: "vlan_port ?in" and tag: "sp_input_tag sp \<longleftrightarrow> vlan_port_type ?in = ETHSW_PORT_TYPE_DOT1Q \<and> frame_tagged (sp_frame sp)"
    using v by (simp_all add: vlan_packet_def Let_def)
  have et: "tag_type (ethertype ?in)" using inp by (simp add: vlan_port_def)
  note forms = packet_forms [OF v op(1)]
  note send = send_delivers [OF op(2)]
  have access: "\<exists>w'. ethsw_iv_access os mem sp op w = Inr w' \<and> delivered os w sp op w'" if "\<not> sp_input_tag sp"
    using op(1,3) acc that forms(2) [OF that] forms(3) [OF that et] forms(4)
    by (auto simp: ethsw_iv_access_def send_plain_def send_pushed_def vlan_port_def port_types intro!: send)
  have dot1q: "\<exists>w'. ethsw_iv_dot1q os mem sp op w = Inr w' \<and> delivered os w sp op w'" if "sp_input_tag sp"
    using op(1,3) acc that forms(1) [OF that] forms(4) forms(5) [OF that]
    by (auto simp: ethsw_iv_dot1q_def send_plain_def send_popped_def vlan_port_def port_types intro!: send)
  show ?thesis
  proof (cases "sp_input_tag sp")
    case True
    then have "vlan_input_vector ?in = Some IV_DOT1Q" using inp tag by (auto simp: vlan_port_def port_types)
    then show ?thesis using dot1q [OF True] by (simp add: input_vector_def iv_defs)
  next
    case False
    have "vlan_input_vector ?in = Some IV_ACCESS \<or> vlan_input_vector ?in = Some IV_DOT1Q"
      using inp by (auto simp: vlan_port_def)
    then show ?thesis using access [OF False] False by (auto simp: input_vector_def iv_defs ethsw_iv_dot1q_def)
  qed
qed
section \<open>Flooding and forwarding\<close>

lemma deliveredD:
  assumes "delivered os w sp op w'"
  obtains out where "net_sent w' = net_sent w @ [(op, out)]" "frame_vlan (net_nio w op) out = sp_input_vlan sp"
    "frame_body (net_nio w op) out = sp_body w sp" "port_cfg w' = port_cfg w" "filters_of w' = filters_of w"
  using assms by (auto simp: delivered_def)

lemma vlan_packet_cfg:
  assumes "port_cfg w' = port_cfg w"
  shows "vlan_packet w' sp = vlan_packet w sp"
  by (simp add: vlan_packet_def frame_cfg [OF assms] port_cfgD [OF assms] Let_def)

definition flood_targets :: "'o net \<Rightarrow> nat \<Rightarrow> u32 \<Rightarrow> nat option list \<Rightarrow> nat list" where
  "flood_targets w nio v ports =
     filter (\<lambda>op. op \<noteq> nio \<and> \<not> (vlan_port_type (net_nio w op) = ETHSW_PORT_TYPE_ACCESS \<and> ucast (vlan_id (net_nio w op)) \<noteq> v))
       (map the (filter (\<lambda>p. p \<noteq> None) ports))"

text \<open>All frames of \<open>outs\<close> carry the packet within its VLAN.\<close>

definition in_vlan :: "'o net \<Rightarrow> ethsw_packet \<Rightarrow> (nat \<times> bytes) list \<Rightarrow> bool" where
  "in_vlan w sp outs \<longleftrightarrow> (\<forall>(op, out)\<in>set outs.
     frame_vlan (net_nio w op) out = sp_input_vlan sp \<and> frame_body (net_nio w op) out = sp_body w sp)"

lemma in_vlan_cfg:
  assumes "port_cfg w' = port_cfg w"
  shows "in_vlan w' sp outs = in_vlan w sp outs"
  by (simp add: in_vlan_def frame_cfg [OF assms])

definition all_plain :: "'o os_send \<Rightarrow> 'o net \<Rightarrow> bool" where
  "all_plain os w \<longleftrightarrow> (\<forall>q. plain_nio os w q)"

lemma flood_loop_delivers:
  assumes "vlan_packet w sp" "\<And>op. Some op \<in> set ports \<Longrightarrow> vlan_port (net_nio w op)"
    "all_plain os w" "mem = (\<lambda>_. True)"
  shows "\<exists>w' outs. flood_loop os mem sp ports w = Inr w' \<and> net_sent w' = net_sent w @ outs \<and>
    map fst outs = flood_targets w (sp_input_port sp) (sp_input_vlan sp) ports \<and> in_vlan w sp outs \<and>
    port_cfg w' = port_cfg w \<and> filters_of w' = filters_of w"
  using assms
proof (induction ports arbitrary: w)
  case Nil
  then show ?case by (intro exI [of _ w] exI [of _ "[]"]) (simp add: flood_targets_def in_vlan_def)
next
  case (Cons p ports)
  let ?skip = "\<lambda>op. op = sp_input_port sp \<or>
    vlan_port_type (net_nio w op) = ETHSW_PORT_TYPE_ACCESS \<and> ucast (vlan_id (net_nio w op)) \<noteq> sp_input_vlan sp"
  note IH = Cons.IH [OF Cons.prems(1) _ Cons.prems(3,4)]
  show ?case
  proof (cases "p = None \<or> (\<exists>op. p = Some op \<and> ?skip op)")
    case True
    then have "flood_loop os mem sp (p # ports) w = flood_loop os mem sp ports w"
      "flood_targets w (sp_input_port sp) (sp_input_vlan sp) (p # ports) = flood_targets w (sp_input_port sp) (sp_input_vlan sp) ports"
      by (auto simp: flood_targets_def)
    then show ?thesis using IH Cons.prems(2) by simp
  next
    case False
    then obtain op where op: "p = Some op" "\<not> ?skip op" by (cases p) auto
    have acc: "vlan_port_type (net_nio w op) = ETHSW_PORT_TYPE_ACCESS \<Longrightarrow> ucast (vlan_id (net_nio w op)) = sp_input_vlan sp"
      using op(2) by blast
    have v: "vlan_port (net_nio w op)" "plain_nio os w op" using Cons.prems(2,3) op(1) by (simp_all add: all_plain_def)
    obtain w1 where w1: "input_vector os mem sp op w = Inr w1" "delivered os w sp op w1"
      using input_vector_delivers [OF Cons.prems(1) v, where mem = mem] Cons.prems(4) acc by auto
    obtain out where out: "net_sent w1 = net_sent w @ [(op, out)]" "frame_vlan (net_nio w op) out = sp_input_vlan sp"
      "frame_body (net_nio w op) out = sp_body w sp" and same: "port_cfg w1 = port_cfg w" "filters_of w1 = filters_of w"
      by (rule deliveredD [OF w1(2)])
    have "all_plain os w1" using Cons.prems(3) plain_nio_filters [OF same(2)] by (simp add: all_plain_def)
    then obtain w' outs where 2: "flood_loop os mem sp ports w1 = Inr w'" "net_sent w' = net_sent w1 @ outs"
      "map fst outs = flood_targets w1 (sp_input_port sp) (sp_input_vlan sp) ports" "in_vlan w1 sp outs"
      "port_cfg w' = port_cfg w1" "filters_of w' = filters_of w1"
      using Cons.IH [of w1] Cons.prems vlan_packet_cfg [OF same(1)] frame_cfg(3) [OF same(1)] by auto
    have "flood_targets w (sp_input_port sp) (sp_input_vlan sp) (p # ports) =
        op # flood_targets w1 (sp_input_port sp) (sp_input_vlan sp) ports"
      using op by (simp add: flood_targets_def port_cfgD [OF same(1)])
    moreover have "in_vlan w sp ((op, out) # outs)"
      using 2(4) out in_vlan_cfg [OF same(1)] by (simp add: in_vlan_def)
    moreover have "flood_loop os mem sp (p # ports) w = Inr w'"
      using op w1(1) 2(1) by auto
    ultimately show ?thesis
      using 2 out(1) same by (intro exI [of _ w'] exI [of _ "(op, out) # outs"]) simp
  qed
qed

text \<open>What the MAC table says of an address, and the table after learning.\<close>

definition mac_lookup :: "ethsw_table \<Rightarrow> bytes \<Rightarrow> u32 \<Rightarrow> nat option" where
  "mac_lookup t mac v = (let e = es_mac t (ethsw_hash_index mac v) in
     if me_mac_addr e = mac \<and> ucast (me_vlan_id e) = v then me_nio e else None)"

definition mac_learn :: "ethsw_table \<Rightarrow> nat \<Rightarrow> bytes \<Rightarrow> u32 \<Rightarrow> ethsw_table" where
  "mac_learn t nio mac v = t\<lparr>es_mac := (es_mac t)(ethsw_hash_index mac v :=
     \<lparr>me_nio = Some nio, me_mac_addr = mac, me_vlan_id = ucast v\<rparr>)\<rparr>"

definition mac_valid :: "ethsw_table \<Rightarrow> bool" where
  "mac_valid t \<longleftrightarrow> (\<forall>h. me_nio (es_mac t h) = None \<longrightarrow> me_vlan_id (es_mac t h) = 0)"

lemma mac_valid_learn: "mac_valid t \<Longrightarrow> mac_valid (mac_learn t nio mac v)"
  by (simp add: mac_valid_def mac_learn_def)

lemma mac_learn_fields [simp]: "es_nio (mac_learn t nio mac v) = es_nio t"
  by (simp add: mac_learn_def)

lemma ethsw_forward_eq:
  assumes "mac_valid t" "sp_input_vlan sp \<noteq> 0"
  shows "ethsw_forward os mem t sp w =
    (let t' = mac_learn t (sp_input_port sp) (eth_saddr (sp_pkt sp)) (sp_input_vlan sp);
         out = (\<lambda>r. bind_out r (\<lambda>w. Inr (t', w))) in
     if eth_addr_is_mcast (eth_daddr (sp_pkt sp)) then out (ethsw_flood os mem t' sp w)
     else case mac_lookup t' (eth_daddr (sp_pkt sp)) (sp_input_vlan sp) of
       None \<Rightarrow> out (ethsw_flood os mem t' sp w)
     | Some op \<Rightarrow> if op = sp_input_port sp then Inr (t', w) else out (input_vector os mem sp op w))"
proof -
  let ?t = "mac_learn t (sp_input_port sp) (eth_saddr (sp_pkt sp)) (sp_input_vlan sp)"
  let ?e = "es_mac ?t (ethsw_hash_index (eth_daddr (sp_pkt sp)) (sp_input_vlan sp))"
  have "me_nio ?e \<noteq> None" if "ucast (me_vlan_id ?e) = sp_input_vlan sp"
    using mac_valid_learn [OF assms(1)] assms(2) that unfolding mac_valid_def by (metis ucast_0)
  then show ?thesis
    by (auto simp: ethsw_forward_def mac_lookup_def Let_def mac_learn_def [symmetric] split: option.splits)
qed

definition out_ports :: "'o net \<Rightarrow> ethsw_table \<Rightarrow> nat \<Rightarrow> bytes \<Rightarrow> u32 \<Rightarrow> nat list" where
  "out_ports w t nio daddr v =
     (if eth_addr_is_mcast daddr then flood_targets w nio v (es_nio t)
      else case mac_lookup t daddr v of None \<Rightarrow> flood_targets w nio v (es_nio t)
           | Some op \<Rightarrow> if op = nio then [] else [op])"

lemma ethsw_forward_delivers:
  assumes "mac_valid t" "sp_input_vlan sp \<noteq> 0" "vlan_packet w sp"
    "\<And>op. Some op \<in> set (es_nio t) \<Longrightarrow> vlan_port (net_nio w op)" "all_plain os w" "mem = (\<lambda>_. True)"
    and t': "t' = mac_learn t (sp_input_port sp) (eth_saddr (sp_pkt sp)) (sp_input_vlan sp)"
    and known: "\<And>op. mac_lookup t' (eth_daddr (sp_pkt sp)) (sp_input_vlan sp) = Some op \<Longrightarrow>
      Some op \<in> set (es_nio t) \<and> (vlan_port_type (net_nio w op) = ETHSW_PORT_TYPE_ACCESS \<longrightarrow>
        ucast (vlan_id (net_nio w op)) = sp_input_vlan sp)"
  shows "\<exists>w' outs. ethsw_forward os mem t sp w = Inr (t', w') \<and> net_sent w' = net_sent w @ outs \<and>
    map fst outs = out_ports w t' (sp_input_port sp) (eth_daddr (sp_pkt sp)) (sp_input_vlan sp) \<and> in_vlan w sp outs"
proof -
  have iv: "vlan_input_vector (net_nio w (sp_input_port sp)) \<noteq> None"
    using assms(3) by (auto simp: vlan_packet_def Let_def vlan_port_def)
  obtain wf outs where f: "ethsw_flood os mem t' sp w = Inr wf" "net_sent wf = net_sent w @ outs"
    "map fst outs = flood_targets w (sp_input_port sp) (sp_input_vlan sp) (es_nio t')" "in_vlan w sp outs"
    using flood_loop_delivers [OF assms(3), of "es_nio t" os mem] assms(4-6) iv by (auto simp: ethsw_flood_def t')
  note eq = ethsw_forward_eq [OF assms(1,2), of os mem w, folded t', unfolded Let_def]
  have flood: ?thesis if "out_ports w t' (sp_input_port sp) (eth_daddr (sp_pkt sp)) (sp_input_vlan sp) =
      flood_targets w (sp_input_port sp) (sp_input_vlan sp) (es_nio t')"
    "ethsw_forward os mem t sp w = bind_out (ethsw_flood os mem t' sp w) (\<lambda>w. Inr (t', w))"
    using f that by (intro exI [of _ wf] exI [of _ outs]) simp
  show ?thesis
  proof (cases "eth_addr_is_mcast (eth_daddr (sp_pkt sp))")
    case True
    then show ?thesis using flood eq by (simp add: out_ports_def)
  next
    case uni: False
    show ?thesis
    proof (cases "mac_lookup t' (eth_daddr (sp_pkt sp)) (sp_input_vlan sp)")
      case None
      then show ?thesis using flood eq uni by (simp add: out_ports_def)
    next
      case (Some op)
      show ?thesis
      proof (cases "op = sp_input_port sp")
        case True
        then show ?thesis using Some eq uni
          by (intro exI [of _ w] exI [of _ "[]"]) (simp add: out_ports_def in_vlan_def)
      next
        case False
        have o: "vlan_port (net_nio w op)" "plain_nio os w op" "mem op"
          using known [OF Some] assms(4-6) by (simp_all add: all_plain_def)
        obtain w1 where w1: "input_vector os mem sp op w = Inr w1" "delivered os w sp op w1"
          using input_vector_delivers [OF assms(3) o(1,2), where mem = mem] o(3) known [OF Some] by auto
        obtain out where "net_sent w1 = net_sent w @ [(op, out)]" "frame_vlan (net_nio w op) out = sp_input_vlan sp"
          "frame_body (net_nio w op) out = sp_body w sp"
          by (rule deliveredD [OF w1(2)])
        then show ?thesis using Some eq uni False w1(1)
          by (intro exI [of _ w1] exI [of _ "[(op, out)]"]) (simp add: out_ports_def in_vlan_def)
      qed
    qed
  qed
qed


section \<open>Learning\<close>

text \<open>The VLAN in which a received packet is forwarded, if it is.\<close>

definition rx_vlan :: "'o netio_desc \<Rightarrow> bytes \<Rightarrow> nat \<Rightarrow> u32 option" where
  "rx_vlan port pkt len =
     (let v = (if vlan_port_type port = ETHSW_PORT_TYPE_ACCESS then Some (ucast (vlan_id port))
               else if vlan_port_type port = ETHSW_PORT_TYPE_DOT1Q then
                 Some (if tag_type (m_ntoh16 pkt 12) then ucast (m_ntoh16 pkt 14) AND 0xFFF else ucast (vlan_id port))
               else if vlan_port_type port = ETHSW_PORT_TYPE_QINQ then
                 if tag_type (m_ntoh16 pkt 12) then Some (ucast (vlan_id port)) else None
               else if vlan_port_type port = ETHSW_PORT_TYPE_ISL \<and> eth_addr_is_cisco_isl (eth_daddr pkt) \<and>
                 eth_llc_check_snap (drop 14 pkt)
               then Some (drop_bit 1 (push_bit 8 (ucast (pkt ! 20)) OR ucast (pkt ! 21))) else None)
      in if len < N_ETH_HLEN \<or> v = Some 0 then None else v)"

definition rx_tag :: "'o netio_desc \<Rightarrow> bytes \<Rightarrow> bool" where
  "rx_tag port pkt \<longleftrightarrow> vlan_port_type port = ETHSW_PORT_TYPE_DOT1Q \<and> tag_type (m_ntoh16 pkt 12)"

lemma ethsw_receive_forward:
  "rx_vlan (net_nio w nio) pkt len = None \<Longrightarrow> \<exists>r. ethsw_receive os mem t nio pkt len w = Inr (r, t, w)"
  "rx_vlan (net_nio w nio) pkt len = Some v \<Longrightarrow> ethsw_receive os mem t nio pkt len w =
     bind_out (ethsw_forward os mem t \<lparr>sp_pkt = pkt, sp_pkt_len = len, sp_input_port = nio, sp_input_vlan = v,
         sp_input_tag = rx_tag (net_nio w nio) pkt\<rparr> w)
       (\<lambda>(t, w). Inr (0, t, w))"
  by (auto simp: rx_vlan_def rx_tag_def port_types ethsw_receive_def Let_def split: if_splits)

lemma rx_vlan_16:
  assumes "rx_vlan port pkt len = Some v"
  shows "ucast (ucast v :: u16) = v" "v \<noteq> 0"
proof -
  have a: "ucast (ucast (ucast (x :: u16) :: u32) :: u16) = (ucast x :: u32)" for x
    by (rule bit_word_eqI) (auto simp: bit_ucast_iff dest: bit_imp_le_length)
  have b: "ucast (ucast (ucast (x :: u16) AND 0xFFF :: u32) :: u16) = (ucast x AND 0xFFF :: u32)" for x
    by (rule bit_word_eqI) (auto simp: bit_ucast_iff bit_and_iff dest: bit_imp_le_length)
  have c: "ucast (ucast (drop_bit 1 (push_bit 8 (ucast (x :: u8)) OR ucast (y :: u8) :: u32)) :: u16) =
      (drop_bit 1 (push_bit 8 (ucast x) OR ucast y) :: u32)" for x y
    by (rule bit_word_eqI)
       (auto simp: bit_ucast_iff bit_drop_bit_eq bit_or_iff bit_push_bit_iff dest: bit_imp_le_length)
  show "ucast (ucast v :: u16) = v" "v \<noteq> 0"
    using assms by (auto simp: rx_vlan_def Let_def a b c c [simplified] split: if_splits)
qed

definition observe :: "'o netio_desc \<Rightarrow> nat \<Rightarrow> bytes \<Rightarrow> nat \<Rightarrow> (bytes \<times> u32 \<rightharpoonup> nat) \<Rightarrow> bytes \<times> u32 \<rightharpoonup> nat" where
  "observe port nio pkt len seen =
     (case rx_vlan port pkt len of None \<Rightarrow> seen | Some v \<Rightarrow> seen((eth_saddr pkt, v) \<mapsto> nio))"

text \<open>
  The histories of a switch; \<open>seen\<close> records where each address was last seen. The last
  rule stands for everything else that happens to the NIOs, the port setters included.
\<close>

inductive eth_reach ::
  "'o os_send \<Rightarrow> (nat \<Rightarrow> bool) \<Rightarrow> (bytes \<times> u32 \<rightharpoonup> nat) \<Rightarrow> ethsw_table \<Rightarrow> 'o net \<Rightarrow> bool" for os mem where
  new: "eth_reach os mem Map.empty (ethsw_new name) w"
| add: "eth_reach os mem seen t w \<Longrightarrow> ethsw_add_netio ok h t name w = (r, t', w') \<Longrightarrow> eth_reach os mem seen t' w'"
| remove: "eth_reach os mem seen t w \<Longrightarrow> ethsw_remove_netio t name w = (0, t', w') \<Longrightarrow>
    registry_exists (net_reg w) name OBJ_TYPE_NIO = Some p \<Longrightarrow>
    eth_reach os mem (\<lambda>k. if seen k = Some p then None else seen k) t' w'"
| clear: "eth_reach os mem seen t w \<Longrightarrow> eth_reach os mem Map.empty (snd (ethsw_clear_mac_addr_table t)) w"
| receive: "eth_reach os mem seen t w \<Longrightarrow> ethsw_recv_pkt os mem True t nio pkt len w = Inr (r, t', w') \<Longrightarrow>
    eth_reach os mem (observe (net_nio w nio) nio pkt len seen) t' w'"
| other: "eth_reach os mem seen t w \<Longrightarrow> eth_reach os mem seen t w'"

definition mac_sound :: "(bytes \<times> u32 \<rightharpoonup> nat) \<Rightarrow> ethsw_table \<Rightarrow> bool" where
  "mac_sound seen t \<longleftrightarrow> mac_valid t \<and> (\<forall>h p. me_nio (es_mac t h) = Some p \<longrightarrow>
     seen (me_mac_addr (es_mac t h), ucast (me_vlan_id (es_mac t h))) = Some p \<and>
     h = ethsw_hash_index (me_mac_addr (es_mac t h)) (ucast (me_vlan_id (es_mac t h))))"

lemma mac_sound_learn:
  assumes "mac_sound seen t" "ucast (ucast v :: u16) = v"
  shows "mac_sound (seen((mac, v) \<mapsto> nio)) (mac_learn t nio mac v)"
  unfolding mac_sound_def
proof (intro conjI allI impI)
  show "mac_valid (mac_learn t nio mac v)" using assms(1) by (simp add: mac_sound_def mac_valid_learn)
  fix h p
  let ?e = "es_mac (mac_learn t nio mac v) h"
  assume e: "me_nio ?e = Some p"
  show "(seen((mac, v) \<mapsto> nio)) (me_mac_addr ?e, ucast (me_vlan_id ?e)) = Some p"
    "h = ethsw_hash_index (me_mac_addr ?e) (ucast (me_vlan_id ?e))"
    using e assms by (auto simp: mac_learn_def mac_sound_def split: if_splits)
qed

lemma ethsw_forward_table:
  assumes "ethsw_forward os mem t sp w = Inr (t', w')"
  shows "t' = mac_learn t (sp_input_port sp) (eth_saddr (sp_pkt sp)) (sp_input_vlan sp)"
  using assms unfolding ethsw_forward_def Let_def mac_learn_def [symmetric]
  by (simp add: bind_out_Inr_iff split: if_split_asm option.split_asm)

lemma mac_sound_reach: "eth_reach os mem seen t w \<Longrightarrow> mac_sound seen t"
proof (induction rule: eth_reach.induct)
  case (new name w)
  then show ?case by (simp add: mac_sound_def mac_valid_def ethsw_new_def no_mac_entry_def)
next
  case (add seen t w ok h name r t' w')
  then have "es_mac t' = es_mac t" by (auto simp: ethsw_add_netio_def Let_def split: option.splits prod.splits)
  then show ?case using add.IH by (simp add: mac_sound_def mac_valid_def)
next
  case (remove seen t w name t' w' p)
  then have "es_mac t' = es_mac (ethsw_invalidate_port t p)"
    by (auto simp: ethsw_remove_netio_def Let_def split: option.splits)
  then have e: "es_mac t' h = (if me_nio (es_mac t h) = Some p then es_mac t h\<lparr>me_nio := None, me_vlan_id := 0\<rparr> else es_mac t h)" for h
    by (simp add: ethsw_invalidate_port_def Let_def)
  note ih = remove.IH [unfolded mac_sound_def mac_valid_def]
  show ?case unfolding mac_sound_def mac_valid_def
  proof (intro conjI allI impI)
    fix h assume "me_nio (es_mac t' h) = None"
    then show "me_vlan_id (es_mac t' h) = 0" using ih by (simp add: e split: if_splits)
  next
    fix h q assume "me_nio (es_mac t' h) = Some q"
    then have q: "me_nio (es_mac t h) = Some q" "q \<noteq> p" "es_mac t' h = es_mac t h" by (auto simp: e split: if_splits)
    have "seen (me_mac_addr (es_mac t h), ucast (me_vlan_id (es_mac t h))) = Some q"
      "h = ethsw_hash_index (me_mac_addr (es_mac t h)) (ucast (me_vlan_id (es_mac t h)))" using ih q(1) by blast+
    then show "(if seen (me_mac_addr (es_mac t' h), ucast (me_vlan_id (es_mac t' h))) = Some p then None
          else seen (me_mac_addr (es_mac t' h), ucast (me_vlan_id (es_mac t' h)))) = Some q"
      "h = ethsw_hash_index (me_mac_addr (es_mac t' h)) (ucast (me_vlan_id (es_mac t' h)))"
      using q(2) unfolding q(3) by simp_all
  qed
next
  case (clear seen t w)
  then show ?case by (simp add: mac_sound_def mac_valid_def ethsw_clear_mac_addr_table_def ethsw_invalidate_def no_mac_entry_def)
next
  case (receive seen t w nio pkt len r t' w')
  show ?case
  proof (cases "rx_vlan (net_nio w nio) pkt len")
    case None
    then have "t' = t" using receive.hyps(2) ethsw_receive_forward(1) [OF None, of os mem t]
      by (auto simp: ethsw_recv_pkt_def)
    then show ?thesis using receive.IH None by (simp add: observe_def)
  next
    case (Some v)
    note ethsw_receive_forward(2) [OF Some, of os mem t]
    then have "t' = mac_learn t nio (eth_saddr pkt) v"
      using receive.hyps(2) by (auto simp: ethsw_recv_pkt_def bind_out_Inr_iff dest: ethsw_forward_table)
    moreover have "observe (net_nio w nio) nio pkt len seen = seen((eth_saddr pkt, v) \<mapsto> nio)"
      using Some by (simp add: observe_def)
    ultimately show ?thesis using mac_sound_learn [OF receive.IH rx_vlan_16(1) [OF Some]] by (simp only:)
  qed
next
  case (other seen t w w')
  then show ?case by simp
qed

lemma input_vector_no_null: "input_vector os mem sp op w \<noteq> Inl Null_Deref"
  by (auto simp: input_vector_def ethsw_iv_access_def ethsw_iv_dot1q_def ethsw_iv_qinq_def send_plain_def
      send_pushed_def send_popped_def dot1q_pop_tag_def Let_def split: option.splits)

lemma flood_loop_no_null: "flood_loop os mem sp ports w \<noteq> Inl Null_Deref"
proof (induction ports arbitrary: w)
  case (Cons p ports)
  then show ?case
    by (cases p) (auto simp: bind_out_def input_vector_no_null split: sum.splits)
qed simp

lemma ethsw_forward_mcast:
  assumes "mac_valid t" "sp_input_vlan sp \<noteq> 0" "eth_addr_is_mcast (eth_daddr (sp_pkt sp))"
    "t' = mac_learn t (sp_input_port sp) (eth_saddr (sp_pkt sp)) (sp_input_vlan sp)"
  shows "ethsw_forward os mem t sp w = bind_out (ethsw_flood os mem t' sp w) (\<lambda>w. Inr (t', w))"
  using assms(3) by (simp add: ethsw_forward_eq [OF assms(1,2)] Let_def assms(4))

lemma ethsw_forward_no_null:
  assumes "mac_valid t" "sp_input_vlan sp \<noteq> 0"
  shows "ethsw_forward os mem t sp w \<noteq> Inl Null_Deref"
  unfolding ethsw_forward_eq [OF assms] Let_def
  using flood_loop_no_null [of os mem sp] input_vector_no_null [of os mem sp]
  by (auto simp: bind_out_def ethsw_flood_def split: option.splits sum.splits)

text \<open>
  C28: learning is sound. In every history of a switch, the MAC table names for an address and a
  VLAN only the port where this address was last seen in this VLAN since the port was
  plugged in; and no packet makes the switch follow an entry without port.
\<close>

theorem ethsw_learning_sound:
  assumes "eth_reach os mem seen t w"
  shows "(\<forall>mac v p. v \<noteq> 0 \<longrightarrow> mac_lookup t mac v = Some p \<longrightarrow> seen (mac, v) = Some p) \<and>
    ethsw_receive os' mem' t nio pkt len w' \<noteq> Inl Null_Deref"
proof (intro conjI allI impI)
  note ok = mac_sound_reach [OF assms]
  show "seen (mac, v) = Some p" if "mac_lookup t mac v = Some p" for mac v p
  proof -
    let ?e = "es_mac t (ethsw_hash_index mac v)"
    have e: "me_mac_addr ?e = mac" "ucast (me_vlan_id ?e) = v" "me_nio ?e = Some p"
      using that by (auto simp: mac_lookup_def Let_def split: if_splits)
    then have "seen (me_mac_addr ?e, ucast (me_vlan_id ?e)) = Some p" using ok unfolding mac_sound_def by blast
    then show ?thesis unfolding e(1,2) .
  qed
  show "ethsw_receive os' mem' t nio pkt len w' \<noteq> Inl Null_Deref"
  proof (cases "rx_vlan (net_nio w' nio) pkt len")
    case None
    then obtain r where "ethsw_receive os' mem' t nio pkt len w' = Inr (r, t, w')"
      using ethsw_receive_forward(1) by blast
    then show ?thesis by simp
  next
    case (Some v)
    let ?fw = "ethsw_forward os' mem' t \<lparr>sp_pkt = pkt, sp_pkt_len = len, sp_input_port = nio, sp_input_vlan = v,
      sp_input_tag = rx_tag (net_nio w' nio) pkt\<rparr> w'"
    note ethsw_receive_forward(2) [OF Some, of os' mem' t]
    moreover have "?fw \<noteq> Inl Null_Deref"
      using ok rx_vlan_16(2) [OF Some] by (intro ethsw_forward_no_null) (simp_all add: mac_sound_def)
    ultimately show ?thesis by (auto simp: bind_out_def split: sum.splits)
  qed
qed

section \<open>A small switch\<close>

text \<open>Port 0 is an access port in VLAN 1, port 1 a trunk with native VLAN 5, port 2 an access port in VLAN 1.\<close>

definition eth_net :: "pf_freqdrop_data net" where
  "eth_net = sample_net\<lparr>net_nio := (\<lambda>p. if p = 1 then set_dot1q_port (netio_create ''b'') 5
     else set_access_port (netio_create ''a'') 1)\<rparr>"

definition eth_table :: ethsw_table where
  "eth_table = (ethsw_new ''sw'')\<lparr>es_nio := [Some 0, Some 1, Some 2]\<rparr>"

lemma eth_net_ports [simp]:
  "net_nio eth_net 0 = set_access_port (netio_create ''a'') 1" "net_nio eth_net 1 = set_dot1q_port (netio_create ''b'') 5"
  "net_nio eth_net (Suc 0) = set_dot1q_port (netio_create ''b'') 5" "net_nio eth_net 2 = set_access_port (netio_create ''a'') 1"
  by (simp_all add: eth_net_def)

lemma eth_net_plain: "all_plain (\<lambda>_ _ pkt. int (length pkt)) eth_net"
  by (simp add: all_plain_def plain_nio_def filters_of_def eth_net_def set_dot1q_port_def set_access_port_def netio_create_def)

lemma eth_net_sent [simp]: "net_sent eth_net = []"
  by (simp add: eth_net_def sample_net_plain)

lemma eth_net_vlan_port: "p \<in> {0, 1, 2} \<Longrightarrow> vlan_port (net_nio eth_net p)"
  by (auto simp: vlan_port_def set_dot1q_port_def set_access_port_def port_types tag_type_def)

definition eth_frame :: bytes where
  "eth_frame = replicate 6 0xff @ [2, 0, 0, 0, 0, 1, 8, 0] @ replicate 46 0"

lemma eth_frame_simps [simp]:
  "length eth_frame = 60" "eth_saddr eth_frame = [2, 0, 0, 0, 0, 1]" "eth_addr_is_mcast (replicate 6 0xff)"
  "m_ntoh16 eth_frame 12 = 0x800" "\<not> frame_tagged eth_frame" "eth_daddr eth_frame = replicate 6 0xff"
  by (simp_all add: eth_frame_def eth_saddr_def eth_daddr_def eth_addr_is_mcast_def frame_tagged_def m_ntoh16_def
      nth_append tag_type_def N_ETH_PROTO_DOT1Q_def N_ETH_PROTO_DOT1Q_2_def N_ETH_PROTO_DOT1Q_3_def N_ETH_PROTO_DOT1Q_4_def)


lemma flood_no_ports: "flood_loop os mem sp (replicate n None) w = Inr w"
  by (induction n) simp_all

lemma eth_frame_rx: "rx_vlan (net_nio eth_net 0) eth_frame 60 = Some 1"
  by (simp add: rx_vlan_def set_access_port_def port_types)

theorem ethsw_learning_sound_witness:
  "\<exists>t. eth_reach (\<lambda>_ _ _. 0) (\<lambda>_. True) [([2, 0, 0, 0, 0, 1], 1) \<mapsto> 0] t eth_net \<and>
    mac_lookup t [2, 0, 0, 0, 0, 1] 1 = Some 0 \<and>
    (\<forall>mac v p. v \<noteq> 0 \<longrightarrow> mac_lookup t mac v = Some p \<longrightarrow> [([2, 0, 0, 0, 0, 1], 1) \<mapsto> 0] (mac, v) = Some p)"
proof -
  let ?os = "\<lambda>_ _ _. 0 :: int" and ?a = "[2, 0, 0, 0, 0, 1] :: bytes"
  let ?t = "mac_learn (ethsw_new ''sw'') 0 ?a 1"
  let ?sp = "\<lparr>sp_pkt = eth_frame, sp_pkt_len = 60, sp_input_port = 0, sp_input_vlan = 1,
    sp_input_tag = rx_tag (net_nio eth_net 0) eth_frame\<rparr>"
  have valid: "mac_valid (ethsw_new ''sw'')" by (simp add: mac_valid_def ethsw_new_def no_mac_entry_def)
  have "ethsw_flood ?os (\<lambda>_. True) ?t ?sp eth_net = Inr eth_net"
    by (simp add: ethsw_flood_def flood_no_ports ethsw_new_def set_access_port_def)
  then have "ethsw_forward ?os (\<lambda>_. True) (ethsw_new ''sw'') ?sp eth_net = Inr (?t, eth_net)"
    using ethsw_forward_mcast [OF valid, of ?sp ?t ?os "\<lambda>_. True" eth_net] by simp
  then have "ethsw_receive ?os (\<lambda>_. True) (ethsw_new ''sw'') 0 eth_frame 60 eth_net = Inr (0, ?t, eth_net)"
    using ethsw_receive_forward(2) [OF eth_frame_rx] by simp
  then have "ethsw_recv_pkt ?os (\<lambda>_. True) True (ethsw_new ''sw'') 0 eth_frame 60 eth_net = Inr (0, ?t, eth_net)"
    by (simp add: ethsw_recv_pkt_def)
  from eth_reach.receive [OF eth_reach.new this]
  have r: "eth_reach ?os (\<lambda>_. True) [(?a, 1) \<mapsto> 0] ?t eth_net"
    by (simp add: observe_def eth_frame_rx [simplified])
  have "mac_lookup ?t ?a 1 = Some 0" by (simp add: mac_lookup_def mac_learn_def)
  then show ?thesis using r ethsw_learning_sound [OF r] by blast
qed

section \<open>Where the switch goes wrong\<close>

text \<open>A tagged frame of 14 or 15 bytes makes the copy of \<open>dot1q_pop_tag\<close> run with a negative size.\<close>

definition short_frame :: bytes where
  "short_frame = replicate 6 0xff @ [2, 0, 0, 0, 0, 1, 0x81, 0, 0, 1] @ replicate 100 0"

lemma ethsw_short_tagged_crash:
  "ethsw_receive os (\<lambda>_. True) eth_table 1 short_frame 14 eth_net = Inl Bad_Memcpy"
proof -
  let ?sp = "\<lparr>sp_pkt = short_frame, sp_pkt_len = 14, sp_input_port = 1, sp_input_vlan = 1, sp_input_tag = True\<rparr>"
  let ?t = "mac_learn eth_table 1 (eth_saddr short_frame) 1"
  have n: "m_ntoh16 short_frame 12 = 0x8100" "m_ntoh16 short_frame 14 = 1" "eth_addr_is_mcast (eth_daddr short_frame)"
    by (simp_all add: short_frame_def m_ntoh16_def nth_append eth_addr_is_mcast_def eth_daddr_def)
  have rx: "rx_vlan (net_nio eth_net 1) short_frame 14 = Some 1" "rx_tag (net_nio eth_net 1) short_frame"
    by (simp_all add: rx_vlan_def rx_tag_def n set_dot1q_port_def port_types tag_type_def N_ETH_PROTO_DOT1Q_def)
  have valid: "mac_valid eth_table" by (simp add: mac_valid_def eth_table_def ethsw_new_def no_mac_entry_def)
  have "ethsw_flood os (\<lambda>_. True) ?t ?sp eth_net = Inl Bad_Memcpy"
    by (simp add: ethsw_flood_def eth_table_def input_vector_def iv_defs ethsw_iv_dot1q_def send_popped_def dot1q_pop_tag_def
        set_dot1q_port_def set_access_port_def port_types)
  then show ?thesis
    using ethsw_receive_forward(2) [OF rx(1), of os "\<lambda>_. True" eth_table] rx(2) n(3)
      ethsw_forward_mcast [OF valid, of ?sp ?t os "\<lambda>_. True" eth_net] by simp
qed

text \<open>Moving a port to another VLAN leaves its MAC entries: frames of the old VLAN still reach it.\<close>

definition ucast_frame :: bytes where
  "ucast_frame = [4, 0, 0, 0, 0, 1, 2, 0, 0, 0, 0, 1, 8, 0] @ replicate 46 0"

lemma ethsw_moved_port_leaks:
  assumes w: "w = eth_net\<lparr>net_nio := (net_nio eth_net)(2 := set_access_port (net_nio eth_net 2) 20)\<rparr>"
    and t: "t = mac_learn eth_table 2 [4, 0, 0, 0, 0, 1] 1"
  shows "frame_vlan (net_nio w 0) ucast_frame = 1" "vlan_id (net_nio w 2) = 20"
    "\<exists>t'. ethsw_receive os (\<lambda>_. True) t 0 ucast_frame 60 w =
      Inr (0, t', snd (netio_send os (Some 2) ucast_frame w))"
proof -
  let ?sp = "\<lparr>sp_pkt = ucast_frame, sp_pkt_len = 60, sp_input_port = 0, sp_input_vlan = 1, sp_input_tag = False\<rparr>"
  let ?t = "mac_learn t 0 (eth_saddr ucast_frame) 1"
  have a: "eth_daddr ucast_frame = [4, 0, 0, 0, 0, 1]" "eth_saddr ucast_frame = [2, 0, 0, 0, 0, 1]" "take 60 ucast_frame = ucast_frame"
    by (simp_all add: ucast_frame_def eth_daddr_def eth_saddr_def)
  then have "\<not> eth_addr_is_mcast (eth_daddr ucast_frame)" by (simp add: eth_addr_is_mcast_def)
  moreover have rx: "rx_vlan (net_nio w 0) ucast_frame 60 = Some 1" "\<not> rx_tag (net_nio w 0) ucast_frame"
    by (simp_all add: w rx_vlan_def rx_tag_def set_access_port_def port_types)
  moreover have valid: "mac_valid t"
    by (simp add: t mac_valid_learn) (simp add: mac_valid_def eth_table_def ethsw_new_def no_mac_entry_def mac_learn_def)
  moreover have "mac_lookup ?t [4, 0, 0, 0, 0, 1] 1 = Some 2"
    by (simp add: a t mac_lookup_def mac_learn_def ethsw_hash_index_def Let_def ETHSW_HASH_SIZE_def)
  moreover have "input_vector os (\<lambda>_. True) ?sp 2 w = Inr (snd (netio_send os (Some 2) ucast_frame w))"
    by (simp add: w a input_vector_def iv_defs ethsw_iv_access_def send_plain_def set_access_port_def port_types)
  ultimately show "\<exists>t'. ethsw_receive os (\<lambda>_. True) t 0 ucast_frame 60 w =
      Inr (0, t', snd (netio_send os (Some 2) ucast_frame w))"
    using ethsw_receive_forward(2) [OF rx(1), of os "\<lambda>_. True" t] a(1)
    by (simp add: ethsw_forward_eq [OF valid, of ?sp, simplified] Let_def)
  show "frame_vlan (net_nio w 0) ucast_frame = 1" "vlan_id (net_nio w 2) = 20"
    by (simp_all add: w frame_vlan_def set_access_port_def port_types)
qed

text \<open>Between two tunnel ports of one customer, the customer's own tag is removed.\<close>

lemma ethsw_qinq_pops_customer_tag:
  assumes "vlan_port_type (net_nio w op) = ETHSW_PORT_TYPE_QINQ" "vlan_id (net_nio w (sp_input_port sp)) = vlan_id (net_nio w op)"
    "16 \<le> sp_pkt_len sp" "sp_pkt_len sp \<le> length (sp_pkt sp)"
  shows "ethsw_iv_qinq os (\<lambda>_. True) sp op w =
    Inr (snd (netio_send os (Some op) (take 12 (sp_pkt sp) @ take (sp_pkt_len sp - 16) (drop 16 (sp_pkt sp))) w))"
  using assms by (simp add: ethsw_iv_qinq_def send_popped_def pop_tag_eq port_types)

text \<open>An access port forwards a frame that is already tagged, untouched, to a trunk of its native VLAN.\<close>

lemma ethsw_access_tag_hops:
  assumes "vlan_port_type (net_nio w op) = ETHSW_PORT_TYPE_DOT1Q" "ucast (vlan_id (net_nio w op)) = sp_input_vlan sp"
    "frame_tagged (sp_frame sp)"
  shows "ethsw_iv_access os mem sp op w = Inr (snd (netio_send os (Some op) (sp_frame sp) w))"
    and "frame_vlan (net_nio w op) (sp_frame sp) = ucast (m_ntoh16 (sp_frame sp) 14) AND 0xFFF"
  using assms by (simp_all add: ethsw_iv_access_def send_plain_def frame_vlan_def port_types)

text \<open>Saving a configuration follows the pointer of every slot, free ones included.\<close>

lemma ethsw_save_config_free_slot:
  "ethsw_save_config t w = (if None \<in> set (es_nio t) then Inl Null_Deref else ethsw_save_config t w)"
proof -
  have "None \<in> set ports \<Longrightarrow> save_ports name w ports = Inl Null_Deref" for name ports
    by (induction ports) (auto split: option.splits)
  then show ?thesis by (simp add: ethsw_save_config_def)
qed

end
