(* ===== verification/Frame_Relay.thy ===== *)
theory Frame_Relay
  imports Conn_Table
begin

text \<open>
  The virtual Frame Relay switch of \<open>common/frame_relay.c\<close>: the table of virtual circuits,
  switching of packets on their DLCI, and the ANSI LMI dialogue. A circuit is a cell; it sits on
  a hash chain of its switch and on the list of its input NIO (\<open>fr_conn_list\<close>), kept in
  DLCI order. The list belongs to the NIO, so circuits of all switches live in one store.
\<close>

section \<open>State (frame_relay.h)\<close>

definition FRSW_HASH_SIZE :: nat where "FRSW_HASH_SIZE = 256"
definition FR_DLCI_LMI_ANSI :: u32 where "FR_DLCI_LMI_ANSI = 0"
definition FR_LMI_ANSI_STATUS_OFFSET :: nat where "FR_LMI_ANSI_STATUS_OFFSET = 5"
definition FR_LMI_ANSI_STATUS :: u8 where "FR_LMI_ANSI_STATUS = 0x7d"
definition FR_MAX_PKT_SIZE :: nat where "FR_MAX_PKT_SIZE = 2048"

record frsw_conn =
  vc_input :: nat
  vc_output :: nat
  vc_dlci_in :: u32
  vc_dlci_out :: u32
  vc_count :: u64

record frsw_table =
  frsw_name :: string
  frsw_drop :: u64
  dlci_table :: "nat \<Rightarrow> nat list"

record 'o fr_world =
  fr_vcs :: "nat \<rightharpoonup> frsw_conn"
  fr_net :: "'o net"

definition lmi_ansi_hdr :: bytes where
  "lmi_ansi_hdr = [0x00, 0x01, 0x03, 0x08, 0x00, 0x75, 0x95]"

definition frsw_dlci_hash :: "u32 \<Rightarrow> nat" where
  "frsw_dlci_hash dlci = unat ((dlci XOR drop_bit 8 dlci) AND of_nat (FRSW_HASH_SIZE - 1))"

definition vc_key :: "frsw_conn \<Rightarrow> nat \<times> u32" where
  "vc_key vc = (vc_input vc, vc_dlci_in vc)"

definition frsw_dlci_lookup :: "(nat \<Rightarrow> nat list) \<Rightarrow> (nat \<rightharpoonup> frsw_conn) \<Rightarrow> nat \<Rightarrow> u32 \<Rightarrow> nat option" where
  "frsw_dlci_lookup tbl vcs input dlci =
     chain_lookup (\<lambda>vc. vc_input vc = input \<and> vc_dlci_in vc = dlci) vcs (tbl (frsw_dlci_hash dlci))"

interpretation fr: conn_table vc_key "\<lambda>(input, dlci). frsw_dlci_hash dlci"
    "\<lambda>tbl vcs (input, dlci). frsw_dlci_lookup tbl vcs input dlci"
  by unfold_locales (simp add: frsw_dlci_lookup_def vc_key_def split: prod.splits)

section \<open>LMI\<close>

text \<open>
  The reply is built in a buffer of \<open>FR_MAX_PKT_SIZE\<close> bytes on the stack, without a check of
  its size: \<open>lmi_put\<close> faults when an item would be written past it.
\<close>

record lmi_state =
  lmi_msg_type :: int
  lmi_seq_ok :: bool
  lmi_seq :: u8
  lmi_resp :: bytes

definition lmi_put :: "bytes \<Rightarrow> lmi_state \<Rightarrow> lmi_state outcome" where
  "lmi_put item st =
     (if length (lmi_resp st) + length item \<le> FR_MAX_PKT_SIZE
      then Inr (st\<lparr>lmi_resp := lmi_resp st @ item\<rparr>) else Inl Out_Of_Bounds)"

text \<open>
  The loop over the information elements of the request; \<open>rem\<close> is what is left of the packet.
  The flag of the result is false when the handler gives up with an error.
\<close>

function lmi_items :: "lmi_state \<Rightarrow> bytes \<Rightarrow> (bool \<times> lmi_state) outcome" where
  "lmi_items st rem =
     (if length rem \<le> 2 then Inr (True, st)
      else let itype = rem ! 0; isize = unat (rem ! 1) in
        if length rem < isize + 2 then Inr (False, st)
        else if itype = 0x01 then
          (if isize \<noteq> 1 then Inr (False, st)
           else let st = st\<lparr>lmi_msg_type := uint (rem ! 2)\<rparr> in
             if 1 < lmi_msg_type st then Inr (False, st)
             else bind_out (lmi_put [0x01, 0x01, rem ! 2] st) (\<lambda>st. lmi_items st (drop (isize + 2) rem)))
        else if itype = 0x03 then
          (if isize \<noteq> 2 then Inr (False, st)
           else let seq = (if lmi_seq st \<noteq> rem ! 3 then rem ! 3 else lmi_seq st);
                    seq = seq + 1;
                    seq = (if seq = 0 then seq + 1 else seq)
             in bind_out (lmi_put [0x03, 0x02, seq, rem ! 2] (st\<lparr>lmi_seq := seq\<rparr>))
                  (\<lambda>st. lmi_items (st\<lparr>lmi_seq_ok := True\<rparr>) (drop (isize + 2) rem)))
        else Inr (True, st))"
  by auto
termination
  by (relation "measure (\<lambda>(st, rem). length rem)") auto

definition lmi_dlci_item :: "u32 \<Rightarrow> bytes" where
  "lmi_dlci_item dlci =
     [0x07, 0x03, ucast (drop_bit 4 dlci), 0x80 OR ucast (push_bit 3 (dlci AND 0x0f)), 0x82]"

fun lmi_dlcis :: "(nat \<rightharpoonup> frsw_conn) \<Rightarrow> nat list \<Rightarrow> lmi_state \<Rightarrow> lmi_state outcome" where
  "lmi_dlcis vcs [] st = Inr st"
| "lmi_dlcis vcs (i # xs) st =
     (case vcs i of None \<Rightarrow> Inl Null_Deref
      | Some vc \<Rightarrow> bind_out (lmi_put (lmi_dlci_item (vc_dlci_in vc)) st) (lmi_dlcis vcs xs))"

definition lmi_start :: "u8 \<Rightarrow> lmi_state" where
  "lmi_start seq =
     \<lparr>lmi_msg_type = -1, lmi_seq_ok = False, lmi_seq = seq,
      lmi_resp = lmi_ansi_hdr[FR_LMI_ANSI_STATUS_OFFSET := FR_LMI_ANSI_STATUS]\<rparr>"

definition set_lmi_seq :: "nat \<Rightarrow> u8 \<Rightarrow> 'o fr_world \<Rightarrow> 'o fr_world" where
  "set_lmi_seq p seq s =
     s\<lparr>fr_net := upd_nio p ((net_nio (fr_net s) p)\<lparr>fr_lmi_seq := seq\<rparr>) (fr_net s)\<rparr>"

definition frsw_handle_lmi_ansi_pkt ::
  "'o os_send \<Rightarrow> nat \<Rightarrow> bytes \<Rightarrow> 'o fr_world \<Rightarrow> (int \<times> 'o fr_world) outcome" where
  "frsw_handle_lmi_ansi_pkt os input pkt s =
     (if length pkt \<le> length lmi_ansi_hdr \<or> take (length lmi_ansi_hdr) pkt \<noteq> lmi_ansi_hdr
      then Inr (-1, s)
      else
        bind_out (lmi_items (lmi_start (fr_lmi_seq (net_nio (fr_net s) input))) (drop (length lmi_ansi_hdr) pkt))
          (\<lambda>(ok, st). let s = set_lmi_seq input (lmi_seq st) s in
             if \<not> ok \<or> lmi_msg_type st = -1 \<or> \<not> lmi_seq_ok st then Inr (-1, s)
             else bind_out
               (if lmi_msg_type st = 0
                then lmi_dlcis (fr_vcs s) (fr_conn_list (net_nio (fr_net s) input)) st else Inr st)
               (\<lambda>st. Inr (0, s\<lparr>fr_net := snd (netio_send os (Some input) (lmi_resp st) (fr_net s))\<rparr>))))"

section \<open>Switching\<close>

text \<open>The packet is in the NIO's receive buffer \<open>buf\<close>, its first \<open>len\<close> bytes.\<close>

definition frsw_dlci_switch :: "frsw_conn \<Rightarrow> bytes \<Rightarrow> bytes \<times> frsw_conn" where
  "frsw_dlci_switch vc pkt =
     (pkt[0 := pkt ! 0 AND 0x03 OR ucast (push_bit 2 (drop_bit 4 (vc_dlci_out vc))),
          1 := pkt ! 1 AND 0x0f OR ucast (push_bit 4 (vc_dlci_out vc AND 0x0f))],
      vc\<lparr>vc_count := vc_count vc + 1\<rparr>)"

definition pkt_dlci :: "bytes \<Rightarrow> u32" where
  "pkt_dlci pkt = push_bit 4 (drop_bit 2 (ucast (pkt ! 0) AND 0xfc)) OR
     drop_bit 4 (ucast (pkt ! 1) AND 0xf0)"

definition frsw_handle_pkt ::
  "'o os_send \<Rightarrow> frsw_table \<Rightarrow> nat \<Rightarrow> bytes \<Rightarrow> nat \<Rightarrow> 'o fr_world \<Rightarrow> (int \<times> frsw_table \<times> 'o fr_world) outcome" where
  "frsw_handle_pkt os t input buf len s =
     (let dlci = pkt_dlci buf in
      if dlci = FR_DLCI_LMI_ANSI then
        bind_out (frsw_handle_lmi_ansi_pkt os input (take len buf) s) (\<lambda>(res, s). Inr (res, t, s))
      else
        let (output, buf, s) =
              (case frsw_dlci_lookup (dlci_table t) (fr_vcs s) input dlci of
                 None \<Rightarrow> (None, buf, s)
               | Some i \<Rightarrow> (case fr_vcs s i of None \<Rightarrow> (None, buf, s)
                   | Some vc \<Rightarrow> let (buf, vc') = frsw_dlci_switch vc buf
                       in (Some (vc_output vc), buf, s\<lparr>fr_vcs := (fr_vcs s)(i \<mapsto> vc')\<rparr>)));
            (slen, w) = netio_send os output (take len buf) (fr_net s);
            s = s\<lparr>fr_net := w\<rparr>
        in if int len \<noteq> slen then Inr (-1, t\<lparr>frsw_drop := frsw_drop t + 1\<rparr>, s) else Inr (0, t, s))"

section \<open>Circuits\<close>

text \<open>Insertion in the NIO's list, before the first circuit with a greater DLCI.\<close>

definition dlci_gt :: "(nat \<rightharpoonup> frsw_conn) \<Rightarrow> u32 \<Rightarrow> nat \<Rightarrow> bool" where
  "dlci_gt vcs dlci i = cell_sat (\<lambda>vc. dlci < vc_dlci_in vc) vcs i"

definition frsw_insert_list :: "(nat \<rightharpoonup> frsw_conn) \<Rightarrow> nat \<Rightarrow> u32 \<Rightarrow> nat list \<Rightarrow> nat list" where
  "frsw_insert_list vcs i dlci xs =
     takeWhile (\<lambda>j. \<not> dlci_gt vcs dlci j) xs @ i # dropWhile (\<lambda>j. \<not> dlci_gt vcs dlci j) xs"

definition upd_conn_list :: "nat \<Rightarrow> (nat list \<Rightarrow> nat list) \<Rightarrow> 'o net \<Rightarrow> 'o net" where
  "upd_conn_list p f w = upd_nio p ((net_nio w p)\<lparr>fr_conn_list := f (fr_conn_list (net_nio w p))\<rparr>) w"

text \<open>
  \<open>cell\<close> is the answer of the pool's allocator, \<open>rxl_ok\<close> whether the listener could be
  allocated, \<open>self\<close> the listener's argument (the switch).
\<close>

definition frsw_create_vc ::
  "nat option \<Rightarrow> bool \<Rightarrow> nat \<Rightarrow> frsw_table \<Rightarrow> string option \<Rightarrow> u32 \<Rightarrow> string option \<Rightarrow> u32 \<Rightarrow> 'o fr_world \<Rightarrow>
   int \<times> frsw_table \<times> 'o fr_world" where
  "frsw_create_vc cell rxl_ok self t nio_input dlci_in nio_output dlci_out s =
     (case cell of None \<Rightarrow> (-1, t, s)
      | Some i \<Rightarrow>
         let (input, w) = netio_acquire nio_input (fr_net s);
             (output, w) = netio_acquire nio_output w;
             err = (\<lambda>w. (-1, t, s\<lparr>fr_net := release_nios input output w\<rparr>))
         in case (input, output) of
              (Some p, Some q) \<Rightarrow>
                if frsw_dlci_lookup (dlci_table t) (fr_vcs s) p dlci_in \<noteq> None then err w
                else let (res, w) = netio_rxl_add rxl_ok p self w in
                  if res = -1 then err w
                  else
                    let vc = \<lparr>vc_input = p, vc_output = q, vc_dlci_in = dlci_in,
                              vc_dlci_out = dlci_out, vc_count = 0\<rparr>
                    in (0, t\<lparr>dlci_table := cells_link (frsw_dlci_hash dlci_in) i (dlci_table t)\<rparr>,
                        s\<lparr>fr_vcs := (fr_vcs s)(i \<mapsto> vc),
                          fr_net := upd_conn_list p (frsw_insert_list (fr_vcs s) i dlci_in) w\<rparr>)
            | _ \<Rightarrow> err w)"

definition frsw_unlink_vc :: "nat \<Rightarrow> nat \<Rightarrow> 'o net \<Rightarrow> 'o net" where
  "frsw_unlink_vc p i w = upd_conn_list p (remove1 i) w"

definition frsw_delete_vc ::
  "frsw_table \<Rightarrow> string option \<Rightarrow> u32 \<Rightarrow> string option \<Rightarrow> u32 \<Rightarrow> 'o fr_world \<Rightarrow> int \<times> frsw_table \<times> 'o fr_world" where
  "frsw_delete_vc t nio_input dlci_in nio_output dlci_out s =
     (case (registry_exists (net_reg (fr_net s)) nio_input OBJ_TYPE_NIO,
            registry_exists (net_reg (fr_net s)) nio_output OBJ_TYPE_NIO) of
        (Some p, Some q) \<Rightarrow>
          (case chain_lookup (\<lambda>vc. vc_input vc = p \<and> vc_output vc = q \<and>
                  vc_dlci_in vc = dlci_in \<and> vc_dlci_out vc = dlci_out)
                (fr_vcs s) (dlci_table t (frsw_dlci_hash dlci_in)) of
             None \<Rightarrow> (-1, t, s)
           | Some i \<Rightarrow>
               (0, t\<lparr>dlci_table := cells_unlink (frsw_dlci_hash dlci_in) i (dlci_table t)\<rparr>,
                s\<lparr>fr_vcs := (fr_vcs s)(i := None),
                  fr_net := release_nios (Some p) (Some q) (frsw_unlink_vc p i (fr_net s))\<rparr>))
      | _ \<Rightarrow> (-1, t, s))"

text \<open>Destruction of a switch: each circuit is released, then their cells are freed.\<close>

definition all_cells :: "nat \<Rightarrow> (nat \<Rightarrow> nat list) \<Rightarrow> nat list" where
  "all_cells n tbl = concat (map tbl [0..<n])"

definition release_cell :: "(nat \<rightharpoonup> frsw_conn) \<Rightarrow> nat \<Rightarrow> 'o net \<Rightarrow> 'o net" where
  "release_cell vcs i w =
     (case vcs i of None \<Rightarrow> w
      | Some vc \<Rightarrow> release_nios (Some (vc_input vc)) (Some (vc_output vc)) w)"

definition frsw_free :: "frsw_table \<Rightarrow> 'o fr_world \<Rightarrow> bool \<times> 'o fr_world" where
  "frsw_free t s =
     (let cells = all_cells FRSW_HASH_SIZE (dlci_table t) in
      (True, s\<lparr>fr_net := fold (release_cell (fr_vcs s)) cells (fr_net s),
              fr_vcs := (\<lambda>i. if i \<in> set cells then None else fr_vcs s i)\<rparr>))"

text \<open>
  The saved configuration, one (input, DLCI, output, DLCI) line per circuit visited. From the head
  of a hash chain the loop goes on along the NIO's list (\<open>vc->next\<close>), not along the chain.
\<close>

definition frsw_save_line :: "'o fr_world \<Rightarrow> nat \<Rightarrow> (string \<times> u32 \<times> string \<times> u32) list" where
  "frsw_save_line s i =
     (case fr_vcs s i of None \<Rightarrow> []
      | Some vc \<Rightarrow> [(nio_name (net_nio (fr_net s) (vc_input vc)), vc_dlci_in vc,
                    nio_name (net_nio (fr_net s) (vc_output vc)), vc_dlci_out vc)])"

definition frsw_save_config :: "frsw_table \<Rightarrow> 'o fr_world \<Rightarrow> (string \<times> u32 \<times> string \<times> u32) list" where
  "frsw_save_config t s =
     concat (map (\<lambda>h. case dlci_table t h of [] \<Rightarrow> []
        | i # _ \<Rightarrow> (case fr_vcs s i of None \<Rightarrow> []
            | Some vc \<Rightarrow> concat (map (frsw_save_line s)
                (dropWhile (\<lambda>j. j \<noteq> i) (fr_conn_list (net_nio (fr_net s) (vc_input vc)))))))
      [0..<FRSW_HASH_SIZE])"

text \<open>A \<open>VC\<close> line of a configuration file, split at the colons.\<close>

definition frsw_cfg_create_vc ::
  "nat option \<Rightarrow> bool \<Rightarrow> nat \<Rightarrow> frsw_table \<Rightarrow> string list \<Rightarrow> 'o fr_world \<Rightarrow> int \<times> frsw_table \<times> 'o fr_world" where
  "frsw_cfg_create_vc cell rxl_ok self t tokens s =
     (if length tokens \<noteq> 5 then (-1, t, s)
      else frsw_create_vc cell rxl_ok self t (Some (tokens ! 1)) (word_of_int (atoi (tokens ! 2)))
             (Some (tokens ! 3)) (word_of_int (atoi (tokens ! 4))) s)"

section \<open>The table implements the map of its circuits\<close>

datatype fr_op =
    Fr_Create bool "string option" u32 "string option" u32
  | Fr_Delete "string option" u32 "string option" u32

text \<open>The n-th request is served with the n-th cell of the pool.\<close>

fun fr_step :: "nat \<Rightarrow> fr_op \<Rightarrow> nat \<times> frsw_table \<times> 'o fr_world \<Rightarrow> nat \<times> frsw_table \<times> 'o fr_world" where
  "fr_step self (Fr_Create ok ni di no do) (n, t, s) =
     (Suc n, snd (frsw_create_vc (Some n) ok self t ni di no do s))"
| "fr_step self (Fr_Delete ni di no do) (n, t, s) = (Suc n, snd (frsw_delete_vc t ni di no do s))"

type_synonym fr_map = "nat \<times> u32 \<rightharpoonup> nat \<times> u32"

fun fr_spec :: "(string option \<Rightarrow> nat option) \<Rightarrow> fr_op \<Rightarrow> fr_map \<Rightarrow> fr_map" where
  "fr_spec ptr (Fr_Create ok ni di no do) m =
     (case (ptr ni, ptr no) of
        (Some p, Some q) \<Rightarrow> if ok \<and> m (p, di) = None then m((p, di) \<mapsto> (q, do)) else m
      | _ \<Rightarrow> m)"
| "fr_spec ptr (Fr_Delete ni di no do) m =
     (case (ptr ni, ptr no) of
        (Some p, Some q) \<Rightarrow> if m (p, di) = Some (q, do) then m((p, di) := None) else m
      | _ \<Rightarrow> m)"

definition fr_abs :: "frsw_table \<Rightarrow> 'o fr_world \<Rightarrow> fr_map" where
  "fr_abs t s = (\<lambda>(p, d). case frsw_dlci_lookup (dlci_table t) (fr_vcs s) p d of None \<Rightarrow> None
     | Some i \<Rightarrow> map_option (\<lambda>vc. (vc_output vc, vc_dlci_out vc)) (fr_vcs s i))"

definition vc_dlci :: "'o fr_world \<Rightarrow> nat \<Rightarrow> u32" where
  "vc_dlci s i = vc_dlci_in (the (fr_vcs s i))"

definition fr_inv :: "nat \<Rightarrow> frsw_table \<Rightarrow> 'o fr_world \<Rightarrow> bool" where
  "fr_inv n t s \<longleftrightarrow> fr.inv (dlci_table t) (fr_vcs s) \<and> net_inv (fr_net s) \<and>
     (\<forall>i vc. fr_vcs s i = Some vc \<longrightarrow> i < n \<and> i \<in> set (dlci_table t (frsw_dlci_hash (vc_dlci_in vc)))) \<and>
     (\<forall>p. sorted_wrt (\<lambda>i j. vc_dlci s i < vc_dlci s j) (fr_conn_list (net_nio (fr_net s) p))) \<and>
     (\<forall>p i. i \<in> set (fr_conn_list (net_nio (fr_net s) p)) \<longleftrightarrow>
        (\<exists>vc. fr_vcs s i = Some vc \<and> vc_input vc = p))"

lemma fr_invD:
  assumes "fr_inv n t s"
  shows fr_inv_table: "fr.inv (dlci_table t) (fr_vcs s)"
    and fr_inv_net_inv: "net_inv (fr_net s)"
    and fr_inv_cell: "fr_vcs s i = Some vc \<Longrightarrow> i < n \<and> i \<in> set (dlci_table t (frsw_dlci_hash (vc_dlci_in vc)))"
    and fr_inv_sorted: "sorted_wrt (\<lambda>i j. vc_dlci s i < vc_dlci s j) (fr_conn_list (net_nio (fr_net s) p))"
    and fr_inv_list: "i \<in> set (fr_conn_list (net_nio (fr_net s) p)) \<longleftrightarrow>
      (\<exists>vc. fr_vcs s i = Some vc \<and> vc_input vc = p)"
  using assms unfolding fr_inv_def by blast+

lemma fr_lookup_iff:
  assumes "fr.inv tbl vcs"
  shows "frsw_dlci_lookup tbl vcs p d = Some i \<longleftrightarrow>
    i \<in> set (tbl (frsw_dlci_hash d)) \<and> (\<exists>vc. vcs i = Some vc \<and> vc_input vc = p \<and> vc_dlci_in vc = d)"
  using fr.lookup_iff [OF assms, of "(p, d)" i] by (auto simp: vc_key_def)

lemma fr_abs_iff:
  assumes "fr_inv n t s"
  shows "fr_abs t s (p, d) = Some (q, e) \<longleftrightarrow>
    (\<exists>i vc. fr_vcs s i = Some vc \<and> vc_input vc = p \<and> vc_dlci_in vc = d \<and> vc_output vc = q \<and> vc_dlci_out vc = e)"
proof -
  have inv: "fr.inv (dlci_table t) (fr_vcs s)" using assms by (simp add: fr_inv_def)
  show ?thesis
  proof
    assume "fr_abs t s (p, d) = Some (q, e)"
    then show "\<exists>i vc. fr_vcs s i = Some vc \<and> vc_input vc = p \<and> vc_dlci_in vc = d \<and> vc_output vc = q \<and> vc_dlci_out vc = e"
      by (auto simp: fr_abs_def fr_lookup_iff [OF inv] split: option.splits) blast
  next
    assume "\<exists>i vc. fr_vcs s i = Some vc \<and> vc_input vc = p \<and> vc_dlci_in vc = d \<and> vc_output vc = q \<and> vc_dlci_out vc = e"
    then obtain i vc where vc: "fr_vcs s i = Some vc" "vc_input vc = p" "vc_dlci_in vc = d"
      "vc_output vc = q" "vc_dlci_out vc = e" by blast
    then have "i \<in> set (dlci_table t (frsw_dlci_hash d))" using assms by (auto simp: fr_inv_def)
    then have "frsw_dlci_lookup (dlci_table t) (fr_vcs s) p d = Some i"
      using vc by (simp add: fr_lookup_iff [OF inv])
    then show "fr_abs t s (p, d) = Some (q, e)" using vc by (simp add: fr_abs_def)
  qed
qed

lemma fr_abs_None:
  assumes "fr_inv n t s"
  shows "fr_abs t s (p, d) = None \<longleftrightarrow> frsw_dlci_lookup (dlci_table t) (fr_vcs s) p d = None"
proof -
  have inv: "fr.inv (dlci_table t) (fr_vcs s)" using assms by (simp add: fr_inv_def)
  have "fr_vcs s i \<noteq> None" if "frsw_dlci_lookup (dlci_table t) (fr_vcs s) p d = Some i" for i
    using that by (auto simp: fr_lookup_iff [OF inv])
  then show ?thesis by (auto simp: fr_abs_def split: option.splits)
qed

lemma frsw_insert_list_set:
  "set (frsw_insert_list vcs i d xs) = insert i (set xs)"
proof -
  have "set xs = set (takeWhile P xs) \<union> set (dropWhile P xs)" for P
    by (metis set_append takeWhile_dropWhile_id)
  then show ?thesis unfolding frsw_insert_list_def by auto
qed

lemma frsw_insert_list_sorted:
  assumes "sorted_wrt (\<lambda>i j. D i < (D j :: u32)) xs" "\<And>j. j \<in> set xs \<Longrightarrow> dlci_gt vcs d j \<longleftrightarrow> d < D j"
    "\<And>j. j \<in> set xs \<Longrightarrow> D j \<noteq> d" "D i = d"
  shows "sorted_wrt (\<lambda>i j. D i < D j) (frsw_insert_list vcs i d xs)"
  using assms
proof (induction xs)
  case (Cons j js)
  show ?case
  proof (cases "d < D j")
    case True
    have "D i < D k" if "k \<in> set js" for k
    proof -
      have "D j < D k" using Cons.prems(1) that by simp
      then show ?thesis using True Cons.prems(4) by simp
    qed
    then show ?thesis using True Cons.prems by (simp add: frsw_insert_list_def)
  next
    case False
    then have lt: "D j < d" using Cons.prems(3) [of j] by simp
    have "frsw_insert_list vcs i d (j # js) = j # frsw_insert_list vcs i d js"
      using False Cons.prems(2) [of j] by (simp add: frsw_insert_list_def)
    then show ?thesis using Cons lt by (simp add: frsw_insert_list_set)
  qed
qed (simp add: frsw_insert_list_def)


text \<open>Removing or adding a connection to the input list of one descriptor.\<close>

lemma upd_conn_list_simps [simp]:
  "net_reg (upd_conn_list p f w) = net_reg w" "net_sent (upd_conn_list p f w) = net_sent w"
  "net_rxl (upd_conn_list p f w) = net_rxl w" "nio_ptr (upd_conn_list p f w) = nio_ptr w"
  "fr_conn_list (net_nio (upd_conn_list p f w) q) =
     (if q = p then f (fr_conn_list (net_nio w p)) else fr_conn_list (net_nio w q))"
  by (auto simp: upd_conn_list_def nio_ptr_def fun_eq_iff)

lemma fr_inv_net:
  assumes "fr_inv n t s" "net_inv w" "net_nio w = net_nio (fr_net s)"
  shows "fr_inv n t (s\<lparr>fr_net := w\<rparr>)"
  using assms by (simp add: fr_inv_def vc_dlci_def)

lemma fr_abs_net [simp]: "fr_abs t (s\<lparr>fr_net := w\<rparr>) = fr_abs t s"
  by (rule ext) (auto simp: fr_abs_def split: option.splits)

lemma fr_inv_Suc: "fr_inv n t s \<Longrightarrow> fr_inv (Suc n) t s"
  by (auto simp: fr_inv_def intro: less_SucI)

lemma fr_link:
  fixes q e
  assumes inv: "fr_inv n t s" and none: "fr_abs t s (p, d) = None" and w: "net_inv w"
    "net_nio w = net_nio (fr_net s)"
  defines "vc \<equiv> \<lparr>vc_input = p, vc_output = q, vc_dlci_in = d, vc_dlci_out = e, vc_count = 0\<rparr>"
  defines "t' \<equiv> t\<lparr>dlci_table := cells_link (frsw_dlci_hash d) n (dlci_table t)\<rparr>"
  defines "s' \<equiv> s\<lparr>fr_vcs := (fr_vcs s)(n \<mapsto> vc),
      fr_net := upd_conn_list p (frsw_insert_list (fr_vcs s) n d) w\<rparr>"
  shows "fr_inv (Suc n) t' s' \<and> fr_abs t' s' = (fr_abs t s)((p, d) \<mapsto> (q, e))"
proof
  have tbl: "fr.inv (dlci_table t) (fr_vcs s)" using inv by (simp add: fr_inv_def)
  have fresh: "fr_vcs s n = None" using fr_inv_cell [OF inv, of n] by (cases "fr_vcs s n") auto
  then have nochain: "n \<notin> set (dlci_table t h)" for h
    by (metis fr.invD [OF tbl] option.distinct(1))
  have key: "vc_key vc = (p, d)" by (simp add: vc_key_def vc_def)
  have nolook: "frsw_dlci_lookup (dlci_table t) (fr_vcs s) p d = None"
    using none by (simp add: fr_abs_None [OF inv])
  have tbl': "fr.inv (dlci_table t') (fr_vcs s')"
    and look: "frsw_dlci_lookup (dlci_table t') (fr_vcs s') p' d' =
      (if (p', d') = (p, d) then Some n else frsw_dlci_lookup (dlci_table t) (fr_vcs s) p' d')" for p' d'
    using fr.link_inv [of "dlci_table t" "fr_vcs s" vc n] fr.link_lookup [of "dlci_table t" "fr_vcs s" vc n "(p', d')"]
      tbl nolook nochain by (simp_all add: key t'_def s'_def)
  let ?L = "\<lambda>r. fr_conn_list (net_nio (fr_net s) r)"
  have L': "fr_conn_list (net_nio (fr_net s') r) = (if r = p then frsw_insert_list (fr_vcs s) n d (?L p) else ?L r)" for r
    by (simp add: s'_def w(2))
  have mem: "j \<in> set (?L r) \<longleftrightarrow> (\<exists>vc. fr_vcs s j = Some vc \<and> vc_input vc = r)" for j r
    using inv by (simp add: fr_inv_def)
  have dl: "vc_dlci s' j = (if j = n then d else vc_dlci s j)" for j
    by (simp add: vc_dlci_def s'_def vc_def)
  have nin: "n \<notin> set (?L r)" for r using mem fresh by simp
  have sorted: "sorted_wrt (\<lambda>i j. vc_dlci s' i < vc_dlci s' j) (?L r)" for r
  proof -
    have "i \<noteq> n" if "i \<in> set (?L r)" for i using nin [of r] that by blast
    then show ?thesis
      using sorted_wrt_mono_rel [of "?L r" "\<lambda>i j. vc_dlci s i < vc_dlci s j" "\<lambda>i j. vc_dlci s' i < vc_dlci s' j"]
        fr_inv_sorted [OF inv, of r] by (simp only: dl if_False)
  qed
  have other: "vc_dlci s' j \<noteq> d \<and> dlci_gt (fr_vcs s) d j = (d < vc_dlci s' j)" if j: "j \<in> set (?L p)" for j
  proof -
    obtain vc' where vc': "fr_vcs s j = Some vc'" "vc_input vc' = p" using j mem [of j p] by blast
    then have "vc_dlci_in vc' \<noteq> d"
      using nolook fr_inv_cell [OF inv vc'(1)] by (auto simp: frsw_dlci_lookup_def chain_lookup_None)
    moreover have "j \<noteq> n" using j nin [of p] by blast
    then have "vc_dlci s' j = vc_dlci_in vc'" using vc' by (simp add: dl) (simp add: vc_dlci_def)
    ultimately show ?thesis using vc' by (simp add: dlci_gt_def cell_sat_def)
  qed
  have ins: "sorted_wrt (\<lambda>i j. vc_dlci s' i < vc_dlci s' j) (frsw_insert_list (fr_vcs s) n d (?L p))"
  proof (rule frsw_insert_list_sorted [OF sorted])
    show "dlci_gt (fr_vcs s) d j \<longleftrightarrow> d < vc_dlci s' j" "vc_dlci s' j \<noteq> d" if "j \<in> set (?L p)" for j
      using other [OF that] by blast+
    show "vc_dlci s' n = d" by (simp add: dl)
  qed
  have cells: "i < Suc n \<and> i \<in> set (dlci_table t' (frsw_dlci_hash (vc_dlci_in c)))"
    if "fr_vcs s' i = Some c" for i c
  proof (cases "i = n")
    case True
    then have "c = vc" using that by (simp add: s'_def)
    then show ?thesis using True by (simp add: t'_def vc_def cells_link_def)
  next
    case False
    then have "fr_vcs s i = Some c" using that by (simp add: s'_def)
    then have "i < n \<and> i \<in> set (dlci_table t (frsw_dlci_hash (vc_dlci_in c)))"
      by (rule fr_inv_cell [OF inv])
    then show ?thesis by (auto simp: t'_def cells_link_def)
  qed
  have mem': "j \<in> set (fr_conn_list (net_nio (fr_net s') r)) \<longleftrightarrow> (\<exists>vc. fr_vcs s' j = Some vc \<and> vc_input vc = r)" for j r
    unfolding L' using mem [of j r] fresh by (auto simp: frsw_insert_list_set s'_def vc_def)
  have srt': "sorted_wrt (\<lambda>i j. vc_dlci s' i < vc_dlci s' j) (fr_conn_list (net_nio (fr_net s') r))" for r
    unfolding L' using ins sorted by (cases "r = p") simp_all
  have "net_inv (fr_net s')" using w(1) by (simp add: s'_def)
  then show "fr_inv (Suc n) t' s'"
    unfolding fr_inv_def using tbl' cells mem' srt' by blast
  have keep: "fr_vcs s' i = fr_vcs s i" if "frsw_dlci_lookup (dlci_table t) (fr_vcs s) p' d' = Some i" for p' d' i
    using that fresh by (auto simp: s'_def fr_lookup_iff [OF tbl])
  have vcs': "fr_vcs s' = (fr_vcs s)(n \<mapsto> vc)" by (simp add: s'_def)
  have new: "fr_vcs s' n = Some vc" unfolding vcs' by (rule fun_upd_same)
  have "fr_abs t' s' (p', d') = ((fr_abs t s)((p, d) \<mapsto> (q, e))) (p', d')" for p' d'
  proof (cases "(p', d') = (p, d)")
    case True
    then show ?thesis using new by (simp add: fr_abs_def look) (simp add: vc_def)
  next
    case False
    then have "fr_abs t' s' (p', d') = fr_abs t s (p', d')"
      using keep by (auto simp: fr_abs_def look split: option.splits)
    then show ?thesis using False by auto
  qed
  then show "fr_abs t' s' = (fr_abs t s)((p, d) \<mapsto> (q, e))" by (rule prod_fun_ext)
qed

lemma sorted_wrt_remove1: "sorted_wrt P xs \<Longrightarrow> sorted_wrt P (remove1 x xs)"
proof (induction xs)
  case (Cons y ys)
  then show ?case using set_remove1_subset [of x ys] by auto
qed simp

lemma fr_unlink:
  assumes inv: "fr_inv n t s" and i: "frsw_dlci_lookup (dlci_table t) (fr_vcs s) p d = Some i"
    and w: "net_inv w" "net_nio w = net_nio (frsw_unlink_vc p i (fr_net s))"
  defines "t' \<equiv> t\<lparr>dlci_table := cells_unlink (frsw_dlci_hash d) i (dlci_table t)\<rparr>"
  defines "s' \<equiv> s\<lparr>fr_vcs := (fr_vcs s)(i := None), fr_net := w\<rparr>"
  shows "fr_inv n t' s' \<and> fr_abs t' s' = (fr_abs t s)((p, d) := None)"
proof -
  have tbl: "fr.inv (dlci_table t) (fr_vcs s)" using inv by (simp add: fr_inv_def)
  obtain vc where vc: "fr_vcs s i = Some vc" "vc_input vc = p" "vc_dlci_in vc = d"
    "i \<in> set (dlci_table t (frsw_dlci_hash d))"
    using i by (auto simp: fr_lookup_iff [OF tbl])
  have unl: "fr.inv (dlci_table t') (fr_vcs s)"
    using fr.unlink_inv [OF tbl] by (simp add: t'_def)
  have nochain: "i \<notin> set (dlci_table t' h)" for h
  proof
    assume "i \<in> set (dlci_table t' h)"
    moreover from this have "h = frsw_dlci_hash d"
      using fr.invD [OF unl, of i h] vc by (auto simp: vc_key_def)
    moreover have "distinct (dlci_table t (frsw_dlci_hash d))" using tbl by (simp add: fr.inv_def)
    ultimately show False by (simp add: t'_def cells_unlink_def set_remove1_eq)
  qed
  have same: "fr_vcs s' j = fr_vcs s j" if "j \<in> set (dlci_table t' h)" for j h
    using that nochain by (auto simp: s'_def)
  have tbl': "fr.inv (dlci_table t') (fr_vcs s')"
    using unl same unfolding fr.inv_def by metis
  have look: "frsw_dlci_lookup (dlci_table t') (fr_vcs s') p' d' =
      (if (p', d') = (p, d) then None else frsw_dlci_lookup (dlci_table t) (fr_vcs s) p' d')" for p' d'
  proof -
    have "frsw_dlci_lookup (dlci_table t') (fr_vcs s') p' d' = frsw_dlci_lookup (dlci_table t') (fr_vcs s) p' d'"
      using fr.lookup_eqI [OF unl tbl', of "(p', d')"] same by (simp add: vc_key_def) metis
    then show ?thesis
      using fr.unlink_lookup [OF tbl, of "(p, d)" i "(p', d')"] i by (simp add: t'_def)
  qed
  let ?L = "\<lambda>r. fr_conn_list (net_nio (fr_net s) r)"
  have L': "fr_conn_list (net_nio (fr_net s') r) = (if r = p then remove1 i (?L p) else ?L r)" for r
    by (simp add: s'_def w(2) frsw_unlink_vc_def)
  have mem: "j \<in> set (?L r) \<longleftrightarrow> (\<exists>vc. fr_vcs s j = Some vc \<and> vc_input vc = r)" for j r
    using inv by (simp add: fr_inv_def)
  have srt: "sorted_wrt (\<lambda>i j. vc_dlci s i < vc_dlci s j) (?L r)" for r
    using inv by (simp add: fr_inv_def)
  then have dist: "distinct (?L r)" for r
    by (metis (no_types, lifting) distinct_conv_nth less_irrefl linorder_neqE_nat sorted_wrt_nth_less)
  have mem': "j \<in> set (fr_conn_list (net_nio (fr_net s') r)) \<longleftrightarrow> (\<exists>vc. fr_vcs s' j = Some vc \<and> vc_input vc = r)" for j r
    unfolding L' using mem [of j r] mem [of j p] dist vc by (auto simp: set_remove1_eq s'_def)
  have srt': "sorted_wrt (\<lambda>i j. vc_dlci s' i < vc_dlci s' j) (fr_conn_list (net_nio (fr_net s') r))" for r
  proof -
    have "sorted_wrt (\<lambda>i j. vc_dlci s i < vc_dlci s j) (fr_conn_list (net_nio (fr_net s') r))"
      using srt by (simp add: L' sorted_wrt_remove1)
    moreover have "vc_dlci s' j = vc_dlci s j" if "j \<in> set (fr_conn_list (net_nio (fr_net s') r))" for j
      using that mem' [of j r] by (auto simp: vc_dlci_def s'_def split: if_splits)
    ultimately show ?thesis by (auto elim: sorted_wrt_mono_rel [rotated])
  qed
  have cells: "j < n \<and> j \<in> set (dlci_table t' (frsw_dlci_hash (vc_dlci_in c)))"
    if "fr_vcs s' j = Some c" for j c
  proof -
    have "j \<noteq> i" "fr_vcs s j = Some c" using that by (auto simp: s'_def split: if_splits)
    moreover from this have "j < n \<and> j \<in> set (dlci_table t (frsw_dlci_hash (vc_dlci_in c)))"
      using fr_inv_cell [OF inv] by blast
    ultimately show ?thesis by (auto simp: t'_def cells_unlink_def in_set_remove1)
  qed
  have "fr_inv n t' s'"
    unfolding fr_inv_def using tbl' cells srt' mem' w(1) by (auto simp: s'_def)
  moreover have "fr_vcs s' j = fr_vcs s j"
    if "frsw_dlci_lookup (dlci_table t) (fr_vcs s) p' d' = Some j" "(p', d') \<noteq> (p, d)" for p' d' j
    using that vc by (auto simp: s'_def fr_lookup_iff [OF tbl])
  then have "fr_abs t' s' = (fr_abs t s)((p, d) := None)"
    by (auto simp: fr_abs_def fun_eq_iff look split: option.splits)
  ultimately show ?thesis by simp
qed


lemma frsw_create_vc_refines:
  assumes inv: "fr_inv n t s"
  shows "case frsw_create_vc (Some n) ok self t ni di no do s of (res, t', s') \<Rightarrow>
    fr_inv (Suc n) t' s' \<and> nio_ptr (fr_net s') = nio_ptr (fr_net s) \<and>
    fr_abs t' s' = fr_spec (nio_ptr (fr_net s)) (Fr_Create ok ni di no do) (fr_abs t s) \<and>
    (res = 0 \<longleftrightarrow> ok \<and> (\<exists>p. nio_ptr (fr_net s) ni = Some p \<and> fr_abs t s (p, di) = None) \<and> nio_ptr (fr_net s) no \<noteq> None)"
proof -
  define w1 where "w1 = snd (netio_acquire ni (fr_net s))"
  define w2 where "w2 = snd (netio_acquire no w1)"
  define inp where "inp = nio_ptr (fr_net s) ni"
  define outp where "outp = nio_ptr (fr_net s) no"
  have w0: "net_inv (fr_net s)" by (rule fr_inv_net_inv [OF inv])
  note a1 = netio_acquire_spec [OF w0, of ni, folded w1_def]
  note a2 = netio_acquire_spec [OF a1(2), of no, folded w2_def]
  have acq: "netio_acquire ni (fr_net s) = (inp, w1)" "netio_acquire no w1 = (outp, w2)"
    using a1(1,3) a2(1) by (simp_all add: w1_def w2_def inp_def outp_def prod_eq_iff)
  have w2: "net_inv w2" "nio_ptr w2 = nio_ptr (fr_net s)" "net_nio w2 = net_nio (fr_net s)"
    using a1 a2 by (simp_all add: w1_def w2_def)
  have err: "fr_inv (Suc n) t (s\<lparr>fr_net := release_nios inp outp w\<rparr>)"
    "nio_ptr (release_nios inp outp w) = nio_ptr (fr_net s)"
    if "net_inv w" "nio_ptr w = nio_ptr (fr_net s)" "net_nio w = net_nio (fr_net s)" for w
    using fr_inv_Suc [OF fr_inv_net [OF inv]] release_nios_spec [OF that(1)] that by simp_all
  have spec: "fr_spec (nio_ptr (fr_net s)) (Fr_Create ok ni di no do) (fr_abs t s) =
      (case (inp, outp) of (Some p, Some q) \<Rightarrow>
         if ok \<and> fr_abs t s (p, di) = None then (fr_abs t s)((p, di) \<mapsto> (q, do)) else fr_abs t s
       | _ \<Rightarrow> fr_abs t s)"
    by (simp add: inp_def outp_def)
  show ?thesis
  proof (cases "\<exists>p q. inp = Some p \<and> outp = Some q \<and> fr_abs t s (p, di) = None")
    case False
    then have "frsw_create_vc (Some n) ok self t ni di no do s =
        (-1, t, s\<lparr>fr_net := release_nios inp outp w2\<rparr>)"
      by (auto simp: frsw_create_vc_def acq fr_abs_None [OF inv] split: option.splits)
    moreover have "fr_spec (nio_ptr (fr_net s)) (Fr_Create ok ni di no do) (fr_abs t s) = fr_abs t s"
      unfolding spec using False by (auto split: option.splits)
    ultimately show ?thesis
      using err [OF w2] False by (auto simp: inp_def outp_def)
  next
    case True
    then obtain p q where pq: "inp = Some p" "outp = Some q" "fr_abs t s (p, di) = None" by blast
    define w3 where "w3 = snd (netio_rxl_add ok p self w2)"
    have add: "netio_rxl_add ok p self w2 = (if ok then 0 else -1, w3)" by (simp add: prod_eq_iff w3_def)
    have w3: "net_inv w3" "nio_ptr w3 = nio_ptr (fr_net s)" "net_nio w3 = net_nio (fr_net s)"
      using w2 by (simp_all add: w3_def)
    show ?thesis
    proof (cases ok)
      case False
      then have "frsw_create_vc (Some n) ok self t ni di no do s =
          (-1, t, s\<lparr>fr_net := release_nios inp outp w3\<rparr>)"
        using pq add by (simp add: frsw_create_vc_def acq fr_abs_None [OF inv])
      moreover have "fr_spec (nio_ptr (fr_net s)) (Fr_Create ok ni di no do) (fr_abs t s) = fr_abs t s"
        unfolding spec using False pq by simp
      ultimately show ?thesis
        using err [OF w3] False by simp
    next
      case True
      have "fr_inv (Suc n) (fst (snd (frsw_create_vc (Some n) ok self t ni di no do s)))
            (snd (snd (frsw_create_vc (Some n) ok self t ni di no do s))) \<and>
          fr_abs (fst (snd (frsw_create_vc (Some n) ok self t ni di no do s)))
            (snd (snd (frsw_create_vc (Some n) ok self t ni di no do s))) =
          (fr_abs t s)((p, di) \<mapsto> (q, do))"
        using fr_link [OF inv pq(3) w3(1,3), of q do] pq True add
        by (simp add: frsw_create_vc_def acq fr_abs_None [OF inv])
      moreover have "fr_spec (nio_ptr (fr_net s)) (Fr_Create ok ni di no do) (fr_abs t s) =
          (fr_abs t s)((p, di) \<mapsto> (q, do))"
        unfolding spec using True pq by simp
      moreover have "fst (frsw_create_vc (Some n) ok self t ni di no do s) = 0"
        "nio_ptr (fr_net (snd (snd (frsw_create_vc (Some n) ok self t ni di no do s)))) = nio_ptr (fr_net s)"
        using pq True add w3 by (simp_all add: frsw_create_vc_def acq fr_abs_None [OF inv])
      ultimately show ?thesis
        using pq True by (auto simp: case_prod_beta inp_def outp_def)
    qed
  qed
qed

lemma frsw_delete_vc_refines:
  assumes inv: "fr_inv n t s"
  shows "case frsw_delete_vc t ni di no do s of (res, t', s') \<Rightarrow>
    fr_inv (Suc n) t' s' \<and> nio_ptr (fr_net s') = nio_ptr (fr_net s) \<and>
    fr_abs t' s' = fr_spec (nio_ptr (fr_net s)) (Fr_Delete ni di no do) (fr_abs t s)"
proof (cases "\<exists>p q. nio_ptr (fr_net s) ni = Some p \<and> nio_ptr (fr_net s) no = Some q")
  case False
  then have "frsw_delete_vc t ni di no do s = (-1, t, s)"
    "fr_spec (nio_ptr (fr_net s)) (Fr_Delete ni di no do) (fr_abs t s) = fr_abs t s"
    by (auto simp: frsw_delete_vc_def nio_ptr_def split: option.splits)
  then show ?thesis using fr_inv_Suc [OF inv] by simp
next
  case True
  then obtain p q where pq: "nio_ptr (fr_net s) ni = Some p" "nio_ptr (fr_net s) no = Some q" by blast
  let ?P = "\<lambda>vc. vc_input vc = p \<and> vc_output vc = q \<and> vc_dlci_in vc = di \<and> vc_dlci_out vc = do"
  note tbl = fr_inv_table [OF inv]
  have look: "chain_lookup ?P (fr_vcs s) (dlci_table t (frsw_dlci_hash di)) =
      (case frsw_dlci_lookup (dlci_table t) (fr_vcs s) p di of None \<Rightarrow> None
       | Some i \<Rightarrow> if cell_sat ?P (fr_vcs s) i then Some i else None)"
    using fr.strict_lookup [OF tbl, of ?P "(p, di)"] by (simp add: vc_key_def)
  have abs: "fr_abs t s (p, di) = Some (q, do) \<longleftrightarrow>
      (\<exists>i. frsw_dlci_lookup (dlci_table t) (fr_vcs s) p di = Some i \<and> cell_sat ?P (fr_vcs s) i)"
  proof (cases "frsw_dlci_lookup (dlci_table t) (fr_vcs s) p di")
    case (Some i)
    then show ?thesis using fr_lookup_iff [OF tbl, of p di i]
      by (auto simp: fr_abs_def cell_sat_def split: option.splits)
  qed (simp add: fr_abs_def)
  show ?thesis
  proof (cases "fr_abs t s (p, di) = Some (q, do)")
    case False
    then have "frsw_delete_vc t ni di no do s = (-1, t, s)"
      using pq look abs by (auto simp: frsw_delete_vc_def nio_ptr_def split: option.splits)
    then show ?thesis using fr_inv_Suc [OF inv] pq False by simp
  next
    case True
    then obtain i where i: "frsw_dlci_lookup (dlci_table t) (fr_vcs s) p di = Some i" "cell_sat ?P (fr_vcs s) i"
      using abs by blast
    let ?w = "release_nios (Some p) (Some q) (frsw_unlink_vc p i (fr_net s))"
    have un: "net_inv (frsw_unlink_vc p i (fr_net s))" "nio_ptr (frsw_unlink_vc p i (fr_net s)) = nio_ptr (fr_net s)"
      using fr_inv_net_inv [OF inv] by (simp_all add: frsw_unlink_vc_def)
    have w: "net_inv ?w" "net_nio ?w = net_nio (frsw_unlink_vc p i (fr_net s))" "nio_ptr ?w = nio_ptr (fr_net s)"
      using release_nios_spec [OF un(1), of "Some p" "Some q"] un(2) by simp_all
    have "frsw_delete_vc t ni di no do s =
        (0, t\<lparr>dlci_table := cells_unlink (frsw_dlci_hash di) i (dlci_table t)\<rparr>,
         s\<lparr>fr_vcs := (fr_vcs s)(i := None), fr_net := ?w\<rparr>)"
      using pq look i by (simp add: frsw_delete_vc_def nio_ptr_def)
    moreover note unl = fr_unlink [OF inv i(1) w(1,2)]
    moreover note fr_inv_Suc [OF conjunct1 [OF unl]]
    ultimately show ?thesis using w(3) pq True by simp
  qed
qed

lemma fr_step_refines:
  assumes "fr_inv n t s"
  shows "case fr_step self op (n, t, s) of (n', t', s') \<Rightarrow> n' = Suc n \<and> fr_inv n' t' s' \<and>
    nio_ptr (fr_net s') = nio_ptr (fr_net s) \<and> fr_abs t' s' = fr_spec (nio_ptr (fr_net s)) op (fr_abs t s)"
proof (cases op)
  case (Fr_Create ok ni di no do)
  then show ?thesis
    using frsw_create_vc_refines [OF assms, where ok = ok and self = self and ni = ni and di = di and no = no and do = do] by (auto split: prod.splits)
next
  case (Fr_Delete ni di no do)
  then show ?thesis
    using frsw_delete_vc_refines [OF assms, where ni = ni and di = di and no = no and do = do] by (auto split: prod.splits)
qed

lemma fr_run_refines:
  assumes "fr_inv n t s" "fold (fr_step self) ops (n, t, s) = (n', t', s')"
  shows "fr_inv n' t' s' \<and> fr_abs t' s' = fold (fr_spec (nio_ptr (fr_net s))) ops (fr_abs t s)"
  using assms
proof (induction ops arbitrary: n t s)
  case (Cons op ops)
  obtain n1 t1 s1 where one: "fr_step self op (n, t, s) = (n1, t1, s1)" by (metis prod_cases3)
  then have "fr_inv n1 t1 s1" "nio_ptr (fr_net s1) = nio_ptr (fr_net s)"
    "fr_abs t1 s1 = fr_spec (nio_ptr (fr_net s)) op (fr_abs t s)"
    using fr_step_refines [OF Cons.prems(1), where self = self and op = op] by auto
  then show ?case using Cons.IH [of n1 t1 s1] Cons.prems(2) one by simp
qed simp

definition frsw_empty :: "string \<Rightarrow> frsw_table" where
  "frsw_empty name = \<lparr>frsw_name = name, frsw_drop = 0, dlci_table = (\<lambda>_. [])\<rparr>"

definition fr_start :: "'o net \<Rightarrow> 'o fr_world" where
  "fr_start w = \<lparr>fr_vcs = Map.empty, fr_net = w\<rparr>"

lemma fr_start_inv:
  assumes "net_inv w" "\<And>p. fr_conn_list (net_nio w p) = []"
  shows "fr_inv 0 (frsw_empty name) (fr_start w)" "fr_abs (frsw_empty name) (fr_start w) = Map.empty"
proof -
  show "fr_inv 0 (frsw_empty name) (fr_start w)"
    using assms by (simp add: fr_inv_def frsw_empty_def fr_start_def fr.inv_empty)
  show "fr_abs (frsw_empty name) (fr_start w) = Map.empty"
    by (rule prod_fun_ext) (simp add: fr_abs_def frsw_empty_def fr_start_def frsw_dlci_lookup_def chain_lookup_def)
qed

lemma sorted_wrt_unique_list:
  assumes "sorted_wrt (<) (map D xs)" "D ` set xs = A"
  shows "map D xs = sorted_list_of_set (A :: 'b::linorder set)"
proof -
  have "sorted_list_of_set (set (map D xs)) = map D xs"
    using assms(1) by (intro sorted_list_of_set.idem_if_sorted_distinct) (simp_all add: strict_sorted_iff)
  then show ?thesis using assms(2) by simp
qed

lemma fr_list_dlcis:
  assumes "fr_inv n t s"
  shows "map (vc_dlci s) (fr_conn_list (net_nio (fr_net s) p)) =
    sorted_list_of_set {d. fr_abs t s (p, d) \<noteq> None}"
proof (rule sorted_wrt_unique_list)
  show "sorted_wrt (<) (map (vc_dlci s) (fr_conn_list (net_nio (fr_net s) p)))"
    using fr_inv_sorted [OF assms] by (simp add: sorted_wrt_map)
  have "vc_dlci s ` set (fr_conn_list (net_nio (fr_net s) p)) =
      {d. \<exists>i vc. fr_vcs s i = Some vc \<and> vc_input vc = p \<and> vc_dlci_in vc = d}"
    using fr_inv_list [OF assms, of _ p] by (force simp: vc_dlci_def image_iff)
  also have "\<dots> = {d. fr_abs t s (p, d) \<noteq> None}"
    using fr_abs_iff [OF assms] by fastforce
  finally show "vc_dlci s ` set (fr_conn_list (net_nio (fr_net s) p)) = {d. fr_abs t s (p, d) \<noteq> None}" .
qed

text \<open>
  C23: the circuit table of a Frame Relay switch implements a finite map. After any sequence of
  circuit creations and deletions, valid or not, a lookup gives the output NIO and DLCI of the
  circuit the sequence left for that input, or nothing; and the list the LMI advertises on an
  input NIO holds exactly its configured DLCIs, in increasing order.
\<close>

theorem frsw_table_refines_map:
  assumes "net_inv w" "\<And>p. fr_conn_list (net_nio w p) = []"
    "fold (fr_step self) ops (0, frsw_empty name, fr_start w) = (n, t, s)"
  shows "fr_abs t s = fold (fr_spec (nio_ptr w)) ops Map.empty \<and>
    map (vc_dlci s) (fr_conn_list (net_nio (fr_net s) p)) =
      sorted_list_of_set {d. fold (fr_spec (nio_ptr w)) ops Map.empty (p, d) \<noteq> None}"
proof -
  have "fr_inv n t s" "fr_abs t s = fold (fr_spec (nio_ptr w)) ops Map.empty"
    using fr_run_refines [OF fr_start_inv(1) [OF assms(1,2)] assms(3)] fr_start_inv(2) [OF assms(1,2)]
    by (simp_all add: fr_start_def)
  then show ?thesis using fr_list_dlcis [of n t s p] by simp
qed

theorem frsw_table_refines_map_witness:
  "case fold (fr_step 9) [Fr_Create True (Some ''a'') 200 (Some ''b'') 16, Fr_Create True (Some ''a'') 100 (Some ''b'') 17]
      (0, frsw_empty ''sw'', fr_start sample_net) of (n, t, s) \<Rightarrow>
    map (vc_dlci s) (fr_conn_list (net_nio (fr_net s) 0)) = [100, 200]"
proof -
  let ?ops = "[Fr_Create True (Some ''a'') 200 (Some ''b'') 16, Fr_Create True (Some ''a'') 100 (Some ''b'') 17]"
  obtain n t s where run: "fold (fr_step 9) ?ops (0, frsw_empty ''sw'', fr_start sample_net) = (n, t, s)"
    by (metis prod_cases3)
  have "{d. fold (fr_spec (nio_ptr sample_net)) ?ops Map.empty (0, d) \<noteq> None} = {100, 200 :: u32}" by auto
  then show ?thesis
    using frsw_table_refines_map [OF sample_net_reg(1) sample_net_simps(5) run, of 0] run by simp
qed

section \<open>Switching a packet\<close>

lemma fr_masks:
  "(0xfc :: u32) = push_bit 2 (mask 6)" "(0xf0 :: u32) = push_bit 4 (mask 4)"
  "(0x0f :: u32) = mask 4" "(0x0f :: u8) = mask 4" "(0x03 :: u8) = mask 2"
  by (simp_all add: mask_eq_exp_minus_1)

lemma bit_pkt_dlci [word_bits]:
  "bit (pkt_dlci pkt) n \<longleftrightarrow> (if n < 4 then bit (pkt ! 1) (n + 4) else n < 10 \<and> bit (pkt ! 0) (n - 2))"
proof (cases "n < 4")
  case True
  then show ?thesis
    unfolding pkt_dlci_def fr_masks
    by (auto simp: bit_or_iff bit_and_iff bit_push_bit_iff bit_drop_bit_eq bit_ucast_iff bit_mask_iff
        add.commute dest: bit_imp_le_length)
next
  case False
  then obtain m where n: "n = m + 4" by (metis le_add_diff_inverse2 not_less)
  have "m + 2 < 8" if "bit (pkt ! 0) (m + 2)" using bit_imp_le_length [OF that] by simp
  moreover have "m + 8 < 8 \<Longrightarrow> False" by simp
  ultimately show ?thesis
    unfolding pkt_dlci_def fr_masks n
    by (auto simp: bit_or_iff bit_and_iff bit_push_bit_iff bit_drop_bit_eq bit_ucast_iff bit_mask_iff
        add.commute simp del: add_2_eq_Suc add_2_eq_Suc' dest: bit_imp_le_length)
qed

lemma bit_less_1024:
  assumes "(d :: u32) < 1024" "bit d n"
  shows "n < 10"
proof (rule ccontr)
  assume "\<not> n < 10"
  have "take_bit 10 (unat d) = unat d"
    using assms(1) by (simp add: word_less_nat_alt take_bit_nat_eq_self)
  then have "\<not> bit (unat d) n" using \<open>\<not> n < 10\<close> by (metis bit_take_bit_iff)
  then show False using assms(2) by (simp add: bit_unsigned_iff)
qed

lemma frsw_dlci_switch_pkt:
  assumes "2 \<le> length pkt"
  shows "length (fst (frsw_dlci_switch vc pkt)) = length pkt"
    and "drop 2 (fst (frsw_dlci_switch vc pkt)) = drop 2 pkt"
    and "vc_dlci_out vc < 1024 \<Longrightarrow> pkt_dlci (fst (frsw_dlci_switch vc pkt)) = vc_dlci_out vc"
    and "fst (frsw_dlci_switch vc pkt) ! 0 AND 0x03 = pkt ! 0 AND 0x03"
    and "fst (frsw_dlci_switch vc pkt) ! 1 AND 0x0f = pkt ! 1 AND 0x0f"
proof -
  show "length (fst (frsw_dlci_switch vc pkt)) = length pkt"
    "drop 2 (fst (frsw_dlci_switch vc pkt)) = drop 2 pkt"
    by (simp_all add: frsw_dlci_switch_def)
  have b: "fst (frsw_dlci_switch vc pkt) ! 0 = pkt ! 0 AND 0x03 OR ucast (push_bit 2 (drop_bit 4 (vc_dlci_out vc)))"
    "fst (frsw_dlci_switch vc pkt) ! 1 = pkt ! 1 AND 0x0f OR ucast (push_bit 4 (vc_dlci_out vc AND 0x0f))"
    using assms by (cases pkt; cases "tl pkt"; simp add: frsw_dlci_switch_def)+
  show "pkt_dlci (fst (frsw_dlci_switch vc pkt)) = vc_dlci_out vc" if "vc_dlci_out vc < 1024"
    by (rule bit_word_eqI)
       (auto simp: bit_pkt_dlci b[unfolded fr_masks] bit_or_iff bit_and_iff bit_ucast_iff bit_push_bit_iff
         bit_drop_bit_eq bit_mask_iff simp del: One_nat_def dest: bit_less_1024 [OF that])
  show "fst (frsw_dlci_switch vc pkt) ! 0 AND 0x03 = pkt ! 0 AND 0x03"
    "fst (frsw_dlci_switch vc pkt) ! 1 AND 0x0f = pkt ! 1 AND 0x0f"
    unfolding b fr_masks
    by (rule bit_word_eqI;
        auto simp: bit_or_iff bit_and_iff bit_ucast_iff bit_push_bit_iff bit_drop_bit_eq bit_mask_iff)+
qed

lemma pkt_dlci_take: "2 \<le> len \<Longrightarrow> pkt_dlci (take len buf) = pkt_dlci buf"
  by (simp add: pkt_dlci_def)

text \<open>
  C24: a packet on a configured DLCI leaves through the circuit's output NIO carrying the output
  DLCI; the other bits of its address field and all its payload are untouched, the circuit's
  counter is incremented and nothing is counted as dropped.
\<close>

theorem frsw_switches_packet:
  assumes "fr_inv n t s" "fr_vcs s i = Some vc" "vc_input vc = p" "vc_dlci_in vc = pkt_dlci buf"
    "pkt_dlci buf \<noteq> 0" "vc_dlci_out vc < 1024" "2 \<le> len" "len \<le> length buf"
    "tx_filter (net_nio (fr_net s) (vc_output vc)) = None"
    "both_filter (net_nio (fr_net s) (vc_output vc)) = None"
    "\<And>w q pkt. os w q pkt = int (length pkt)"
  shows "\<exists>out s'. frsw_handle_pkt os t p buf len s = Inr (0, t, s') \<and>
    net_sent (fr_net s') = net_sent (fr_net s) @ [(vc_output vc, out)] \<and>
    length out = len \<and> pkt_dlci out = vc_dlci_out vc \<and>
    out ! 0 AND 0x03 = buf ! 0 AND 0x03 \<and> out ! 1 AND 0x0f = buf ! 1 AND 0x0f \<and>
    drop 2 out = drop 2 (take len buf) \<and>
    fr_vcs s' i = Some (vc\<lparr>vc_count := vc_count vc + 1\<rparr>)"
proof -
  define buf' where "buf' = fst (frsw_dlci_switch vc buf)"
  let ?s = "s\<lparr>fr_vcs := (fr_vcs s)(i \<mapsto> vc\<lparr>vc_count := vc_count vc + 1\<rparr>)\<rparr>"
  let ?out = "take len buf'"
  have buf: "2 \<le> length buf" using assms(7,8) by simp
  note sw = frsw_dlci_switch_pkt [OF buf, of vc, folded buf'_def]
  have look: "frsw_dlci_lookup (dlci_table t) (fr_vcs s) p (pkt_dlci buf) = Some i"
    using fr_inv_cell [OF assms(1,2)] assms(2,3,4)
    by (simp add: fr_lookup_iff [OF fr_inv_table [OF assms(1)]])
  have swe: "frsw_dlci_switch vc buf = (buf', vc\<lparr>vc_count := vc_count vc + 1\<rparr>)"
    by (simp add: frsw_dlci_switch_def buf'_def)
  obtain w where w: "netio_send os (Some (vc_output vc)) ?out (fr_net s) = (int len, w)"
    "net_sent w = net_sent (fr_net s) @ [(vc_output vc, ?out)]"
    using assms(8-11) sw(1) by (simp add: netio_send_def netio_tx_def apply_filter_def Let_def)
  have "frsw_handle_pkt os t p buf len s = Inr (0, t, ?s\<lparr>fr_net := w\<rparr>)"
    using look swe w(1) assms(2,5) by (simp add: frsw_handle_pkt_def FR_DLCI_LMI_ANSI_def)
  moreover have "pkt_dlci ?out = vc_dlci_out vc" "?out ! 0 = buf' ! 0" "?out ! 1 = buf' ! 1"
    using sw(3) assms(6,7) by (simp_all add: pkt_dlci_take)
  moreover have "drop 2 ?out = drop 2 (take len buf)" using sw(2) by (simp add: drop_take)
  ultimately show ?thesis
    using w(2) sw(1,4,5) assms(8) by (intro exI [of _ ?out] exI [of _ "?s\<lparr>fr_net := w\<rparr>"]) simp
qed


section \<open>The LMI reply\<close>

lemma lmi_item_decodes:
  assumes "d < 1024"
  shows "push_bit 4 (ucast (lmi_dlci_item d ! 2)) OR (drop_bit 3 (ucast (lmi_dlci_item d ! 3)) AND 0x0f) = d"
proof -
  have m: "(0x0f :: u32) = mask 4" by (simp add: mask_eq_exp_minus_1)
  have b80: "bit (0x80 :: u8) n \<longleftrightarrow> n = 7" for n
    using bit_exp_iff [where ?'a = "8 word", of 7 n] by auto
  define x where "x = (0x80 OR ucast (push_bit 3 (d AND mask 4)) :: u8)"
  have x: "bit x (n + 3) = bit d n" if "n < 4" for n
    using that unfolding x_def bit_or_iff b80
    by (simp add: bit_and_iff bit_push_bit_iff bit_ucast_iff bit_mask_iff)
  have i: "lmi_dlci_item d ! 2 = ucast (drop_bit 4 d)" "lmi_dlci_item d ! 3 = x"
    unfolding lmi_dlci_item_def x_def m by (simp_all add: eval_nat_numeral)
  have "bit (push_bit 4 (ucast (ucast (drop_bit 4 d) :: u8)) OR drop_bit 3 (ucast x) AND mask 4 :: u32) n =
      bit d n" if "n < 32" for n
    using that x bit_less_1024 [OF assms, of n]
    by (cases "n < 4")
       (auto simp: bit_or_iff bit_and_iff bit_push_bit_iff bit_drop_bit_eq bit_ucast_iff bit_mask_iff add.commute)
  then show ?thesis
    unfolding i m by (simp add: word_eq_bits)
qed

lemma length_lmi_item [simp]: "length (lmi_dlci_item d) = 5"
  by (simp add: lmi_dlci_item_def)

lemma lmi_dlcis_result:
  assumes "\<And>i. i \<in> set xs \<Longrightarrow> vcs i \<noteq> None"
  shows "lmi_dlcis vcs xs st =
    (if length (lmi_resp st) + 5 * length xs \<le> FR_MAX_PKT_SIZE \<or> xs = []
     then Inr (st\<lparr>lmi_resp := lmi_resp st @ concat (map (\<lambda>i. lmi_dlci_item (vc_dlci_in (the (vcs i)))) xs)\<rparr>)
     else Inl Out_Of_Bounds)"
  using assms
proof (induction xs arbitrary: st)
  case (Cons i xs)
  then obtain vc where vc: "vcs i = Some vc" by auto
  show ?case
  proof (cases "length (lmi_resp st) + 5 \<le> FR_MAX_PKT_SIZE")
    case True
    then show ?thesis using Cons vc by (simp add: lmi_put_def)
  next
    case False
    then show ?thesis using vc by (simp add: lmi_put_def)
  qed
qed simp

definition next_seq :: "u8 \<Rightarrow> u8" where
  "next_seq rsn = (if rsn + 1 = 0 then 1 else rsn + 1)"

lemma next_seq_nonzero: "next_seq rsn \<noteq> 0"
  by (simp add: next_seq_def)

lemma lmi_start_resp [simp]: "lmi_resp (lmi_start seq) = [0x00, 0x01, 0x03, 0x08, 0x00, 0x7d, 0x95]"
  by (simp add: lmi_start_def lmi_ansi_hdr_def FR_LMI_ANSI_STATUS_OFFSET_def FR_LMI_ANSI_STATUS_def eval_nat_numeral)

lemma lmi_update_swap:
  "st\<lparr>lmi_seq_ok := a, lmi_seq := b\<rparr> = st\<lparr>lmi_seq := b, lmi_seq_ok := a\<rparr>"
  "st\<lparr>lmi_resp := c, lmi_seq_ok := a\<rparr> = st\<lparr>lmi_seq_ok := a, lmi_resp := c\<rparr>"
  by simp_all

lemma lmi_items_enquiry:
  "lmi_items (lmi_start seq) [1, 1, 0, 3, 2, ssn, rsn] =
     Inr (True, \<lparr>lmi_msg_type = 0, lmi_seq_ok = True, lmi_seq = next_seq rsn,
       lmi_resp = [0x00, 0x01, 0x03, 0x08, 0x00, 0x7d, 0x95, 1, 1, 0, 3, 2, next_seq rsn, ssn]\<rparr>)"
proof -
  have "lmi_items (lmi_start seq) [1, 1, 0, 3, 2, ssn, rsn] =
    lmi_items ((lmi_start seq)\<lparr>lmi_msg_type := 0, lmi_resp := lmi_resp (lmi_start seq) @ [1, 1, 0]\<rparr>) [3, 2, ssn, rsn]"
    by (subst lmi_items.simps)
       (simp add: Let_def lmi_put_def FR_MAX_PKT_SIZE_def del: lmi_items.simps)
  also have "\<dots> = lmi_items ((lmi_start seq)\<lparr>lmi_msg_type := 0, lmi_seq := next_seq rsn, lmi_seq_ok := True,
      lmi_resp := lmi_resp (lmi_start seq) @ [1, 1, 0, 3, 2, next_seq rsn, ssn]\<rparr>) []"
    by (subst lmi_items.simps)
       (simp add: Let_def lmi_put_def FR_MAX_PKT_SIZE_def next_seq_def lmi_update_swap del: lmi_items.simps)
  also have "\<dots> = Inr (True, \<lparr>lmi_msg_type = 0, lmi_seq_ok = True, lmi_seq = next_seq rsn,
       lmi_resp = [0x00, 0x01, 0x03, 0x08, 0x00, 0x7d, 0x95, 1, 1, 0, 3, 2, next_seq rsn, ssn]\<rparr>)"
    by (simp add: lmi_start_def lmi_ansi_hdr_def FR_LMI_ANSI_STATUS_OFFSET_def FR_LMI_ANSI_STATUS_def
        eval_nat_numeral)
  finally show ?thesis .
qed

text \<open>
  C25: the answer to a full-status enquiry lists every circuit of the input NIO and the next
  sequence number, never zero; and its 2048-byte buffer on the stack is overrun exactly when the
  NIO has more than 406 circuits.
\<close>

theorem frsw_lmi_full_status:
  assumes "\<And>i. i \<in> set (fr_conn_list (net_nio (fr_net s) p)) \<Longrightarrow> fr_vcs s i \<noteq> None"
    "tx_filter (net_nio (fr_net s) p) = None" "both_filter (net_nio (fr_net s) p) = None"
  shows "case frsw_handle_lmi_ansi_pkt os p (lmi_ansi_hdr @ [1, 1, 0, 3, 2, ssn, rsn]) s of
      Inl e \<Rightarrow> e = Out_Of_Bounds \<and> 406 < length (fr_conn_list (net_nio (fr_net s) p))
    | Inr (res, s') \<Rightarrow> res = 0 \<and> length (fr_conn_list (net_nio (fr_net s) p)) \<le> 406 \<and>
        fr_lmi_seq (net_nio (fr_net s') p) = next_seq rsn \<and> next_seq rsn \<noteq> 0 \<and>
        net_sent (fr_net s') = net_sent (fr_net s) @
          [(p, [0x00, 0x01, 0x03, 0x08, 0x00, 0x7d, 0x95, 1, 1, 0, 3, 2, next_seq rsn, ssn] @
             concat (map (\<lambda>i. lmi_dlci_item (vc_dlci s i)) (fr_conn_list (net_nio (fr_net s) p))))]"
proof -
  let ?L = "fr_conn_list (net_nio (fr_net s) p)"
  let ?s = "set_lmi_seq p (next_seq rsn) s"
  let ?st = "\<lparr>lmi_msg_type = 0, lmi_seq_ok = True, lmi_seq = next_seq rsn,
       lmi_resp = [0x00, 0x01, 0x03, 0x08, 0x00, 0x7d, 0x95, 1, 1, 0, 3, 2, next_seq rsn, ssn]\<rparr>"
  let ?resp = "lmi_resp ?st @ concat (map (\<lambda>i. lmi_dlci_item (vc_dlci s i)) ?L)"
  have s: "fr_vcs ?s = fr_vcs s" "fr_conn_list (net_nio (fr_net ?s) p) = ?L"
    "net_sent (fr_net ?s) = net_sent (fr_net s)"
    "tx_filter (net_nio (fr_net ?s) p) = None" "both_filter (net_nio (fr_net ?s) p) = None"
    "fr_lmi_seq (net_nio (fr_net ?s) p) = next_seq rsn"
    using assms(2,3) by (simp_all add: set_lmi_seq_def)
  have run: "frsw_handle_lmi_ansi_pkt os p (lmi_ansi_hdr @ [1, 1, 0, 3, 2, ssn, rsn]) s =
      bind_out (lmi_dlcis (fr_vcs s) ?L ?st)
        (\<lambda>st. Inr (0, ?s\<lparr>fr_net := snd (netio_send os (Some p) (lmi_resp st) (fr_net ?s))\<rparr>))"
    using lmi_items_enquiry [of "fr_lmi_seq (net_nio (fr_net s) p)" ssn rsn] s(1,2)
    by (simp add: frsw_handle_lmi_ansi_pkt_def Let_def del: lmi_items.simps)
  have dl: "lmi_dlcis (fr_vcs s) ?L ?st =
      (if length ?L \<le> 406 then Inr (?st\<lparr>lmi_resp := ?resp\<rparr>) else Inl Out_Of_Bounds)"
    using lmi_dlcis_result [of ?L "fr_vcs s" ?st] assms(1)
    by (auto simp: FR_MAX_PKT_SIZE_def vc_dlci_def)
  show ?thesis
  proof (cases "length ?L \<le> 406")
    case True
    have "net_sent (snd (netio_send os (Some p) ?resp (fr_net ?s))) = net_sent (fr_net s) @ [(p, ?resp)]"
      using netio_send_no_filter [OF s(4,5)] s(3) by simp
    moreover have "fr_lmi_seq (net_nio (snd (netio_send os (Some p) ?resp (fr_net ?s))) p) = next_seq rsn"
      using s(4-6) by (simp add: netio_send_def netio_tx_def apply_filter_def Let_def netio_update_bw_stat_def)
    ultimately show ?thesis
      using True by (simp add: run dl next_seq_nonzero)
  next
    case False
    then show ?thesis by (simp add: run dl)
  qed
qed

section \<open>A configured switch\<close>

text \<open>Circuits never touch the filters of a descriptor.\<close>

lemma filters_of_frame [simp]:
  "filters_of (snd (netio_acquire name w)) = filters_of w"
  "filters_of (snd (netio_rxl_add ok p h w)) = filters_of w"
  "filters_of (release_nios input outp w) = filters_of w"
  "filters_of (upd_conn_list p f w) = filters_of w"
  by (auto simp: filters_of_def fun_eq_iff upd_conn_list_def)

lemma fr_step_filters:
  "filters_of (fr_net (snd (snd (fr_step self op (n, t, s))))) = filters_of (fr_net s)"
proof (cases op)
  case (Fr_Create ok ni di no do)
  obtain p w1 where 1: "netio_acquire ni (fr_net s) = (p, w1)" by fastforce
  obtain q w2 where 2: "netio_acquire no w1 = (q, w2)" by fastforce
  have w2: "filters_of w2 = filters_of (fr_net s)"
    using 1 2 filters_of_frame(1) [of ni "fr_net s"] filters_of_frame(1) [of no w1] by simp
  have w3: "filters_of (snd (netio_rxl_add ok r self w2)) = filters_of (fr_net s)" for r
    using w2 by simp
  show ?thesis
    using w2 w3 by (auto simp: Fr_Create frsw_create_vc_def 1 2 Let_def case_prod_beta split: option.splits)
next
  case (Fr_Delete ni di no do)
  then show ?thesis
    by (auto simp: frsw_delete_vc_def frsw_unlink_vc_def split: option.splits)
qed

definition sample_fr :: "nat \<times> frsw_table \<times> pf_freqdrop_data fr_world" where
  "sample_fr = fr_step 9 (Fr_Create True (Some ''a'') 100 (Some ''b'') 17) (0, frsw_empty ''sw'', fr_start sample_net)"

lemma sample_fr:
  obtains t s i where "sample_fr = (1, t, s)" "fr_inv 1 t s" "fr_abs t s = [(0, 100) \<mapsto> (1, 17)]"
    "fr_vcs s i = Some \<lparr>vc_input = 0, vc_output = 1, vc_dlci_in = 100, vc_dlci_out = 17, vc_count = 0\<rparr>"
    "filters_of (fr_net s) p = (None, None)" "nio_ptr (fr_net s) = nio_ptr sample_net"
    "net_rxl (fr_net s) = [\<lparr>rxl_nio = 0, rxl_ref_count = 1, rxl_handler = 9\<rparr>]"
    "fr_conn_list (net_nio (fr_net s) 0) = [i]"
proof -
  let ?op = "Fr_Create True (Some ''a'') 100 (Some ''b'') 17"
  obtain n t s where e: "sample_fr = (n, t, s)" by (metis prod_cases3)
  have 1: "n = 1" "fr_inv 1 t s" "nio_ptr (fr_net s) = nio_ptr sample_net"
    "fr_abs t s = [(0, 100) \<mapsto> (1, 17)]"
    using fr_step_refines [OF fr_start_inv(1) [OF sample_net_reg(1) sample_net_simps(5)], where self = 9 and op = ?op and name1 = "''sw''"]
      fr_start_inv(2) [OF sample_net_reg(1) sample_net_simps(5), of "''sw''"] e
    by (simp_all add: sample_fr_def fr_start_def)
  have "filters_of (fr_net s) = filters_of (fr_net (fr_start sample_net))"
    using fr_step_filters [of 9 ?op 0 "frsw_empty ''sw''" "fr_start sample_net"] e
    unfolding sample_fr_def by (metis snd_conv)
  then have f: "filters_of (fr_net s) p = (None, None)"
    by (simp add: fr_start_def) (simp add: filters_of_def sample_net_def netio_create_def Let_def)
  define w1 where "w1 = snd (netio_acquire (Some ''a'') sample_net)"
  define w2 where "w2 = snd (netio_acquire (Some ''b'') w1)"
  note a1 = netio_acquire_spec [OF sample_net_reg(1), of "Some ''a''", folded w1_def]
  note a2 = netio_acquire_spec [OF a1(2), of "Some ''b''", folded w2_def]
  have acq: "netio_acquire (Some ''a'') sample_net = (Some 0, w1)" "netio_acquire (Some ''b'') w1 = (Some 1, w2)"
    using a1 a2 by (simp_all add: prod_eq_iff w1_def w2_def)
  have rx: "net_rxl w2 = []" "net_nio w2 = net_nio sample_net"
    by (simp_all add: w1_def w2_def) (simp add: sample_net_def Let_def)
  have look: "frsw_dlci_lookup (dlci_table (frsw_empty ''sw'')) Map.empty 0 100 = None"
    by (simp add: frsw_empty_def frsw_dlci_lookup_def chain_lookup_def)
  have s: "s = \<lparr>fr_vcs = [0 \<mapsto> \<lparr>vc_input = 0, vc_output = 1, vc_dlci_in = 100, vc_dlci_out = 17, vc_count = 0\<rparr>],
      fr_net = upd_conn_list 0 (frsw_insert_list Map.empty 0 100) (snd (netio_rxl_add True 0 9 w2))\<rparr>"
    using e acq look
    by (auto simp: sample_fr_def fr_start_def frsw_create_vc_def netio_rxl_add_def)
  have "net_rxl (fr_net s) = [\<lparr>rxl_nio = 0, rxl_ref_count = 1, rxl_handler = 9\<rparr>]"
    using rx by (simp add: s netio_rxl_add_def netio_rxl_add_internal_def)
  moreover have "fr_conn_list (net_nio (fr_net s) 0) = [0]"
    using rx by (simp add: s frsw_insert_list_def netio_create_def)
  moreover have "fr_vcs s 0 = Some \<lparr>vc_input = 0, vc_output = 1, vc_dlci_in = 100, vc_dlci_out = 17, vc_count = 0\<rparr>"
    by (simp add: s)
  ultimately show ?thesis using that e 1 f by metis
qed

theorem frsw_switches_packet_witness:
  "case sample_fr of (_, t, s) \<Rightarrow> \<exists>out s'.
     frsw_handle_pkt (\<lambda>_ _ pkt. int (length pkt)) t 0 [0x19, 0x41, 7, 0] 3 s = Inr (0, t, s') \<and>
     net_sent (fr_net s') = net_sent (fr_net s) @ [(1, out)] \<and> length out = 3 \<and> pkt_dlci out = 17"
proof -
  obtain t s i where s: "sample_fr = (1, t, s)" "fr_inv 1 t s"
    "fr_vcs s i = Some \<lparr>vc_input = 0, vc_output = 1, vc_dlci_in = 100, vc_dlci_out = 17, vc_count = 0\<rparr>"
    "filters_of (fr_net s) 1 = (None, None)"
    by (rule sample_fr)
  have d: "pkt_dlci [0x19, 0x41, 7, 0] = 100" by (simp add: pkt_dlci_def)
  show ?thesis
    unfolding s(1) prod.case
    using frsw_switches_packet [OF s(2,3), where p = 0 and buf = "[0x19, 0x41, 7, 0]" and len = 3 and
        os = "\<lambda>_ _ pkt. int (length pkt)"] s(4) d
    by (auto simp: filters_of_def)
qed

theorem frsw_lmi_full_status_witness:
  "case sample_fr of (_, t, s) \<Rightarrow> \<exists>s'.
     frsw_handle_lmi_ansi_pkt (\<lambda>_ _ pkt. int (length pkt)) 0 (lmi_ansi_hdr @ [1, 1, 0, 3, 2, 5, 255]) s = Inr (0, s') \<and>
     fr_lmi_seq (net_nio (fr_net s') 0) = 1 \<and>
     net_sent (fr_net s') = net_sent (fr_net s) @
       [(0, [0, 1, 3, 8, 0, 0x7d, 0x95, 1, 1, 0, 3, 2, 1, 5, 7, 3, 6, 0xa0, 0x82])]"
proof -
  obtain t s i where s: "sample_fr = (1, t, s)"
    "fr_vcs s i = Some \<lparr>vc_input = 0, vc_output = 1, vc_dlci_in = 100, vc_dlci_out = 17, vc_count = 0\<rparr>"
    "filters_of (fr_net s) 0 = (None, None)" "fr_conn_list (net_nio (fr_net s) 0) = [i]"
    by (rule sample_fr)
  have "lmi_dlci_item 100 = [7, 3, 6, 0xa0, 0x82]" by (simp add: lmi_dlci_item_def)
  then show ?thesis
    unfolding s(1) prod.case
    using frsw_lmi_full_status [where s = s and p = 0 and os = "\<lambda>_ _ pkt. int (length pkt)" and
        ssn = 5 and rsn = 255] s(2-4)
    by (auto simp: filters_of_def vc_dlci_def next_seq_def split: sum.splits)
qed

text \<open>
  C26: asking for a circuit that already exists is refused, but the error path also removes the
  input NIO from the receive listeners, where the failed request never added it: when the
  circuit is the NIO's only one, the switch stops receiving from it.
\<close>

theorem frsw_duplicate_circuit_stops_input:
  assumes "fr_inv n t s" "nio_ptr (fr_net s) ni = Some p" "nio_ptr (fr_net s) no = Some q"
    "fr_abs t s (p, di) \<noteq> None" "rxl_inv 1 (net_rxl (fr_net s))" "rxl_abs (net_rxl (fr_net s)) p = Some (1, h)"
  shows "case frsw_create_vc (Some n) ok self t ni di no do s of (res, t', s') \<Rightarrow>
    res = -1 \<and> fr_abs t' s' = fr_abs t s \<and> netio_rxl_find (net_rxl (fr_net s')) p = None"
proof -
  define w1 where "w1 = snd (netio_acquire ni (fr_net s))"
  define w2 where "w2 = snd (netio_acquire no w1)"
  note a1 = netio_acquire_spec [OF fr_inv_net_inv [OF assms(1)], of ni, folded w1_def]
  note a2 = netio_acquire_spec [OF a1(2), of no, folded w2_def]
  have acq: "netio_acquire ni (fr_net s) = (Some p, w1)" "netio_acquire no w1 = (Some q, w2)"
    using a1 a2 assms(2,3) by (simp_all add: prod_eq_iff w1_def w2_def)
  have "frsw_dlci_lookup (dlci_table t) (fr_vcs s) p di \<noteq> None"
    using assms(4) fr_abs_None [OF assms(1)] by simp
  then have c: "frsw_create_vc (Some n) ok self t ni di no do s =
      (-1, t, s\<lparr>fr_net := release_nios (Some p) (Some q) w2\<rparr>)"
    using acq by (auto simp: frsw_create_vc_def)
  have "net_rxl (release_nios (Some p) (Some q) w2) = snd (netio_rxl_remove_internal p (net_rxl (fr_net s)))"
    by (simp add: release_nios_def) (simp add: netio_rxl_remove_def w1_def w2_def)
  moreover have "rxl_abs (snd (netio_rxl_remove_internal p (net_rxl (fr_net s)))) p = None"
    using rxl_remove_refines [OF assms(5), of p] assms(6) by simp
  ultimately have "netio_rxl_find (net_rxl (release_nios (Some p) (Some q) w2)) p = None"
    by (simp add: rxl_abs_def)
  then show ?thesis by (simp add: c)
qed

theorem frsw_duplicate_circuit_stops_input_witness:
  "case sample_fr of (n, t, s) \<Rightarrow>
     case frsw_create_vc (Some n) True 9 t (Some ''a'') 100 (Some ''b'') 18 s of (res, t', s') \<Rightarrow>
       res = -1 \<and> fr_abs t' s' (0, 100) = Some (1, 17) \<and> netio_rxl_find (net_rxl (fr_net s')) 0 = None"
proof -
  obtain t s i where s: "sample_fr = (1, t, s)" "fr_inv 1 t s" "fr_abs t s = [(0, 100) \<mapsto> (1, 17)]"
    "nio_ptr (fr_net s) = nio_ptr sample_net"
    "net_rxl (fr_net s) = [\<lparr>rxl_nio = 0, rxl_ref_count = 1, rxl_handler = 9\<rparr>]"
    by (rule sample_fr)
  have rxl: "rxl_inv 1 (net_rxl (fr_net s))" "rxl_abs (net_rxl (fr_net s)) 0 = Some (1, 9)"
    by (simp_all add: s(5) rxl_inv_def)
  show ?thesis
    unfolding s(1) prod.case
    using frsw_duplicate_circuit_stops_input [OF s(2) _ _ _ rxl, where ni = "Some ''a''" and
        no = "Some ''b''" and q = 1 and di = 100 and ok = True and self = 9 and do = 18] s(3,4)
    by (auto split: prod.splits)
qed

text \<open>
  Deleting a switch frees its circuits but leaves them on the lists of their input NIOs, which
  outlive it: the next switch created on such an NIO walks freed memory.
\<close>

lemma release_cell_frame: "net_nio (fold (release_cell vcs) xs w) = net_nio w"
  by (induction xs arbitrary: w) (simp_all add: release_cell_def split: option.splits)

lemma frsw_free_leaves_circuits_listed:
  "fr_conn_list (net_nio (fr_net (snd (frsw_free t s))) p) = fr_conn_list (net_nio (fr_net s) p)"
  "i \<in> set (all_cells FRSW_HASH_SIZE (dlci_table t)) \<Longrightarrow> fr_vcs (snd (frsw_free t s)) i = None"
  by (simp_all add: frsw_free_def Let_def release_cell_frame)

text \<open>
  The saved configuration follows the wrong links. With circuits 100 and 200 on one NIO, whose
  buckets differ, circuit 200 is saved twice.
\<close>

lemma frsw_save_config_duplicates:
  "frsw_save_config
     \<lparr>frsw_name = ''sw'', frsw_drop = 0, dlci_table = (\<lambda>h. if h = 100 then [0] else if h = 200 then [1] else [])\<rparr>
     \<lparr>fr_vcs = [0 \<mapsto> \<lparr>vc_input = 0, vc_output = 1, vc_dlci_in = 100, vc_dlci_out = 16, vc_count = 0\<rparr>,
               1 \<mapsto> \<lparr>vc_input = 0, vc_output = 1, vc_dlci_in = 200, vc_dlci_out = 17, vc_count = 0\<rparr>],
      fr_net = upd_conn_list 0 (\<lambda>_. [0, 1]) sample_net\<rparr> =
   [(''a'', 100, ''b'', 16), (''a'', 200, ''b'', 17), (''a'', 200, ''b'', 17)]"
proof -
  have split: "[0..<256] = [0..<100] @ 100 # [101..<200] @ 200 # [201..<256]"
    using upt_add_eq_append [of 0 100 156] upt_add_eq_append [of 101 200 56]
    by (simp add: upt_conv_Cons)
  have z: "concat (map (\<lambda>h. case (if h = 100 then [0 :: nat] else if h = 200 then [1] else []) of [] \<Rightarrow> []
      | i # _ \<Rightarrow> F i) hs) = []" if "\<forall>h\<in>set hs. h \<noteq> 100 \<and> h \<noteq> (200 :: nat)" for F :: "nat \<Rightarrow> 'b list" and hs
    using that by (induction hs) auto
  show ?thesis
    unfolding frsw_save_config_def FRSW_HASH_SIZE_def split map_append concat_append list.map concat.simps
    by (simp add: z frsw_save_line_def upd_conn_list_def netio_create_def)
qed

end
