(* ===== verification/Device.thy ===== *)
theory Device
  imports Prelude
begin

text \<open>
  The devices of a virtual machine and its physical memory: the device list of
  \<open>stable/vm.c\<close>, the devices of \<open>common/device.c\<close>, the memory they give access to
  (\<open>common/memory.c\<close>) and the host pages behind sparse devices.

  Host memory is a map from host addresses to bytes, 0 being \<open>NULL\<close>.  The areas that the
  host allocator will return are the list \<open>host_areas\<close>, empty when memory is exhausted.
  A device is a pointer into \<open>dev_heap\<close>; a handler is a function pointer, looked up in the
  table of handlers that every access takes as its argument, and may change the whole
  machine, \<open>dev_state\<close> being the private data of the devices.
\<close>

section \<open>Types\<close>

datatype mts_op = MTS_READ | MTS_WRITE

definition VDEVICE_FLAG_NO_MTS_MMAP :: u32 where "VDEVICE_FLAG_NO_MTS_MMAP = 0x01"
definition VDEVICE_FLAG_CACHING :: u32 where "VDEVICE_FLAG_CACHING = 0x02"
definition VDEVICE_FLAG_REMAP :: u32 where "VDEVICE_FLAG_REMAP = 0x04"
definition VDEVICE_FLAG_SYNC :: u32 where "VDEVICE_FLAG_SYNC = 0x08"
definition VDEVICE_FLAG_SPARSE :: u32 where "VDEVICE_FLAG_SPARSE = 0x10"
definition VDEVICE_FLAG_GHOST :: u32 where "VDEVICE_FLAG_GHOST = 0x20"
definition VDEVICE_PTE_DIRTY :: u64 where "VDEVICE_PTE_DIRTY = 0x01"

definition VM_PAGE_SHIFT :: nat where "VM_PAGE_SHIFT = 12"
definition VM_PAGE_SIZE :: nat where "VM_PAGE_SIZE = 4096"
definition VM_PAGE_IMASK :: u64 where "VM_PAGE_IMASK = 0xfff"
definition VM_PAGE_MASK :: u64 where "VM_PAGE_MASK = NOT 0xfff"
definition VM_CHUNK_AREA_SIZE :: nat where "VM_CHUNK_AREA_SIZE = 256"
definition VM_DEVICE_MAX :: nat where "VM_DEVICE_MAX = 64"

lemmas dev_flags_defs =
  VDEVICE_FLAG_NO_MTS_MMAP_def VDEVICE_FLAG_CACHING_def VDEVICE_FLAG_REMAP_def
  VDEVICE_FLAG_SYNC_def VDEVICE_FLAG_SPARSE_def VDEVICE_FLAG_GHOST_def

record vdevice =
  dev_name :: string
  dev_id :: nat
  phys_addr :: u64
  phys_len :: u32
  host_addr :: u64
  dev_flags :: u32
  dev_fd :: int
  dev_handler :: "nat option"         \<comment> \<open>a function pointer\<close>
  sparse_map :: "nat option"          \<comment> \<open>a pointer into \<open>sparse_heap\<close>\<close>

record vm_chunk =
  chunk_area :: u64
  page_alloc :: nat
  page_total :: nat

datatype vm_status = VM_STATUS_HALTED | VM_STATUS_SHUTDOWN | VM_STATUS_RUNNING | VM_STATUS_SUSPENDED
datatype cpu_state = CPU_STATE_RUNNING | CPU_STATE_HALTED | CPU_STATE_SUSPENDED

record 'd vm_instance =
  dev_heap :: "nat \<Rightarrow> vdevice"
  dev_list :: "nat list"
  dev_array :: "nat option list"
  sparse_heap :: "nat \<Rightarrow> u64 list"
  host_mem :: "u64 \<Rightarrow> u8"
  chunks :: "vm_chunk list"
  host_areas :: "u64 list"            \<comment> \<open>what \<open>m_memalign\<close> will return\<close>
  status :: vm_status
  cpu_states :: "cpu_state list"      \<comment> \<open>\<open>state\<close> of the CPUs of the group\<close>
  prev_states :: "cpu_state list"     \<comment> \<open>their \<open>prev_state\<close>\<close>
  dev_state :: 'd

text \<open>What a handler and a pointer lookup return: a host pointer (or \<open>NULL\<close>) and the data.\<close>

type_synonym 'd access_result = "((u64 \<times> u64) \<times> 'd vm_instance) outcome"
type_synonym 'd handlers = "nat \<Rightarrow> nat \<Rightarrow> u32 \<Rightarrow> nat \<Rightarrow> mts_op \<Rightarrow> u64 \<Rightarrow> 'd vm_instance \<Rightarrow> 'd access_result"

abbreviation has_flag :: "vdevice \<Rightarrow> u32 \<Rightarrow> bool" where
  "has_flag d f \<equiv> dev_flags d AND f \<noteq> 0"

section \<open>Host memory\<close>

definition hget :: "(u64 \<Rightarrow> u8) \<Rightarrow> u64 \<Rightarrow> nat \<Rightarrow> bytes" where
  "hget m a n = map (\<lambda>i. m (a + of_nat i)) [0..<n]"

definition hput :: "(u64 \<Rightarrow> u8) \<Rightarrow> u64 \<Rightarrow> bytes \<Rightarrow> u64 \<Rightarrow> u8" where
  "hput m a bs = (\<lambda>x. if unat (x - a) < length bs then bs ! unat (x - a) else m x)"

abbreviation host_write :: "u64 \<Rightarrow> bytes \<Rightarrow> 'd vm_instance \<Rightarrow> 'd vm_instance" where
  "host_write a bs vm \<equiv> vm\<lparr>host_mem := hput (host_mem vm) a bs\<rparr>"

abbreviation host_read :: "u64 \<Rightarrow> nat \<Rightarrow> 'd vm_instance \<Rightarrow> bytes" where
  "host_read a n vm \<equiv> hget (host_mem vm) a n"

text \<open>The big-endian (\<open>vmtoh\<close>, \<open>htovm\<close>) fields of 64 bits.\<close>

definition hton64_bytes :: "u64 \<Rightarrow> bytes" where
  "hton64_bytes v = hton32_bytes (ucast (drop_bit 32 v)) @ hton32_bytes (ucast v)"

definition m_ntoh64 :: "bytes \<Rightarrow> nat \<Rightarrow> u64" where
  "m_ntoh64 p i = push_bit 32 (ucast (m_ntoh32 p i)) OR ucast (m_ntoh32 p (i + 4))"

lemma length_hget [simp]: "length (hget m a n) = n"
  by (simp add: hget_def)

lemma nth_hget [simp]: "i < n \<Longrightarrow> hget m a n ! i = m (a + of_nat i)"
  by (simp add: hget_def)

lemma hput_Nil [simp]: "hput m a [] = m"
  by (simp add: hput_def)

lemma unat_offset: "k < 2 ^ 64 \<Longrightarrow> unat (a + of_nat k - a :: u64) = k"
  by (simp add: unsigned_of_nat take_bit_nat_eq_self)

lemma hget_hput_sub:
  assumes "k + n \<le> length bs" "length bs \<le> 2 ^ 64"
  shows "hget (hput m a bs) (a + of_nat k) n = take n (drop k bs)"
proof (rule nth_equalityI)
  fix i assume "i < length (hget (hput m a bs) (a + of_nat k) n)"
  then have i: "i < n" by simp
  have "unat (a + of_nat (k + i) - a :: u64) = k + i"
    by (rule unat_offset) (use i assms in linarith)
  then have "unat (a + of_nat k + of_nat i - a :: u64) = k + i" by (simp add: add.assoc)
  then show "hget (hput m a bs) (a + of_nat k) n ! i = take n (drop k bs) ! i"
    using i assms by (simp add: hput_def)
qed (use assms in simp)

lemma hget_hput [simp]:
  assumes "length bs \<le> 2 ^ 64" "n = length bs"
  shows "hget (hput m a bs) a n = bs"
  using hget_hput_sub [of 0 n bs m a] assms by simp

lemma hget_hput_other:
  assumes "\<And>i. i < n \<Longrightarrow> length bs \<le> unat (b + of_nat i - a)"
  shows "hget (hput m a bs) b n = hget m b n"
  by (rule nth_equalityI) (use assms in \<open>auto simp: hput_def dest: leD\<close>)

lemma hput_append:
  assumes "length bs + length cs \<le> 2 ^ 64"
  shows "hput (hput m a bs) (a + of_nat (length bs)) cs = hput m a (bs @ cs)"
proof
  fix x
  let ?o = "unat (x - a)"
  have lt: "?o < 2 ^ 64" using unsigned_less [of "x - a", where 'a = nat] by simp
  have x: "x - (a + of_nat (length bs)) = (x - a) - of_nat (length bs)" by simp
  show "hput (hput m a bs) (a + of_nat (length bs)) cs x = hput m a (bs @ cs) x"
  proof (cases "length bs \<le> ?o")
    case True
    then have "unat (of_nat (length bs) :: u64) = length bs"
      using lt by (simp add: unsigned_of_nat take_bit_nat_eq_self)
    then have "unat (x - (a + of_nat (length bs))) = ?o - length bs"
      unfolding x using True by (subst unat_sub) (simp_all add: word_le_nat_alt)
    then show ?thesis
      using True by (auto simp: hput_def nth_append)
  next
    case False
    show ?thesis
    proof (cases "length bs = 2 ^ 64")
      case True then have "cs = []" using assms by simp
      then show ?thesis by simp
    next
      case nf: False
      then have l: "unat (of_nat (length bs) :: u64) = length bs"
        using assms by (simp add: unsigned_of_nat take_bit_nat_eq_self)
      have "unat (x - (a + of_nat (length bs))) = 2 ^ 64 + ?o - length bs"
        unfolding x using False l by (simp add: unat_sub_if')
      then have "\<not> unat (x - (a + of_nat (length bs))) < length cs"
        using assms False by linarith
      then show ?thesis
        using False by (simp add: hput_def nth_append)
    qed
  qed
qed

lemma length_hton64 [simp]: "length (hton64_bytes v) = 8"
  by (simp add: hton64_bytes_def buf_simps)

lemma nth_hton64:
  "hton64_bytes v ! 0 = ucast (drop_bit 56 v)" "hton64_bytes v ! 1 = ucast (drop_bit 48 v)"
  "hton64_bytes v ! 2 = ucast (drop_bit 40 v)" "hton64_bytes v ! 3 = ucast (drop_bit 32 v)"
  "hton64_bytes v ! 4 = ucast (drop_bit 24 v)" "hton64_bytes v ! 5 = ucast (drop_bit 16 v)"
  "hton64_bytes v ! 6 = ucast (drop_bit 8 v)" "hton64_bytes v ! 7 = ucast v"
  by (auto intro!: bit_word_eqI simp: hton64_bytes_def hton32_bytes_def bit_ucast_iff bit_drop_bit_eq
      ac_simps)

lemma bit_m_ntoh64 [word_bits]:
  "bit (m_ntoh64 p i) n \<longleftrightarrow>
     (if n < 32 then bit (m_ntoh32 p (i + 4)) n else n < 64 \<and> bit (m_ntoh32 p i) (n - 32))"
  by (auto simp: m_ntoh64_def bit_or_iff bit_push_bit_iff bit_ucast_iff dest: bit_imp_le_length)

section \<open>Binding devices (vm.c)\<close>

definition upd_dev :: "nat \<Rightarrow> (vdevice \<Rightarrow> vdevice) \<Rightarrow> 'd vm_instance \<Rightarrow> 'd vm_instance" where
  "upd_dev p f vm = vm\<lparr>dev_heap := (dev_heap vm)(p := f (dev_heap vm p))\<rparr>"

text \<open>The first free slot of the device array.\<close>

fun first_free :: "'a option list \<Rightarrow> nat" where
  "first_free [] = 0"
| "first_free (None # xs) = 0"
| "first_free (Some _ # xs) = Suc (first_free xs)"

text \<open>The list is kept in the order of physical addresses, new devices after equal ones.\<close>

fun insert_dev :: "(nat \<Rightarrow> vdevice) \<Rightarrow> nat \<Rightarrow> nat list \<Rightarrow> nat list" where
  "insert_dev h p [] = [p]"
| "insert_dev h p (q # qs) =
    (if phys_addr (h q) > phys_addr (h p) then p # q # qs else q # insert_dev h p qs)"

definition vm_bind_device :: "nat \<Rightarrow> 'd vm_instance \<Rightarrow> bool \<times> 'd vm_instance" where
  "vm_bind_device p vm =
    (let i = first_free (dev_array vm)
     in if i = VM_DEVICE_MAX then (False, vm)
        else (let vm = vm\<lparr>dev_array := (dev_array vm)[i := Some p]\<rparr>;
                  vm = upd_dev p (\<lambda>d. d\<lparr>dev_id := i\<rparr>) vm
              in (True, vm\<lparr>dev_list := insert_dev (dev_heap vm) p (dev_list vm)\<rparr>)))"

text \<open>\<open>dev->pprev\<close> is set exactly while the device is in the list.\<close>

fun clear_slot :: "nat \<Rightarrow> nat option list \<Rightarrow> nat option list" where
  "clear_slot p [] = []"
| "clear_slot p (x # xs) = (if x = Some p then None # xs else x # clear_slot p xs)"

definition vm_unbind_device :: "nat \<Rightarrow> 'd vm_instance \<Rightarrow> bool \<times> 'd vm_instance" where
  "vm_unbind_device p vm =
    (if p \<notin> set (dev_list vm) then (False, vm)
     else (True, vm\<lparr>dev_list := remove1 p (dev_list vm),
                     dev_array := clear_slot p (dev_array vm)\<rparr>))"

text \<open>\<open>rebuild\<close> is \<open>cpu_group_rebuild_mts\<close>, which clears the caches of every CPU.\<close>

definition vm_map_device ::
  "('d vm_instance \<Rightarrow> 'd vm_instance) \<Rightarrow> nat \<Rightarrow> u64 \<Rightarrow> 'd vm_instance \<Rightarrow> 'd vm_instance" where
  "vm_map_device rebuild p base_addr vm =
    (let vm = snd (vm_unbind_device p vm);
         vm = upd_dev p (\<lambda>d. d\<lparr>phys_addr := base_addr\<rparr>) vm;
         vm = snd (vm_bind_device p vm)
     in rebuild vm)"

definition vm_suspend :: "'d vm_instance \<Rightarrow> 'd vm_instance" where
  "vm_suspend vm =
    (if status vm = VM_STATUS_RUNNING
     then vm\<lparr>prev_states := cpu_states vm,
             cpu_states := map (\<lambda>_. CPU_STATE_SUSPENDED) (cpu_states vm),
             status := VM_STATUS_SUSPENDED\<rparr>
     else vm)"

definition vm_resume :: "'d vm_instance \<Rightarrow> 'd vm_instance" where
  "vm_resume vm =
    (if status vm = VM_STATUS_SUSPENDED
     then vm\<lparr>cpu_states := prev_states vm, status := VM_STATUS_RUNNING\<rparr>
     else vm)"

definition vm_stop :: "'d vm_instance \<Rightarrow> 'd vm_instance" where
  "vm_stop vm = vm\<lparr>cpu_states := map (\<lambda>_. CPU_STATE_HALTED) (cpu_states vm),
                   status := VM_STATUS_SHUTDOWN\<rparr>"

section \<open>Host pages (vm.c)\<close>

definition vm_chunk_create :: "'d vm_instance \<Rightarrow> (vm_chunk \<times> 'd vm_instance) option" where
  "vm_chunk_create vm =
    (case host_areas vm of
       [] \<Rightarrow> None
     | a # as \<Rightarrow>
         let chunk = \<lparr>chunk_area = a, page_alloc = 0, page_total = VM_CHUNK_AREA_SIZE\<rparr>
         in Some (chunk, vm\<lparr>host_areas := as, chunks := chunk # chunks vm\<rparr>))"

definition take_page :: "vm_chunk \<Rightarrow> 'd vm_instance \<Rightarrow> u64 \<times> 'd vm_instance" where
  "take_page chunk vm =
    (chunk_area chunk + of_nat (page_alloc chunk * VM_PAGE_SIZE),
     vm\<lparr>chunks := chunk\<lparr>page_alloc := Suc (page_alloc chunk)\<rparr> # tl (chunks vm)\<rparr>)"

definition vm_alloc_host_page :: "'d vm_instance \<Rightarrow> u64 \<times> 'd vm_instance" where
  "vm_alloc_host_page vm =
    (if chunks vm = [] \<or> page_alloc (hd (chunks vm)) = page_total (hd (chunks vm))
     then (case vm_chunk_create vm of None \<Rightarrow> (0, vm) | Some (chunk, vm) \<Rightarrow> take_page chunk vm)
     else take_page (hd (chunks vm)) vm)"

section \<open>Devices (device.c)\<close>

definition dev_get_by_id :: "nat \<Rightarrow> 'd vm_instance \<Rightarrow> nat option" where
  "dev_get_by_id i vm = (if VM_DEVICE_MAX \<le> i then None else dev_array vm ! i)"

definition dev_get_by_name :: "string \<Rightarrow> 'd vm_instance \<Rightarrow> nat option" where
  "dev_get_by_name name vm = List.find (\<lambda>p. dev_name (dev_heap vm p) = name) (dev_list vm)"

definition dev_covers :: "vdevice \<Rightarrow> u64 \<Rightarrow> bool \<Rightarrow> bool" where
  "dev_covers dev paddr cached \<longleftrightarrow>
     \<not> (cached \<and> \<not> has_flag dev VDEVICE_FLAG_CACHING) \<and>
     phys_addr dev \<le> paddr \<and> paddr - phys_addr dev < ucast (phys_len dev)"

definition dev_lookup :: "u64 \<Rightarrow> bool \<Rightarrow> 'd vm_instance \<Rightarrow> nat option" where
  "dev_lookup paddr cached vm =
    List.find (\<lambda>p. dev_covers (dev_heap vm p) paddr cached) (dev_list vm)"

definition dev_lookup_next :: "u64 \<Rightarrow> nat option \<Rightarrow> bool \<Rightarrow> 'd vm_instance \<Rightarrow> nat option" where
  "dev_lookup_next paddr dev_start cached vm =
    (let devs = (case dev_start of None \<Rightarrow> dev_list vm
                 | Some p \<Rightarrow> dropWhile (\<lambda>q. q \<noteq> p) (dev_list vm))
     in List.find (\<lambda>p. \<not> (cached \<and> \<not> has_flag (dev_heap vm p) VDEVICE_FLAG_CACHING) \<and>
                       phys_addr (dev_heap vm p) > paddr) devs)"

definition dev_init :: vdevice where
  "dev_init = \<lparr>dev_name = '''', dev_id = 0, phys_addr = 0, phys_len = 0, host_addr = 0,
     dev_flags = 0, dev_fd = -1, dev_handler = None, sparse_map = None\<rparr>"

text \<open>\<open>p\<close> is the pointer that \<open>malloc\<close> returns.\<close>

definition dev_create :: "nat \<Rightarrow> string \<Rightarrow> 'd vm_instance \<Rightarrow> 'd vm_instance" where
  "dev_create p name vm = upd_dev p (\<lambda>_. dev_init\<lparr>dev_name := name\<rparr>) vm"

text \<open>\<open>s\<close> is the pointer that \<open>malloc\<close> returns for the map.\<close>

definition dev_sparse_init :: "nat \<Rightarrow> nat \<Rightarrow> 'd vm_instance \<Rightarrow> 'd vm_instance" where
  "dev_sparse_init s p vm =
    (let dev = dev_heap vm p;
         nr_pages = unat (normalize_size (phys_len dev) (of_nat VM_PAGE_SIZE) VM_PAGE_SHIFT);
         m = (if host_addr dev = 0 then replicate nr_pages 0
              else map (\<lambda>i. host_addr dev + ucast (push_bit VM_PAGE_SHIFT (of_nat i :: u32)))
                     [0..<nr_pages]);
         vm = vm\<lparr>sparse_heap := (sparse_heap vm)(s := m)\<rparr>
     in upd_dev p (\<lambda>d. d\<lparr>sparse_map := Some s, dev_flags := dev_flags d OR VDEVICE_FLAG_SPARSE\<rparr>) vm)"

definition dev_sparse_shutdown :: "nat \<Rightarrow> 'd vm_instance \<Rightarrow> bool \<times> 'd vm_instance" where
  "dev_sparse_shutdown p vm =
    (if \<not> has_flag (dev_heap vm p) VDEVICE_FLAG_SPARSE then (False, vm)
     else (True, upd_dev p (\<lambda>d. d\<lparr>sparse_map := None\<rparr>) vm))"

definition dev_remap :: "nat \<Rightarrow> string \<Rightarrow> nat \<Rightarrow> u64 \<Rightarrow> u32 \<Rightarrow> 'd vm_instance \<Rightarrow> 'd vm_instance" where
  "dev_remap p name orig paddr len vm =
    (let o' = dev_heap vm orig;
         vm = dev_create p name vm
     in upd_dev p (\<lambda>d. d\<lparr>phys_addr := paddr, phys_len := len,
          dev_flags := dev_flags o' OR VDEVICE_FLAG_REMAP, dev_fd := dev_fd o',
          host_addr := host_addr o', dev_handler := dev_handler o', sparse_map := sparse_map o'\<rparr>) vm)"

text \<open>
  \<open>ram\<close> is the memory that \<open>m_memalign\<close> or the mapping of a file gave, with its file
  descriptor (-1 for \<open>m_memalign\<close>); 0 when it failed.
\<close>

definition dev_create_ram ::
  "nat \<Rightarrow> nat \<Rightarrow> string \<Rightarrow> bool \<Rightarrow> u64 \<times> int \<Rightarrow> u64 \<Rightarrow> u32 \<Rightarrow> 'd vm_instance \<Rightarrow> bool \<times> 'd vm_instance" where
  "dev_create_ram p s name sparse ram paddr len vm =
    (let vm = dev_create p name vm;
         vm = upd_dev p (\<lambda>d. d\<lparr>phys_addr := paddr, phys_len := len,
                                dev_flags := VDEVICE_FLAG_CACHING\<rparr>) vm
     in if \<not> sparse then
          (if fst ram = 0 then (False, vm)
           else (True, snd (vm_bind_device p
                  (upd_dev p (\<lambda>d. d\<lparr>host_addr := fst ram, dev_fd := snd ram\<rparr>) vm))))
        else (True, snd (vm_bind_device p (dev_sparse_init s p vm))))"

definition dev_create_ghost_ram ::
  "nat \<Rightarrow> nat \<Rightarrow> string \<Rightarrow> bool \<Rightarrow> (u64 \<times> int) option \<Rightarrow> u64 \<Rightarrow> u32 \<Rightarrow> 'd vm_instance \<Rightarrow>
   bool \<times> 'd vm_instance" where
  "dev_create_ghost_ram p s name sparse img paddr len vm =
    (let vm = dev_create p name vm;
         vm = upd_dev p (\<lambda>d. d\<lparr>phys_addr := paddr, phys_len := len,
                dev_flags := VDEVICE_FLAG_CACHING OR VDEVICE_FLAG_GHOST\<rparr>) vm
     in case img of
          None \<Rightarrow> (False, vm)
        | Some (ram_ptr, fd) \<Rightarrow>
            let vm = upd_dev p (\<lambda>d. d\<lparr>host_addr := ram_ptr, dev_fd := fd\<rparr>) vm
            in if \<not> sparse \<and> ram_ptr = 0 then (False, vm)
               else (True, snd (vm_bind_device p (if sparse then dev_sparse_init s p vm else vm))))"

definition dev_create_ram_alias ::
  "nat \<Rightarrow> string \<Rightarrow> string \<Rightarrow> u64 \<Rightarrow> u32 \<Rightarrow> 'd vm_instance \<Rightarrow> bool \<times> 'd vm_instance" where
  "dev_create_ram_alias p name orig paddr len vm =
    (case dev_get_by_name orig vm of
       None \<Rightarrow> (False, vm)
     | Some o' \<Rightarrow> (True, snd (vm_bind_device p (dev_remap p name o' paddr len vm))))"

text \<open>
  Removal: the mapping of a file, its descriptor and the host memory are given back to the
  host (not represented), and the structure is cleared.
\<close>

definition dev_remove :: "nat \<Rightarrow> 'd vm_instance \<Rightarrow> 'd vm_instance" where
  "dev_remove p vm =
    (let vm = snd (vm_unbind_device p vm);
         clear = upd_dev p (\<lambda>_. dev_init)
     in if has_flag (dev_heap vm p) VDEVICE_FLAG_REMAP then clear vm
        else if has_flag (dev_heap vm p) VDEVICE_FLAG_SPARSE
        then clear (snd (dev_sparse_shutdown p vm))
        else clear vm)"

text \<open>
  The host page behind a page of a sparse device, with the copy-on-write flag.  A new page is
  entered in the map \<open>s\<close>, marked as dirty; \<open>prepare\<close> fills it.
\<close>

definition sparse_new_page ::
  "nat \<Rightarrow> nat \<Rightarrow> (u64 \<Rightarrow> 'd vm_instance \<Rightarrow> 'd vm_instance) \<Rightarrow> 'd vm_instance \<Rightarrow>
   ((u64 \<times> bool) \<times> 'd vm_instance) outcome" where
  "sparse_new_page s offset prepare vm =
    (let (page, vm) = vm_alloc_host_page vm
     in if page = 0 then Inl Assert_Failed
        else (let vm = prepare page vm
              in Inr ((page, False), vm\<lparr>sparse_heap := (sparse_heap vm)
                   (s := (sparse_heap vm s)[offset := page OR VDEVICE_PTE_DIRTY])\<rparr>)))"

definition dev_sparse_get_host_addr ::
  "nat \<Rightarrow> u64 \<Rightarrow> mts_op \<Rightarrow> 'd vm_instance \<Rightarrow> ((u64 \<times> bool) \<times> 'd vm_instance) outcome" where
  "dev_sparse_get_host_addr p paddr op_type vm =
    (let dev = dev_heap vm p;
         offset = unat (ucast (drop_bit VM_PAGE_SHIFT (paddr - phys_addr dev)) :: u32)
     in case sparse_map dev of
          None \<Rightarrow> Inl Null_Deref
        | Some s \<Rightarrow>
          if length (sparse_heap vm s) \<le> offset then Inl Out_Of_Bounds
          else (let ptr = sparse_heap vm s ! offset
                in if host_addr dev = 0 then
                     (if ptr AND VDEVICE_PTE_DIRTY = 0 then sparse_new_page s offset (\<lambda>_ vm. vm) vm
                      else Inr ((ptr AND VM_PAGE_MASK, False), vm))
                   else if ptr AND VDEVICE_PTE_DIRTY \<noteq> 0 then Inr ((ptr AND VM_PAGE_MASK, False), vm)
                   else if op_type = MTS_READ then Inr ((ptr AND VM_PAGE_MASK, True), vm)
                   else sparse_new_page s offset (\<lambda>page vm.
                          host_write page (host_read (ptr AND VM_PAGE_MASK) VM_PAGE_SIZE vm) vm) vm))"

definition dev_get_vspace_size :: "vdevice \<Rightarrow> u32" where
  "dev_get_vspace_size dev =
    (if has_flag dev VDEVICE_FLAG_REMAP then 0
     else if host_addr dev \<noteq> 0 \<or> has_flag dev VDEVICE_FLAG_SPARSE
     then drop_bit 10 (phys_len dev) else 0)"

text \<open>The call of a handler, through the pointer or through the device array.\<close>

definition dev_call :: "'d handlers \<Rightarrow> nat \<Rightarrow> u32 \<Rightarrow> nat \<Rightarrow> mts_op \<Rightarrow> u64 \<Rightarrow> 'd vm_instance \<Rightarrow>
    'd access_result" where
  "dev_call H p offset op_size op_type data vm =
    (case dev_handler (dev_heap vm p) of
       None \<Rightarrow> Inl Null_Deref
     | Some h \<Rightarrow> H h p offset op_size op_type data vm)"

definition dev_access_fast :: "'d handlers \<Rightarrow> nat \<Rightarrow> u32 \<Rightarrow> nat \<Rightarrow> mts_op \<Rightarrow> u64 \<Rightarrow> 'd vm_instance \<Rightarrow>
    'd access_result" where
  "dev_access_fast H i offset op_size op_type data vm =
    (if length (dev_array vm) \<le> i then Inl Out_Of_Bounds
     else case dev_array vm ! i of
            None \<Rightarrow> Inr ((0, data), vm)
          | Some p \<Rightarrow> dev_call H p offset op_size op_type data vm)"

definition dev_access :: "'d handlers \<Rightarrow> nat \<Rightarrow> u32 \<Rightarrow> nat \<Rightarrow> mts_op \<Rightarrow> u64 \<Rightarrow> 'd vm_instance \<Rightarrow>
    'd access_result" where
  "dev_access H i offset op_size op_type data vm =
    (if length (dev_array vm) \<le> i then Inl Out_Of_Bounds
     else case dev_array vm ! i of
            None \<Rightarrow> Inl Null_Deref
          | Some p \<Rightarrow> dev_call H p offset op_size op_type data vm)"

text \<open>The console of \<open>device.c\<close>; the characters it prints are collected by \<open>emit\<close>.\<close>

definition dummy_console_handler ::
  "(u8 \<Rightarrow> 'd \<Rightarrow> 'd) \<Rightarrow> nat \<Rightarrow> u32 \<Rightarrow> nat \<Rightarrow> mts_op \<Rightarrow> u64 \<Rightarrow> 'd vm_instance \<Rightarrow> 'd access_result" where
  "dummy_console_handler emit p offset op_size op_type data vm =
    (if offset = 0x40c then
       Inr ((0, if op_type = MTS_READ then 0x04 else data), vm)
     else if offset = 0x41c then
       Inr ((0, data), if op_type = MTS_WRITE
                       then vm\<lparr>dev_state := emit (ucast (data AND 0xff)) (dev_state vm)\<rparr> else vm)
     else Inr ((0, data), vm))"

end
