(* ===== verification/Phys_Mem.thy ===== *)
theory Phys_Mem
  imports Device
begin

text \<open>
  Physical memory of a virtual machine as devices see it (\<open>common/memory.c\<close>): host pointers for
  physical addresses, block copies, words, DMA, and the log of memory accesses; with the byte-swapping and the
  zero devices (\<open>dev_bswap.c\<close>, \<open>dev_zero.c\<close>) that are built on them.
\<close>

section \<open>Host pointers\<close>

definition physmem_get_hptr :: "'d handlers \<Rightarrow> u64 \<Rightarrow> nat \<Rightarrow> mts_op \<Rightarrow> u64 \<Rightarrow> 'd vm_instance \<Rightarrow>
    'd access_result" where
  "physmem_get_hptr H paddr op_size op_type data vm =
    (case dev_lookup paddr False vm of
       None \<Rightarrow> Inr ((0, data), vm)
     | Some p \<Rightarrow>
        let dev = dev_heap vm p
        in if has_flag dev VDEVICE_FLAG_SPARSE then
             bind_out (dev_sparse_get_host_addr p paddr op_type vm) (\<lambda>((ptr, cow), vm).
               if ptr = 0 then Inr ((0, data), vm)
               else Inr ((ptr + (paddr AND VM_PAGE_IMASK), data), vm))
           else if host_addr dev \<noteq> 0 \<and> \<not> has_flag dev VDEVICE_FLAG_NO_MTS_MMAP then
             Inr ((host_addr dev + (paddr - phys_addr dev), data), vm)
           else if op_size = 0 then Inr ((0, data), vm)
           else dev_call H p (ucast (paddr - phys_addr dev)) op_size op_type data vm)"

section \<open>Words\<close>

definition physmem_copy_u32_from_vm :: "'d handlers \<Rightarrow> u64 \<Rightarrow> 'd vm_instance \<Rightarrow> (u32 \<times> 'd vm_instance) outcome" where
  "physmem_copy_u32_from_vm H paddr vm =
    bind_out (physmem_get_hptr H paddr 4 MTS_READ 0 vm) (\<lambda>((ptr, tmp), vm).
      if ptr \<noteq> 0 then Inr (m_ntoh32 (host_read ptr 4 vm) 0, vm) else Inr (ucast tmp, vm))"

definition physmem_copy_u32_to_vm :: "'d handlers \<Rightarrow> u64 \<Rightarrow> u32 \<Rightarrow> 'd vm_instance \<Rightarrow> 'd vm_instance outcome" where
  "physmem_copy_u32_to_vm H paddr val vm =
    bind_out (physmem_get_hptr H paddr 4 MTS_WRITE (ucast val) vm) (\<lambda>((ptr, tmp), vm).
      if ptr \<noteq> 0 then Inr (host_write ptr (hton32_bytes val) vm) else Inr vm)"

definition physmem_copy_u16_from_vm :: "'d handlers \<Rightarrow> u64 \<Rightarrow> 'd vm_instance \<Rightarrow> (u16 \<times> 'd vm_instance) outcome" where
  "physmem_copy_u16_from_vm H paddr vm =
    bind_out (physmem_get_hptr H paddr 2 MTS_READ 0 vm) (\<lambda>((ptr, tmp), vm).
      if ptr \<noteq> 0 then Inr (m_ntoh16 (host_read ptr 2 vm) 0, vm) else Inr (ucast tmp, vm))"

definition physmem_copy_u16_to_vm :: "'d handlers \<Rightarrow> u64 \<Rightarrow> u16 \<Rightarrow> 'd vm_instance \<Rightarrow> 'd vm_instance outcome" where
  "physmem_copy_u16_to_vm H paddr val vm =
    bind_out (physmem_get_hptr H paddr 2 MTS_WRITE (ucast val) vm) (\<lambda>((ptr, tmp), vm).
      if ptr \<noteq> 0 then Inr (host_write ptr (hton16_bytes val) vm) else Inr vm)"

definition physmem_copy_u8_from_vm :: "'d handlers \<Rightarrow> u64 \<Rightarrow> 'd vm_instance \<Rightarrow> (u8 \<times> 'd vm_instance) outcome" where
  "physmem_copy_u8_from_vm H paddr vm =
    bind_out (physmem_get_hptr H paddr 1 MTS_READ 0 vm) (\<lambda>((ptr, tmp), vm).
      if ptr \<noteq> 0 then Inr (host_mem vm ptr, vm) else Inr (ucast tmp, vm))"

definition physmem_copy_u8_to_vm :: "'d handlers \<Rightarrow> u64 \<Rightarrow> u8 \<Rightarrow> 'd vm_instance \<Rightarrow> 'd vm_instance outcome" where
  "physmem_copy_u8_to_vm H paddr val vm =
    bind_out (physmem_get_hptr H paddr 1 MTS_WRITE (ucast val) vm) (\<lambda>((ptr, tmp), vm).
      if ptr \<noteq> 0 then Inr (host_write ptr [val] vm) else Inr vm)"

section \<open>Blocks\<close>

text \<open>The number of bytes up to the end of the page.\<close>

definition page_rest :: "u64 \<Rightarrow> nat" where
  "page_rest paddr = VM_PAGE_SIZE - unat (paddr AND VM_PAGE_IMASK)"

lemma page_rest_pos: "0 < page_rest paddr"
proof -
  have "paddr AND VM_PAGE_IMASK \<le> 0xfff" unfolding VM_PAGE_IMASK_def by (rule word_and_le1)
  then have "unat (paddr AND VM_PAGE_IMASK) \<le> unat (0xfff :: u64)" by (simp only: word_le_nat_alt)
  then show ?thesis by (simp add: page_rest_def VM_PAGE_SIZE_def)
qed

text \<open>
  \<open>memcpy\<close> from a pointer, or accesses of 4, 2 or 1 bytes to a device.  \<open>buf\<close> is the buffer from
  the current position on; a rest of 3 bytes leaves it as it is.
\<close>

definition copy_in_device :: "'d handlers \<Rightarrow> nat \<Rightarrow> bytes \<Rightarrow> u64 \<Rightarrow> 'd vm_instance \<Rightarrow> (bytes \<times> 'd vm_instance) outcome" where
  "copy_in_device H r buf paddr vm =
    (if r = 4 then bind_out (physmem_copy_u32_from_vm H paddr vm) (\<lambda>(v, vm). Inr (hton32_bytes v, vm))
     else if r = 2 then bind_out (physmem_copy_u16_from_vm H paddr vm) (\<lambda>(v, vm). Inr (hton16_bytes v, vm))
     else if r = 1 then bind_out (physmem_copy_u8_from_vm H paddr vm) (\<lambda>(v, vm). Inr ([v], vm))
     else Inr (take r buf, vm))"

function physmem_copy_from_vm :: "'d handlers \<Rightarrow> bytes \<Rightarrow> u64 \<Rightarrow> nat \<Rightarrow> 'd vm_instance \<Rightarrow>
    (bytes \<times> 'd vm_instance) outcome" where
  "physmem_copy_from_vm H buf paddr len vm =
    (if len = 0 then Inr ([], vm)
     else
       bind_out (physmem_get_hptr H paddr 0 MTS_READ 0 vm) (\<lambda>((ptr, dummy), vm).
         let r = (if ptr \<noteq> 0 then min (page_rest paddr) len else min len 4)
         in bind_out (if ptr \<noteq> 0 then Inr (host_read ptr r vm, vm) else copy_in_device H r buf paddr vm)
              (\<lambda>(bs, vm).
                bind_out (physmem_copy_from_vm H (drop r buf) (paddr + of_nat r) (len - r) vm)
                  (\<lambda>(rest, vm). Inr (bs @ rest, vm)))))"
  by pat_completeness auto
termination
  by (relation "measure (\<lambda>(H, buf, paddr, len, vm). len)")
     (auto split: if_splits simp: page_rest_pos)

declare physmem_copy_from_vm.simps [simp del]

definition copy_out_device :: "'d handlers \<Rightarrow> nat \<Rightarrow> bytes \<Rightarrow> u64 \<Rightarrow> 'd vm_instance \<Rightarrow> 'd vm_instance outcome" where
  "copy_out_device H r buf paddr vm =
    (if r = 4 then physmem_copy_u32_to_vm H paddr (m_ntoh32 buf 0) vm
     else if r = 2 then physmem_copy_u16_to_vm H paddr (m_ntoh16 buf 0) vm
     else if r = 1 then physmem_copy_u8_to_vm H paddr (buf ! 0) vm
     else Inr vm)"

function physmem_copy_to_vm :: "'d handlers \<Rightarrow> bytes \<Rightarrow> u64 \<Rightarrow> nat \<Rightarrow> 'd vm_instance \<Rightarrow> 'd vm_instance outcome" where
  "physmem_copy_to_vm H buf paddr len vm =
    (if len = 0 then Inr vm
     else
       bind_out (physmem_get_hptr H paddr 0 MTS_WRITE 0 vm) (\<lambda>((ptr, dummy), vm).
         let r = (if ptr \<noteq> 0 then min (page_rest paddr) len else min len 4)
         in bind_out (if ptr \<noteq> 0 then Inr (host_write ptr (take r buf) vm)
                      else copy_out_device H r buf paddr vm)
              (\<lambda>vm. physmem_copy_to_vm H (drop r buf) (paddr + of_nat r) (len - r) vm)))"
  by pat_completeness auto
termination
  by (relation "measure (\<lambda>(H, buf, paddr, len, vm). len)")
     (auto split: if_splits simp: page_rest_pos)

declare physmem_copy_to_vm.simps [simp del]

text \<open>DMA stops silently at the first address without a host pointer.\<close>

function physmem_dma_transfer :: "'d handlers \<Rightarrow> u64 \<Rightarrow> u64 \<Rightarrow> nat \<Rightarrow> 'd vm_instance \<Rightarrow> 'd vm_instance outcome" where
  "physmem_dma_transfer H src dst len vm =
    (if len = 0 then Inr vm
     else
       bind_out (physmem_get_hptr H src 0 MTS_READ 0 vm) (\<lambda>((sptr, dummy), vm).
       bind_out (physmem_get_hptr H dst 0 MTS_WRITE 0 vm) (\<lambda>((dptr, dummy), vm).
         if sptr = 0 \<or> dptr = 0 then Inr vm
         else (let clen = min (min (page_rest src) (page_rest dst)) len
               in physmem_dma_transfer H (src + of_nat clen) (dst + of_nat clen) (len - clen)
                    (host_write dptr (host_read sptr clen vm) vm)))))"
  by pat_completeness auto
termination
  by (relation "measure (\<lambda>(H, src, dst, len, vm). len)")
     (auto split: if_splits simp: page_rest_pos)

declare physmem_dma_transfer.simps [simp del]

text \<open>\<open>strnlen\<close> and the length of a string in the memory of a device.\<close>

definition strnlen :: "bytes \<Rightarrow> nat" where
  "strnlen bs = length (takeWhile (\<lambda>b. b \<noteq> 0) bs)"

definition physmem_strnlen :: "u64 \<Rightarrow> nat \<Rightarrow> 'd vm_instance \<Rightarrow> nat" where
  "physmem_strnlen paddr maxlen vm =
    (case dev_lookup paddr True vm of
       None \<Rightarrow> 0
     | Some p \<Rightarrow>
        let dev = dev_heap vm p
        in if host_addr dev = 0 then 0
           else (let ptr = host_addr dev + (paddr - phys_addr dev);
                     maxlen = min maxlen (unat (ucast (phys_len dev) - (paddr - phys_addr dev)))
                 in strnlen (host_read ptr maxlen vm)))"

section \<open>The log of memory accesses\<close>

definition MEMLOG_COUNT :: nat where "MEMLOG_COUNT = 16"

record memlog_access =
  ml_iaddr :: u64
  ml_vaddr :: u64
  ml_data :: u64
  ml_valid :: bool
  ml_size :: nat
  ml_type :: mts_op

record memlog =
  memlog_array :: "memlog_access list"
  memlog_pos :: nat

definition memlog_rec_access :: "u64 \<Rightarrow> u64 \<Rightarrow> u64 \<Rightarrow> nat \<Rightarrow> mts_op \<Rightarrow> memlog \<Rightarrow> memlog" where
  "memlog_rec_access pc va dat sz op log =
    \<lparr>memlog_array = (memlog_array log)[memlog_pos log :=
        \<lparr>ml_iaddr = pc, ml_vaddr = va, ml_data = dat, ml_valid = (op = MTS_WRITE), ml_size = sz, ml_type = op\<rparr>],
     memlog_pos = (memlog_pos log + 1) mod MEMLOG_COUNT\<rparr>"

definition memlog_update_read :: "u64 \<Rightarrow> memlog \<Rightarrow> 'd vm_instance \<Rightarrow> memlog" where
  "memlog_update_read raddr log vm =
    (let i = (memlog_pos log + MEMLOG_COUNT - 1) mod MEMLOG_COUNT;
         acc = memlog_array log ! i
     in if ml_type acc = MTS_READ then
          (let dat = (if ml_size acc = 1 then ucast (host_mem vm raddr)
                      else if ml_size acc = 2 then ucast (m_ntoh16 (host_read raddr 2 vm) 0)
                      else if ml_size acc = 4 then ucast (m_ntoh32 (host_read raddr 4 vm) 0)
                      else if ml_size acc = 8 then m_ntoh64 (host_read raddr 8 vm) 0
                      else ml_data acc)
           in log\<lparr>memlog_array := (memlog_array log)[i := acc\<lparr>ml_data := dat, ml_valid := True\<rparr>]\<rparr>)
        else log)"

section \<open>Two devices over physical memory\<close>

definition swap16 :: "u16 \<Rightarrow> u16" where
  "swap16 v = drop_bit 8 v OR push_bit 8 (v AND 0xff)"

definition swap32 :: "u32 \<Rightarrow> u32" where
  "swap32 v = drop_bit 24 v OR push_bit 8 (drop_bit 16 v AND 0xff) OR
     push_bit 16 (drop_bit 8 v AND 0xff) OR push_bit 24 (v AND 0xff)"

text \<open>\<open>base\<close> is \<open>phys_base\<close>, the address the device rewrites to.\<close>

definition dev_bswap_access :: "'d handlers \<Rightarrow> u64 \<Rightarrow> nat \<Rightarrow> u32 \<Rightarrow> nat \<Rightarrow> mts_op \<Rightarrow> u64 \<Rightarrow> 'd vm_instance \<Rightarrow>
    'd access_result" where
  "dev_bswap_access H base p offset sz op data vm =
    (let paddr = base + ucast offset
     in if sz = 1 then
          (if op = MTS_READ
           then bind_out (physmem_copy_u8_from_vm H (paddr XOR 0x03) vm) (\<lambda>(v, vm). Inr ((0, ucast v), vm))
           else bind_out (physmem_copy_u8_to_vm H (paddr XOR 0x03) (ucast data) vm) (\<lambda>vm. Inr ((0, data), vm)))
        else if sz = 2 then
          (if op = MTS_READ
           then bind_out (physmem_copy_u16_from_vm H (paddr XOR 0x02) vm)
                  (\<lambda>(v, vm). Inr ((0, ucast (swap16 v)), vm))
           else bind_out (physmem_copy_u16_to_vm H (paddr XOR 0x02) (swap16 (ucast data)) vm)
                  (\<lambda>vm. Inr ((0, data), vm)))
        else if sz = 4 then
          (if op = MTS_READ
           then bind_out (physmem_copy_u32_from_vm H paddr vm) (\<lambda>(v, vm). Inr ((0, ucast (swap32 v)), vm))
           else bind_out (physmem_copy_u32_to_vm H paddr (swap32 (ucast data)) vm)
                  (\<lambda>vm. Inr ((0, data), vm)))
        else Inr ((0, data), vm))"

definition dev_zero_access :: "nat \<Rightarrow> u32 \<Rightarrow> nat \<Rightarrow> mts_op \<Rightarrow> u64 \<Rightarrow> 'd vm_instance \<Rightarrow> 'd access_result" where
  "dev_zero_access p offset sz op data vm =
    Inr ((0, if op = MTS_READ then 0 else data), vm)"

section \<open>Pages\<close>

definition aligned :: "u64 \<Rightarrow> bool" where
  "aligned a \<longleftrightarrow> a AND VM_PAGE_IMASK = 0"

lemma page_imask: "VM_PAGE_IMASK = mask 12" "VM_PAGE_MASK = NOT (mask 12)"
  by (simp_all add: VM_PAGE_IMASK_def VM_PAGE_MASK_def mask_eq_exp_minus_1)

lemma bit_aligned:
  assumes "aligned a" "n < 12"
  shows "\<not> bit a n"
proof
  assume "bit a n"
  then have "bit (a AND mask 12) n" using assms(2) by (simp add: bit_and_iff bit_mask_iff)
  then show False using assms(1) by (simp add: aligned_def page_imask)
qed

lemma small_bits:
  assumes "i < 4096" "bit (of_nat i :: u64) n"
  shows "n < 12"
proof -
  have "take_bit 12 i = i" using assms(1) by (simp add: take_bit_nat_eq_self)
  then have "(of_nat i :: u64) = take_bit 12 (of_nat i)" by (metis of_nat_take_bit)
  then show ?thesis using assms(2) by (metis bit_take_bit_iff)
qed

lemma aligned_add:
  assumes "aligned a" "i < 4096"
  shows "(a + of_nat i) AND VM_PAGE_MASK = a" "(a + of_nat i) AND VM_PAGE_IMASK = of_nat i"
proof -
  have d: "a + of_nat i = a OR of_nat i"
    by (rule disjunctive_add) (use bit_aligned [OF assms(1)] small_bits [OF assms(2)] in blast)
  show "(a + of_nat i) AND VM_PAGE_MASK = a" "(a + of_nat i) AND VM_PAGE_IMASK = of_nat i"
    unfolding d page_imask
    by (rule bit_word_eqI; use bit_aligned [OF assms(1)] small_bits [OF assms(2)] in
        \<open>auto simp: bit_and_iff bit_or_iff bit_not_iff bit_mask_iff\<close>)+
qed

lemma aligned_disjoint:
  assumes "aligned a" "aligned b" "a \<noteq> b" "i < 4096" "j < 4096"
  shows "a + of_nat i \<noteq> b + of_nat j"
  using aligned_add(1) assms by metis

lemma page_split: "(x AND VM_PAGE_MASK) + (x AND VM_PAGE_IMASK) = x"
proof -
  have "(x AND NOT (mask 12)) + (x AND mask 12) = (x AND NOT (mask 12)) OR (x AND mask 12)"
    by (rule disjunctive_add) (auto simp: bit_and_iff bit_not_iff)
  also have "\<dots> = x" by (rule bit_word_eqI) (auto simp: bit_and_iff bit_or_iff bit_not_iff bit_mask_iff)
  finally show ?thesis by (simp add: page_imask)
qed

lemma aligned_page [simp]: "aligned (x AND VM_PAGE_MASK)"
  unfolding aligned_def page_imask
  by (rule bit_word_eqI) (auto simp: bit_and_iff bit_not_iff bit_mask_iff)

lemma imask_less: "unat (x AND VM_PAGE_IMASK) < 4096"
  using page_rest_pos [of x] by (simp add: page_rest_def VM_PAGE_SIZE_def)

lemma div_page: "unat (drop_bit 12 x) = unat x div 4096" "unat (x AND VM_PAGE_IMASK) = unat x mod 4096"
  for x :: u64
  by (simp_all add: page_imask drop_bit_eq_div take_bit_eq_mask [symmetric] take_bit_eq_mod
      unat_div_distrib unat_mod_distrib)

section \<open>The supply of host pages\<close>

definition pages_of :: "u64 \<Rightarrow> nat \<Rightarrow> nat \<Rightarrow> u64 list" where
  "pages_of a i n = map (\<lambda>k. a + of_nat (k * VM_PAGE_SIZE)) [i..<n]"

definition next_pages :: "'d vm_instance \<Rightarrow> u64 list" where
  "next_pages vm =
    (case chunks vm of [] \<Rightarrow> [] | c # _ \<Rightarrow> pages_of (chunk_area c) (page_alloc c) (page_total c)) @
    concat (map (\<lambda>a. pages_of a 0 VM_CHUNK_AREA_SIZE) (host_areas vm))"

definition chunks_ok :: "'d vm_instance \<Rightarrow> bool" where
  "chunks_ok vm \<longleftrightarrow> (case chunks vm of [] \<Rightarrow> True | c # _ \<Rightarrow> page_alloc c \<le> page_total c)"

lemma pages_of_Cons: "i < n \<Longrightarrow> pages_of a i n = (a + of_nat (i * VM_PAGE_SIZE)) # pages_of a (Suc i) n"
  by (simp add: pages_of_def upt_conv_Cons)

text \<open>Allocation takes the pages in this order and changes nothing else.\<close>

lemma vm_alloc_host_page_spec:
  assumes "next_pages vm = page # pages" "chunks_ok vm"
  obtains cs as where "vm_alloc_host_page vm = (page, vm\<lparr>chunks := cs, host_areas := as\<rparr>)"
    "next_pages (vm\<lparr>chunks := cs, host_areas := as\<rparr>) = pages"
    "chunks_ok (vm\<lparr>chunks := cs, host_areas := as\<rparr>)"
proof (cases "chunks vm = [] \<or> page_alloc (hd (chunks vm)) = page_total (hd (chunks vm))")
  case True
  then have np: "next_pages vm = concat (map (\<lambda>a. pages_of a 0 VM_CHUNK_AREA_SIZE) (host_areas vm))"
    by (auto simp: next_pages_def pages_of_def split: list.splits)
  then obtain a as where as: "host_areas vm = a # as"
    using assms(1) np by (cases "host_areas vm") auto
  have p: "page = a" "pages = pages_of a 1 VM_CHUNK_AREA_SIZE @
      concat (map (\<lambda>a. pages_of a 0 VM_CHUNK_AREA_SIZE) as)"
    using assms(1) np pages_of_Cons [of 0 VM_CHUNK_AREA_SIZE a]
    by (auto simp: as VM_CHUNK_AREA_SIZE_def)
  let ?c = "\<lparr>chunk_area = a, page_alloc = 1, page_total = VM_CHUNK_AREA_SIZE\<rparr>"
  show thesis
  proof (rule that [where cs = "?c # chunks vm" and as = as])
    show "vm_alloc_host_page vm = (page, vm\<lparr>chunks := ?c # chunks vm, host_areas := as\<rparr>)"
      using True p by (simp add: vm_alloc_host_page_def vm_chunk_create_def as take_page_def Let_def)
  qed (use p in \<open>simp_all add: next_pages_def chunks_ok_def VM_CHUNK_AREA_SIZE_def\<close>)
next
  case False
  then obtain c cs where cs: "chunks vm = c # cs" "page_alloc c \<noteq> page_total c"
    by (cases "chunks vm") auto
  then have lt: "page_alloc c < page_total c" using assms(2) by (simp add: chunks_ok_def)
  have p: "page = chunk_area c + of_nat (page_alloc c * VM_PAGE_SIZE)"
    "pages = pages_of (chunk_area c) (Suc (page_alloc c)) (page_total c) @
      concat (map (\<lambda>a. pages_of a 0 VM_CHUNK_AREA_SIZE) (host_areas vm))"
    using assms(1) pages_of_Cons [OF lt, of "chunk_area c"] by (simp_all add: next_pages_def cs)
  let ?c = "c\<lparr>page_alloc := Suc (page_alloc c)\<rparr>"
  show thesis
  proof (rule that [where cs = "?c # cs" and as = "host_areas vm"])
    show "vm_alloc_host_page vm = (page, vm\<lparr>chunks := ?c # cs, host_areas := host_areas vm\<rparr>)"
      using False p by (simp add: vm_alloc_host_page_def cs take_page_def)
  qed (use p lt in \<open>simp_all add: next_pages_def chunks_ok_def cs\<close>)
qed

section \<open>Memory devices as byte arrays\<close>

text \<open>
  Two kinds of devices are memory: RAM in one block of host memory, and ghost RAM, whose pages
  start as pages of a shared image and are copied when they are first written.  The byte at
  offset \<open>off\<close> of such a device lies at \<open>guest_loc\<close> in host memory.
\<close>

definition sparse_pages :: "'d vm_instance \<Rightarrow> nat \<Rightarrow> u64 list" where
  "sparse_pages vm p = sparse_heap vm (the (sparse_map (dev_heap vm p)))"

definition guest_loc :: "'d vm_instance \<Rightarrow> nat \<Rightarrow> u64 \<Rightarrow> u64" where
  "guest_loc vm p off =
    (let d = dev_heap vm p
     in if has_flag d VDEVICE_FLAG_SPARSE
        then (sparse_pages vm p ! (unat off div 4096) AND VM_PAGE_MASK) + (off AND VM_PAGE_IMASK)
        else host_addr d + off)"

definition guest_byte :: "'d vm_instance \<Rightarrow> nat \<Rightarrow> u64 \<Rightarrow> u8" where
  "guest_byte vm p off = host_mem vm (guest_loc vm p off)"

definition image_pages :: "'d vm_instance \<Rightarrow> nat \<Rightarrow> u64 list" where
  "image_pages vm p = pages_of (host_addr (dev_heap vm p)) 0 (length (sparse_pages vm p))"

definition ram_ok :: "'d vm_instance \<Rightarrow> nat \<Rightarrow> bool" where
  "ram_ok vm p \<longleftrightarrow>
    (let d = dev_heap vm p
     in \<not> has_flag d VDEVICE_FLAG_SPARSE \<and> \<not> has_flag d VDEVICE_FLAG_NO_MTS_MMAP \<and>
        host_addr d \<noteq> 0 \<and> unat (host_addr d) + unat (phys_len d) \<le> 2 ^ 64)"

definition ghost_ok :: "'d vm_instance \<Rightarrow> nat \<Rightarrow> bool" where
  "ghost_ok vm p \<longleftrightarrow>
    (let d = dev_heap vm p; m = sparse_pages vm p; image = image_pages vm p
     in has_flag d VDEVICE_FLAG_SPARSE \<and> host_addr d \<noteq> 0 \<and> sparse_map d \<noteq> None \<and>
        aligned (phys_addr d) \<and> unat (phys_len d) \<le> length m * 4096 \<and> chunks_ok vm \<and>
        distinct (map (\<lambda>x. x AND VM_PAGE_MASK) m @ next_pages vm) \<and>
        (\<forall>a \<in> set (map (\<lambda>x. x AND VM_PAGE_MASK) m) \<union> set (next_pages vm) \<union> set image.
           aligned a \<and> a \<noteq> 0) \<and>
        set image \<inter> set (next_pages vm) = {} \<and>
        (\<forall>k < length m. m ! k = image ! k \<or>
           m ! k AND VDEVICE_PTE_DIRTY \<noteq> 0 \<and> m ! k AND VM_PAGE_MASK \<notin> set image) \<and>
        length (filter (\<lambda>x. x AND VDEVICE_PTE_DIRTY = 0) m) \<le> length (next_pages vm))"

definition mem_ok :: "'d vm_instance \<Rightarrow> nat \<Rightarrow> bool" where
  "mem_ok vm p \<longleftrightarrow> ram_ok vm p \<or> ghost_ok vm p"

text \<open>May the page of \<open>off\<close> be written without a copy?\<close>

definition own_page :: "'d vm_instance \<Rightarrow> nat \<Rightarrow> u64 \<Rightarrow> bool" where
  "own_page vm p off \<longleftrightarrow>
    (has_flag (dev_heap vm p) VDEVICE_FLAG_SPARSE \<longrightarrow>
      sparse_pages vm p ! (unat off div 4096) AND VM_PAGE_MASK \<notin> set (image_pages vm p))"

lemma host_write_simps [simp]:
  "sparse_pages (vm\<lparr>host_mem := hm\<rparr>) p = sparse_pages vm p"
  "guest_loc (vm\<lparr>host_mem := hm\<rparr>) p off = guest_loc vm p off"
  "image_pages (vm\<lparr>host_mem := hm\<rparr>) p = image_pages vm p"
  "next_pages (vm\<lparr>host_mem := hm\<rparr>) = next_pages vm"
  "chunks_ok (vm\<lparr>host_mem := hm\<rparr>) = chunks_ok vm"
  "mem_ok (vm\<lparr>host_mem := hm\<rparr>) q = mem_ok vm q"
  "ghost_ok (vm\<lparr>host_mem := hm\<rparr>) q = ghost_ok vm q"
  "own_page (vm\<lparr>host_mem := hm\<rparr>) p off = own_page vm p off"
  "dev_lookup paddr c (vm\<lparr>host_mem := hm\<rparr>) = dev_lookup paddr c vm"
  by (simp_all add: sparse_pages_def guest_loc_def image_pages_def next_pages_def chunks_ok_def
      mem_ok_def ram_ok_def ghost_ok_def own_page_def dev_lookup_def Let_def)

lemma unat_ucast64 [simp]: "unat (ucast (x :: u32) :: u64) = unat x"
  by (rule unsigned_ucast_eq [where 'a = nat, THEN trans])
     (use unsigned_less [of x, where 'a = nat] in \<open>simp add: take_bit_nat_eq_self\<close>)

lemma dev_lookup_covers:
  "dev_lookup paddr c vm = Some p \<Longrightarrow>
   phys_addr (dev_heap vm p) \<le> paddr \<and>
   unat (paddr - phys_addr (dev_heap vm p)) < unat (phys_len (dev_heap vm p))"
  by (auto simp: dev_lookup_def find_Some_iff dev_covers_def word_less_nat_alt)

lemma ram_okD:
  assumes "ram_ok vm p"
  shows "\<not> has_flag (dev_heap vm p) VDEVICE_FLAG_SPARSE"
    "\<not> has_flag (dev_heap vm p) VDEVICE_FLAG_NO_MTS_MMAP" "host_addr (dev_heap vm p) \<noteq> 0"
    "unat (host_addr (dev_heap vm p)) + unat (phys_len (dev_heap vm p)) \<le> 2 ^ 64"
  using assms unfolding ram_ok_def Let_def by blast+

lemma guest_loc_ram:
  "ram_ok vm p \<Longrightarrow> guest_loc vm p off = host_addr (dev_heap vm p) + off"
  using ram_okD(1) [of vm p] by (simp add: guest_loc_def Let_def)

lemma ghost_okD:
  assumes "ghost_ok vm p"
  shows "has_flag (dev_heap vm p) VDEVICE_FLAG_SPARSE" "host_addr (dev_heap vm p) \<noteq> 0"
    "aligned (phys_addr (dev_heap vm p))" "chunks_ok vm"
    "unat (phys_len (dev_heap vm p)) \<le> length (sparse_pages vm p) * 4096"
    "sparse_map (dev_heap vm p) \<noteq> None"
    "distinct (map (\<lambda>x. x AND VM_PAGE_MASK) (sparse_pages vm p) @ next_pages vm)"
    "\<And>k. k < length (sparse_pages vm p) \<Longrightarrow> sparse_pages vm p ! k AND VM_PAGE_MASK \<noteq> 0"
    "\<And>a. a \<in> set (next_pages vm) \<Longrightarrow> aligned a \<and> a \<noteq> 0"
    "\<And>a. a \<in> set (image_pages vm p) \<Longrightarrow> aligned a \<and> a \<noteq> 0"
    "set (image_pages vm p) \<inter> set (next_pages vm) = {}"
    "\<And>k. k < length (sparse_pages vm p) \<Longrightarrow> sparse_pages vm p ! k = image_pages vm p ! k \<or>
       sparse_pages vm p ! k AND VDEVICE_PTE_DIRTY \<noteq> 0 \<and>
       sparse_pages vm p ! k AND VM_PAGE_MASK \<notin> set (image_pages vm p)"
    "length (filter (\<lambda>x. x AND VDEVICE_PTE_DIRTY = 0) (sparse_pages vm p)) \<le> length (next_pages vm)"
  using assms unfolding ghost_ok_def Let_def by (blast, blast, blast, blast, blast, blast, blast,
    (metis UnI1 length_map nth_map nth_mem), blast, blast, blast, blast, blast)

lemma and_page_idem: "aligned a \<Longrightarrow> a AND VM_PAGE_MASK = a"
  using aligned_add(1) [of a 0] by simp

lemma unat_page_index:
  assumes "unat (off :: u64) < unat (l :: u32)"
  shows "unat (ucast (drop_bit VM_PAGE_SHIFT off) :: u32) = unat off div 4096"
proof -
  have "unat off < 2 ^ 32" using assms unsigned_less [of l, where 'a = nat] by simp
  then have "unat off div 4096 < 2 ^ 32" by (rule le_less_trans [OF div_le_dividend])
  then have "take_bit 32 (unat off div 4096) = unat off div 4096"
    by (rule take_bit_nat_eq_self)
  moreover have "unat (ucast w :: u32) = take_bit 32 (unat w)" for w :: u64
    by (simp add: unsigned_ucast_eq)
  ultimately show ?thesis by (simp only: VM_PAGE_SHIFT_def div_page)
qed

lemma imask_offset:
  assumes "aligned b"
  shows "(a - b) AND VM_PAGE_IMASK = a AND VM_PAGE_IMASK"
proof -
  have "take_bit 12 b = 0" using assms by (simp add: aligned_def page_imask take_bit_eq_mask)
  moreover have "take_bit 12 (a - b) = take_bit 12 (take_bit 12 a - take_bit 12 b)"
    by transfer (simp add: take_bit_eq_mod, metis mod_diff_eq)
  ultimately have "take_bit 12 (a - b) = take_bit 12 a" by simp
  then show ?thesis by (simp add: page_imask take_bit_eq_mask)
qed

lemma ghost_page_index:
  assumes "ghost_ok vm p" "unat off < unat (phys_len (dev_heap vm p))"
  shows "unat off div 4096 < length (sparse_pages vm p)"
  using ghost_okD(5) [OF assms(1)] assms(2) by (simp add: less_mult_imp_div_less)

lemma image_page_clean:
  assumes "ghost_ok vm p" "k < length (sparse_pages vm p)" "sparse_pages vm p ! k AND VDEVICE_PTE_DIRTY = 0"
  shows "sparse_pages vm p ! k = image_pages vm p ! k" "aligned (sparse_pages vm p ! k)"
proof -
  show e: "sparse_pages vm p ! k = image_pages vm p ! k"
    using ghost_okD(12) [OF assms(1,2)] assms(3) by blast
  have "image_pages vm p ! k \<in> set (image_pages vm p)"
    using assms(2) by (simp add: image_pages_def pages_of_def)
  then show "aligned (sparse_pages vm p ! k)"
    unfolding e using ghost_okD(10) [OF assms(1)] by blast
qed

lemma guest_loc_ghost:
  assumes "ghost_ok vm p"
  shows "guest_loc vm p off =
    (sparse_pages vm p ! (unat off div 4096) AND VM_PAGE_MASK) + of_nat (unat off mod 4096)"
proof -
  have "off AND VM_PAGE_IMASK = of_nat (unat off mod 4096)"
    by (simp add: div_page(2) [symmetric])
  then show ?thesis using ghost_okD(1) [OF assms] by (simp add: guest_loc_def Let_def)
qed

lemma guest_loc_nonzero:
  assumes "mem_ok vm p" "unat off < unat (phys_len (dev_heap vm p))"
  shows "guest_loc vm p off \<noteq> 0"
  using assms(1) unfolding mem_ok_def
proof
  assume r: "ram_ok vm p"
  have "unat (host_addr (dev_heap vm p) + off) = unat (host_addr (dev_heap vm p)) + unat off"
    using assms(2) ram_okD(4) [OF r] by (intro unat_add_lem [THEN iffD1]) simp
  then have "unat (host_addr (dev_heap vm p) + off) \<noteq> 0"
    using ram_okD(3) [OF r] by (simp add: unat_eq_zero)
  then show ?thesis by (metis guest_loc_ram r unsigned_0)
next
  assume g: "ghost_ok vm p"
  let ?q = "sparse_pages vm p ! (unat off div 4096) AND VM_PAGE_MASK"
  have "aligned ?q \<and> ?q \<noteq> 0"
    using ghost_okD(8) [OF g ghost_page_index [OF g assms(2)]] by simp
  then have "?q + of_nat (unat off mod 4096) \<noteq> 0"
    using aligned_disjoint [of ?q 0 "unat off mod 4096" 0] by (auto simp: aligned_def)
  then show ?thesis by (simp add: guest_loc_ghost [OF g])
qed

lemma div_add_small:
  assumes "(m :: nat) mod k + j < k"
  shows "(m + j) div k = m div k"
proof (rule div_nat_eqI)
  have "m = k * (m div k) + m mod k" by simp
  then show "k * (m div k) \<le> m + j" "m + j < k * Suc (m div k)"
    using assms unfolding mult_Suc_right by linarith+
qed

lemma mod_add_small: "(m :: nat) mod k + j < k \<Longrightarrow> (m + j) mod k = m mod k + j"
  by (metis mod_add_left_eq mod_less)

lemma unat_small: "i < 4096 \<Longrightarrow> unat (of_nat i :: u64) = i"
  by (simp add: unsigned_of_nat take_bit_nat_eq_self)

lemma unat_add_of_nat:
  "unat (a :: u64) + j < 2 ^ 64 \<Longrightarrow> unat (a + of_nat j) = unat a + j"
  by (simp add: unat_word_ariths unsigned_of_nat take_bit_nat_eq_self)

lemma guest_loc_contiguous:
  assumes "mem_ok vm p" "ghost_ok vm p \<Longrightarrow> unat off mod 4096 + j < 4096" "unat off + j < 2 ^ 64"
  shows "guest_loc vm p (off + of_nat j) = guest_loc vm p off + of_nat j"
proof -
  have u: "unat (off + of_nat j) = unat off + j"
    by (rule unat_add_of_nat [OF assms(3)])
  show ?thesis
    using assms(1) unfolding mem_ok_def
  proof
    assume "ram_ok vm p"
    then show ?thesis by (simp only: guest_loc_ram add.assoc)
  next
    assume g: "ghost_ok vm p"
    then show ?thesis
      by (simp add: guest_loc_ghost u div_add_small [OF assms(2) [OF g]] mod_add_small [OF assms(2) [OF g]])
  qed
qed

lemma image_nth: "k < length (sparse_pages vm p) \<Longrightarrow>
    image_pages vm p ! k = host_addr (dev_heap vm p) + of_nat (k * VM_PAGE_SIZE)"
  by (simp add: image_pages_def pages_of_def)

text \<open>Distinct offsets have distinct locations.\<close>

lemma guest_loc_inj:
  assumes ok: "mem_ok vm p"
    and l: "unat o1 < unat (phys_len (dev_heap vm p))" "unat o2 < unat (phys_len (dev_heap vm p))"
    and eq: "guest_loc vm p o1 = guest_loc vm p o2"
  shows "o1 = o2"
  using ok unfolding mem_ok_def
proof
  assume "ram_ok vm p"
  then show ?thesis using eq by (simp add: guest_loc_ram)
next
  assume g: "ghost_ok vm p"
  let ?m = "map (\<lambda>x. x AND VM_PAGE_MASK) (sparse_pages vm p)"
  let ?k1 = "unat o1 div 4096" and ?k2 = "unat o2 div 4096"
  have k: "?k1 < length ?m" "?k2 < length ?m"
    using ghost_page_index [OF g] l by simp_all
  have e: "?m ! ?k1 + of_nat (unat o1 mod 4096) = ?m ! ?k2 + of_nat (unat o2 mod 4096)"
    using eq k by (simp add: guest_loc_ghost [OF g])
  have al: "aligned (?m ! ?k1)" "aligned (?m ! ?k2)" using k by simp_all
  have pe: "?m ! ?k1 = ?m ! ?k2"
    using aligned_disjoint [OF al, of "unat o1 mod 4096" "unat o2 mod 4096"] e by auto
  have "distinct ?m" using ghost_okD(7) [OF g] by simp
  then have ke: "?k1 = ?k2" using nth_eq_iff_index_eq [OF _ k] pe by blast
  have "(of_nat (unat o1 mod 4096) :: u64) = of_nat (unat o2 mod 4096)" using e pe by simp
  then have "unat o1 mod 4096 = unat o2 mod 4096"
    by (metis unat_small mod_less_divisor zero_less_numeral)
  then have "unat o1 = unat o2" using ke by (metis div_mult_mod_eq)
  then show ?thesis by (simp add: word_unat_eq_iff)
qed

text \<open>What a write within one page of its own does.\<close>

lemma write_own_page:
  assumes ok: "mem_ok vm p"
    and b: "ghost_ok vm p \<Longrightarrow> unat off mod 4096 + length bs \<le> 4096"
      "unat off + length bs \<le> unat (phys_len (dev_heap vm p))"
  shows "unat ofs < unat (phys_len (dev_heap vm p)) \<Longrightarrow>
    guest_byte (host_write (guest_loc vm p off) bs vm) p ofs =
      (if unat off \<le> unat ofs \<and> unat ofs < unat off + length bs then bs ! (unat ofs - unat off)
       else guest_byte vm p ofs)"
proof -
  assume l: "unat ofs < unat (phys_len (dev_heap vm p))"
  have lt: "unat (phys_len (dev_heap vm p)) < 2 ^ 32"
    using unsigned_less [of "phys_len (dev_heap vm p)", where 'a = nat] by simp
  have loc: "guest_loc vm p (off + of_nat j) = guest_loc vm p off + of_nat j" if "j < length bs" for j
    by (rule guest_loc_contiguous [OF ok]) (use that b lt in fastforce)+
  show ?thesis
  proof (cases "unat off \<le> unat ofs \<and> unat ofs < unat off + length bs")
    case True
    then obtain j where j: "unat ofs = unat off + j" "j < length bs"
      by (metis le_Suc_ex nat_add_left_cancel_less)
    have "ofs = off + of_nat j"
      using j(1) by (metis of_nat_add of_nat_unat unsigned_word_eqI ucast_id)
    then have "guest_loc vm p ofs = guest_loc vm p off + of_nat j" using loc [OF j(2)] by simp
    moreover have "unat (guest_loc vm p off + of_nat j - guest_loc vm p off) = j"
      by (rule unat_offset) (use j b lt in simp)
    ultimately show ?thesis using True j by (simp add: guest_byte_def hput_def)
  next
    case False
    have "\<not> unat (guest_loc vm p ofs - guest_loc vm p off) < length bs"
    proof
      let ?j = "unat (guest_loc vm p ofs - guest_loc vm p off)"
      assume j: "?j < length bs"
      have "guest_loc vm p ofs = guest_loc vm p off + of_nat ?j" by simp
      also have "\<dots> = guest_loc vm p (off + of_nat ?j)" by (rule loc [OF j, symmetric])
      finally have e: "guest_loc vm p ofs = guest_loc vm p (off + of_nat ?j)" .
      have u: "unat (off + of_nat ?j) = unat off + ?j"
        by (rule unat_add_of_nat) (use j b lt in simp)
      have "ofs = off + of_nat ?j"
        by (rule guest_loc_inj [OF ok l _ e]) (use u j b in linarith)
      then show False using u j False by simp
    qed
    then show ?thesis using False by (auto simp: guest_byte_def hput_def)
  qed
qed

definition in_image :: "'d vm_instance \<Rightarrow> nat \<Rightarrow> u64 \<Rightarrow> bool" where
  "in_image vm p x \<longleftrightarrow> (\<exists>a \<in> set (image_pages vm p). \<exists>i < 4096. x = a + of_nat i)"

lemma hput_other_page:
  assumes "aligned q" "aligned a" "q \<noteq> a" "k + length bs \<le> 4096" "i < 4096"
  shows "hput m (q + of_nat k) bs (a + of_nat i) = m (a + of_nat i)"
proof -
  have "\<not> unat (a + of_nat i - (q + of_nat k)) < length bs"
  proof
    let ?j = "unat (a + of_nat i - (q + of_nat k))"
    assume "?j < length bs"
    then have j: "k + ?j < 4096" using assms(4) by simp
    have "a + of_nat i = q + of_nat (k + ?j)" by simp
    then show False using aligned_disjoint [OF assms(2,1) _ assms(5) j] assms(3) by metis
  qed
  then show ?thesis by (simp add: hput_def)
qed

lemma write_keeps_image:
  assumes g: "ghost_ok vm p" and own: "own_page vm p off"
    and l: "unat off < unat (phys_len (dev_heap vm p))" "unat off mod 4096 + length bs \<le> 4096"
    and x: "in_image vm p x"
  shows "hput (host_mem vm) (guest_loc vm p off) bs x = host_mem vm x"
proof -
  obtain a i where a: "a \<in> set (image_pages vm p)" "i < 4096" "x = a + of_nat i"
    using x by (auto simp: in_image_def)
  have "sparse_pages vm p ! (unat off div 4096) AND VM_PAGE_MASK \<noteq> a"
    using own a(1) ghost_okD(1) [OF g] by (auto simp: own_page_def)
  then show ?thesis
    unfolding guest_loc_ghost [OF g] a(3)
    using hput_other_page [OF aligned_page _ _ l(2) a(2)] ghost_okD(10) [OF g a(1)] by blast
qed

lemma dirty_page:
  assumes "aligned q"
  shows "(q OR VDEVICE_PTE_DIRTY) AND VM_PAGE_MASK = q" "(q OR VDEVICE_PTE_DIRTY) AND VDEVICE_PTE_DIRTY \<noteq> 0"
proof -
  have d: "VDEVICE_PTE_DIRTY = 1" by (simp add: VDEVICE_PTE_DIRTY_def)
  show "(q OR VDEVICE_PTE_DIRTY) AND VM_PAGE_MASK = q"
    unfolding d page_imask
    by (rule bit_word_eqI) (use bit_aligned [OF assms] in \<open>auto simp: bit_and_iff bit_or_iff bit_not_iff bit_mask_iff bit_1_iff\<close>)
  have "bit ((q OR VDEVICE_PTE_DIRTY) AND VDEVICE_PTE_DIRTY) 0"
    unfolding d by (simp add: bit_and_iff bit_or_iff)
  then show "(q OR VDEVICE_PTE_DIRTY) AND VDEVICE_PTE_DIRTY \<noteq> 0" by (metis bit_0_eq bot_apply bot_bool_def)
qed

lemma aligned_clean: "aligned a \<Longrightarrow> a AND VDEVICE_PTE_DIRTY = 0"
proof -
  assume a: "aligned a"
  have "\<not> bit a 0" by (rule bit_aligned [OF a]) simp
  then show ?thesis by (simp add: VDEVICE_PTE_DIRTY_def and_one_eq even_iff_mod_2_eq_zero bit_0)
qed

lemma dirty_is_own:
  assumes g: "ghost_ok vm p" and l: "unat off < unat (phys_len (dev_heap vm p))"
    and d: "sparse_pages vm p ! (unat off div 4096) AND VDEVICE_PTE_DIRTY \<noteq> 0"
  shows "own_page vm p off"
proof -
  let ?k = "unat off div 4096"
  have k: "?k < length (sparse_pages vm p)" by (rule ghost_page_index [OF g l])
  have "image_pages vm p ! ?k \<in> set (image_pages vm p)"
    using k by (simp add: image_pages_def pages_of_def)
  then have "image_pages vm p ! ?k AND VDEVICE_PTE_DIRTY = 0"
    using ghost_okD(10) [OF g] aligned_clean by blast
  then have "sparse_pages vm p ! ?k \<noteq> image_pages vm p ! ?k" using d by metis
  then show ?thesis using ghost_okD(12) [OF g k] by (simp add: own_page_def)
qed

lemma length_filter_update:
  assumes "k < length xs" "P (xs ! k)" "\<not> P y"
  shows "Suc (length (filter P (xs[k := y]))) = length (filter P xs)"
proof -
  have "xs = take k xs @ xs ! k # drop (Suc k) xs" by (rule id_take_nth_drop [OF assms(1)])
  then have "length (filter P xs) = length (filter P (take k xs)) + Suc (length (filter P (drop (Suc k) xs)))"
    by (metis assms(2) filter.simps(2) filter_append length_Cons length_append)
  moreover have "xs[k := y] = take k xs @ y # drop (Suc k) xs"
    by (rule upd_conv_take_nth_drop [OF assms(1)])
  ultimately show ?thesis using assms(3) by simp
qed

text \<open>The state after a page has been copied: the copy step of \<open>dev_sparse_get_host_addr\<close>.\<close>

lemma sparse_copy_step:
  assumes g: "ghost_ok vm p" and k: "k < length (sparse_pages vm p)"
    and clean: "sparse_pages vm p ! k AND VDEVICE_PTE_DIRTY = 0"
    and np: "next_pages vm = q # qs"
    and nx: "next_pages (vm\<lparr>chunks := cs, host_areas := as\<rparr>) = qs"
      "chunks_ok (vm\<lparr>chunks := cs, host_areas := as\<rparr>)"
    and s: "sparse_map (dev_heap vm p) = Some s"
    and vm1: "vm1 = vm\<lparr>chunks := cs, host_areas := as,
        host_mem := hput (host_mem vm) q (hget (host_mem vm) (sparse_pages vm p ! k) 4096),
        sparse_heap := (sparse_heap vm)(s := (sparse_heap vm s)[k := q OR VDEVICE_PTE_DIRTY])\<rparr>"
  shows "sparse_pages vm1 p = (sparse_pages vm p)[k := q OR VDEVICE_PTE_DIRTY]"
    "image_pages vm1 p = image_pages vm p" "ghost_ok vm1 p"
    "\<And>ofs. unat ofs < unat (phys_len (dev_heap vm p)) \<Longrightarrow> guest_byte vm1 p ofs = guest_byte vm p ofs"
    "\<And>x. in_image vm p x \<Longrightarrow> host_mem vm1 x = host_mem vm x"
    "\<And>ofs. unat ofs < unat (phys_len (dev_heap vm p)) \<Longrightarrow>
       host_mem vm1 (guest_loc vm p ofs) = host_mem vm (guest_loc vm p ofs)"
proof -
  let ?m = "sparse_pages vm p" and ?a = "sparse_pages vm p ! k"
  let ?new = "q OR VDEVICE_PTE_DIRTY"
  have q: "aligned q" "q \<noteq> 0" "q \<notin> set (image_pages vm p)"
    using ghost_okD(9,11) [OF g] np by auto
  have a: "?a = image_pages vm p ! k" "aligned ?a" by (rule image_page_clean [OF g k clean])+
  have aq: "?a \<noteq> q"
  proof -
    have "?a \<in> set (image_pages vm p)" unfolding a(1) using k by (simp add: image_pages_def pages_of_def)
    then show ?thesis using q(3) by blast
  qed
  have dist: "distinct (map (\<lambda>x. x AND VM_PAGE_MASK) ?m)" "q \<notin> set (map (\<lambda>x. x AND VM_PAGE_MASK) ?m)"
    "q \<notin> set qs" "distinct qs" "set (map (\<lambda>x. x AND VM_PAGE_MASK) ?m) \<inter> set qs = {}"
    using ghost_okD(7) [OF g] by (auto simp: np)
  have dh: "dev_heap vm1 = dev_heap vm" by (simp add: vm1)
  show sp: "sparse_pages vm1 p = ?m[k := ?new]" by (simp add: vm1 sparse_pages_def s)
  show im: "image_pages vm1 p = image_pages vm p"
    by (simp add: image_pages_def sp dh)
  have n1: "next_pages vm1 = qs" "chunks_ok vm1"
    using nx by (simp_all add: vm1 next_pages_def chunks_ok_def)
  have mp: "map (\<lambda>x. x AND VM_PAGE_MASK) (?m[k := ?new]) = (map (\<lambda>x. x AND VM_PAGE_MASK) ?m)[k := q]"
    by (simp add: map_update dirty_page(1) [OF q(1)])
  have d1: "distinct (map (\<lambda>x. x AND VM_PAGE_MASK) (?m[k := ?new]) @ qs)"
  proof -
    have "distinct ((map (\<lambda>x. x AND VM_PAGE_MASK) ?m)[k := q])"
      using dist(1,2) by (simp add: distinct_list_update)
    moreover have "set ((map (\<lambda>x. x AND VM_PAGE_MASK) ?m)[k := q]) \<inter> set qs = {}"
      using dist(3,5) set_update_subset_insert [of "map (\<lambda>x. x AND VM_PAGE_MASK) ?m" k q] by blast
    ultimately show ?thesis using dist(4) by (simp add: mp)
  qed
  have len: "length (filter (\<lambda>x. x AND VDEVICE_PTE_DIRTY = 0) (?m[k := ?new])) \<le> length qs"
    using length_filter_update [of k ?m "\<lambda>x. x AND VDEVICE_PTE_DIRTY = 0" ?new] k clean
      dirty_page(2) [OF q(1)] ghost_okD(13) [OF g] by (simp add: np)
  have pages: "\<forall>x \<in> set (map (\<lambda>x. x AND VM_PAGE_MASK) (?m[k := ?new])) \<union> set qs \<union> set (image_pages vm p).
      aligned x \<and> x \<noteq> 0"
  proof -
    have "x AND VM_PAGE_MASK \<noteq> 0" if "x \<in> set ?m" for x
      using that ghost_okD(8) [OF g] by (metis in_set_conv_nth)
    then have "\<forall>x \<in> set (map (\<lambda>x. x AND VM_PAGE_MASK) ?m). aligned x \<and> x \<noteq> 0" by auto
    then have "\<forall>x \<in> set ((map (\<lambda>x. x AND VM_PAGE_MASK) ?m)[k := q]). aligned x \<and> x \<noteq> 0"
      using q set_update_subset_insert [of "map (\<lambda>x. x AND VM_PAGE_MASK) ?m" k q] by blast
    then show ?thesis using ghost_okD(9,10) [OF g] by (auto simp: mp np)
  qed
  have img: "set (image_pages vm p) \<inter> set qs = {}" using ghost_okD(11) [OF g] by (auto simp: np)
  have ents: "\<forall>j < length (?m[k := ?new]). ?m[k := ?new] ! j = image_pages vm p ! j \<or>
      ?m[k := ?new] ! j AND VDEVICE_PTE_DIRTY \<noteq> 0 \<and>
      ?m[k := ?new] ! j AND VM_PAGE_MASK \<notin> set (image_pages vm p)"
  proof (intro allI impI)
    fix j assume j: "j < length (?m[k := ?new])"
    show "?m[k := ?new] ! j = image_pages vm p ! j \<or>
      ?m[k := ?new] ! j AND VDEVICE_PTE_DIRTY \<noteq> 0 \<and>
      ?m[k := ?new] ! j AND VM_PAGE_MASK \<notin> set (image_pages vm p)"
    proof (cases "j = k")
      case True
      then show ?thesis using k q(3) dirty_page [OF q(1)] by simp
    qed (use ghost_okD(12) [OF g, of j] j in simp)
  qed
  show "ghost_ok vm1 p"
    unfolding ghost_ok_def Let_def sp im dh n1(1)
    using ghost_okD(1,2,3,5,6) [OF g] n1(2) d1 pages img ents len
    by (simp only: length_list_update) blast
  have other: "host_mem vm1 (b + of_nat i) = host_mem vm (b + of_nat i)"
    if "aligned b" "b \<noteq> q" "i < 4096" for b i
    using hput_other_page [of q b 0 "hget (host_mem vm) ?a 4096" i "host_mem vm"] that q(1)
    by (simp add: vm1)
  show "host_mem vm1 x = host_mem vm x" if "in_image vm p x" for x
    using that other ghost_okD(10) [OF g] q(3) unfolding in_image_def by metis
  show old: "host_mem vm1 (guest_loc vm p ofs) = host_mem vm (guest_loc vm p ofs)"
    if l: "unat ofs < unat (phys_len (dev_heap vm p))" for ofs
  proof -
    have j: "unat ofs div 4096 < length ?m" by (rule ghost_page_index [OF g l])
    then have "?m ! (unat ofs div 4096) AND VM_PAGE_MASK \<noteq> q"
      using dist(2) by (metis (no_types, lifting) imageI in_set_conv_nth list.set_map)
    then show ?thesis
      unfolding guest_loc_ghost [OF g] using other [OF aligned_page _, of _ "unat ofs mod 4096"] by simp
  qed
  show "guest_byte vm1 p ofs = guest_byte vm p ofs"
    if l: "unat ofs < unat (phys_len (dev_heap vm p))" for ofs
  proof -
    let ?j = "unat ofs div 4096" and ?i = "unat ofs mod 4096"
    have j: "?j < length ?m" by (rule ghost_page_index [OF g l])
    have l1: "guest_loc vm1 p ofs = (?m[k := ?new] ! ?j AND VM_PAGE_MASK) + of_nat ?i"
      using guest_loc_ghost [OF \<open>ghost_ok vm1 p\<close>, of ofs] by (simp add: sp)
    have l0: "guest_loc vm p ofs = (?m ! ?j AND VM_PAGE_MASK) + of_nat ?i"
      by (rule guest_loc_ghost [OF g])
    show ?thesis
    proof (cases "?j = k")
      case True
      have "unat (q + of_nat ?i - q) = ?i" by (rule unat_offset) simp
      then have "host_mem vm1 (q + of_nat ?i) = host_mem vm (?a + of_nat ?i)"
        by (simp add: vm1 hput_def)
      then show ?thesis
        using True k by (simp add: guest_byte_def l1 l0 dirty_page(1) [OF q(1)] and_page_idem [OF a(2)])
    next
      case False
      then have "guest_loc vm1 p ofs = guest_loc vm p ofs" by (simp add: l1 l0)
      then show ?thesis using old [OF l] by (simp add: guest_byte_def)
    qed
  qed
qed

section \<open>Host pointers into memory devices\<close>

lemma ghost_hptr_offset:
  assumes g: "ghost_ok vm p" and l: "unat (paddr - phys_addr (dev_heap vm p)) < unat (phys_len (dev_heap vm p))"
    and "ptr = sparse_pages vm p ! (unat (paddr - phys_addr (dev_heap vm p)) div 4096) AND VM_PAGE_MASK"
  shows "ptr + (paddr AND VM_PAGE_IMASK) = guest_loc vm p (paddr - phys_addr (dev_heap vm p))"
  using ghost_okD(1) [OF g] imask_offset [OF ghost_okD(3) [OF g], of paddr] assms(3)
  by (simp add: guest_loc_def Let_def)

lemma hptr_read:
  assumes ok: "mem_ok vm p" and lk: "dev_lookup paddr False vm = Some p"
  shows "physmem_get_hptr H paddr sz MTS_READ d vm =
    Inr ((guest_loc vm p (paddr - phys_addr (dev_heap vm p)), d), vm)"
  using ok unfolding mem_ok_def
proof
  assume r: "ram_ok vm p"
  show ?thesis using ram_okD [OF r] by (simp add: physmem_get_hptr_def lk Let_def guest_loc_ram [OF r])
next
  assume g: "ghost_ok vm p"
  let ?off = "paddr - phys_addr (dev_heap vm p)"
  have l: "unat ?off < unat (phys_len (dev_heap vm p))" using dev_lookup_covers [OF lk] by simp
  obtain s where s: "sparse_map (dev_heap vm p) = Some s" using ghost_okD(6) [OF g] by blast
  have k: "unat ?off div 4096 < length (sparse_heap vm s)"
    using ghost_page_index [OF g l] by (simp add: sparse_pages_def s)
  have sp: "sparse_pages vm p = sparse_heap vm s" by (simp add: sparse_pages_def s)
  have "dev_sparse_get_host_addr p paddr MTS_READ vm =
      Inr ((sparse_pages vm p ! (unat ?off div 4096) AND VM_PAGE_MASK,
            sparse_pages vm p ! (unat ?off div 4096) AND VDEVICE_PTE_DIRTY = 0), vm)"
    using ghost_okD(2) [OF g] k
    by (simp add: dev_sparse_get_host_addr_def Let_def s unat_page_index [OF l] sp not_le)
  then show ?thesis
    using ghost_okD(1,8) [OF g] ghost_page_index [OF g l] ghost_hptr_offset [OF g l refl]
    by (simp add: physmem_get_hptr_def lk Let_def)
qed

lemma hptr_write:
  assumes ok: "mem_ok vm p" and lk: "dev_lookup paddr False vm = Some p"
  defines "off \<equiv> paddr - phys_addr (dev_heap vm p)"
  obtains vm1 where "physmem_get_hptr H paddr sz MTS_WRITE d vm = Inr ((guest_loc vm1 p off, d), vm1)"
    "mem_ok vm1 p" "own_page vm1 p off" "dev_heap vm1 = dev_heap vm" "dev_list vm1 = dev_list vm"
    "\<And>ofs. unat ofs < unat (phys_len (dev_heap vm p)) \<Longrightarrow> guest_byte vm1 p ofs = guest_byte vm p ofs"
    "ghost_ok vm p \<Longrightarrow> ghost_ok vm1 p" "image_pages vm1 p = image_pages vm p"
    "\<And>x. ghost_ok vm p \<Longrightarrow> in_image vm p x \<Longrightarrow> host_mem vm1 x = host_mem vm x"
    "\<And>ofs. unat ofs < unat (phys_len (dev_heap vm p)) \<Longrightarrow>
       host_mem vm1 (guest_loc vm p ofs) = host_mem vm (guest_loc vm p ofs)"
proof (cases "ram_ok vm p")
  case r: True
  show thesis
  proof (rule that [of vm])
    show "physmem_get_hptr H paddr sz MTS_WRITE d vm = Inr ((guest_loc vm p off, d), vm)"
      using ram_okD [OF r] by (simp add: physmem_get_hptr_def lk Let_def guest_loc_ram [OF r] off_def)
    show "own_page vm p off" using ram_okD(1) [OF r] by (simp add: own_page_def)
  qed (use ok in auto)
next
  case False
  then have g: "ghost_ok vm p" using ok by (simp add: mem_ok_def)
  have l: "unat off < unat (phys_len (dev_heap vm p))" using dev_lookup_covers [OF lk] by (simp add: off_def)
  obtain s where s: "sparse_map (dev_heap vm p) = Some s" using ghost_okD(6) [OF g] by blast
  let ?k = "unat off div 4096"
  have k: "?k < length (sparse_pages vm p)" by (rule ghost_page_index [OF g l])
  have sp: "sparse_pages vm p = sparse_heap vm s" by (simp add: sparse_pages_def s)
  have ix: "unat (ucast (drop_bit VM_PAGE_SHIFT (paddr - phys_addr (dev_heap vm p))) :: u32) = ?k"
    using unat_page_index [OF l] by (simp add: off_def)
  show thesis
  proof (cases "sparse_pages vm p ! ?k AND VDEVICE_PTE_DIRTY = 0")
    case dirty: False
    have "dev_sparse_get_host_addr p paddr MTS_WRITE vm =
        Inr ((sparse_pages vm p ! ?k AND VM_PAGE_MASK, False), vm)"
      using ghost_okD(2) [OF g] k dirty
      by (simp add: dev_sparse_get_host_addr_def Let_def s ix sp not_le)
    then have "physmem_get_hptr H paddr sz MTS_WRITE d vm = Inr ((guest_loc vm p off, d), vm)"
      using ghost_okD(1) [OF g] ghost_okD(8) [OF g k] ghost_hptr_offset [OF g l [unfolded off_def] refl]
      by (simp add: physmem_get_hptr_def lk Let_def off_def)
    then show thesis
      by (rule that) (use ok g dirty_is_own [OF g l dirty] in auto)
  next
    case clean: True
    have "filter (\<lambda>x. x AND VDEVICE_PTE_DIRTY = 0) (sparse_pages vm p) \<noteq> []"
      using k clean by (auto simp: filter_empty_conv intro: nth_mem)
    then have "0 < length (filter (\<lambda>x. x AND VDEVICE_PTE_DIRTY = 0) (sparse_pages vm p))"
      by (rule length_greater_0_conv [THEN iffD2])
    then have "0 < length (next_pages vm)" using ghost_okD(13) [OF g] by linarith
    then obtain q qs where np: "next_pages vm = q # qs" by (cases "next_pages vm") auto
    obtain cs as where al: "vm_alloc_host_page vm = (q, vm\<lparr>chunks := cs, host_areas := as\<rparr>)"
      and nx: "next_pages (vm\<lparr>chunks := cs, host_areas := as\<rparr>) = qs"
        "chunks_ok (vm\<lparr>chunks := cs, host_areas := as\<rparr>)"
      by (rule vm_alloc_host_page_spec [OF np ghost_okD(4) [OF g]])
    define vm1 where "vm1 = vm\<lparr>chunks := cs, host_areas := as,
        host_mem := hput (host_mem vm) q (hget (host_mem vm) (sparse_pages vm p ! ?k) 4096),
        sparse_heap := (sparse_heap vm)(s := (sparse_heap vm s)[?k := q OR VDEVICE_PTE_DIRTY])\<rparr>"
    note st = sparse_copy_step [OF g k clean np nx s vm1_def]
    have q: "aligned q" "q \<noteq> 0" "q \<notin> set (image_pages vm p)" using ghost_okD(9,11) [OF g] np by auto
    have pk: "sparse_pages vm p ! ?k AND VM_PAGE_MASK = sparse_pages vm p ! ?k"
      by (rule and_page_idem [OF image_page_clean(2) [OF g k clean]])
    have "dev_sparse_get_host_addr p paddr MTS_WRITE vm = Inr ((q, False), vm1)"
      using ghost_okD(2) [OF g] k clean q(2)
      by (simp add: dev_sparse_get_host_addr_def Let_def s ix sp [symmetric] not_le sparse_new_page_def
          al vm1_def pk VM_PAGE_SIZE_def)
    moreover have "q + (paddr AND VM_PAGE_IMASK) = guest_loc vm1 p off"
    proof -
      have dh: "dev_heap vm1 = dev_heap vm" by (simp add: vm1_def)
      have "q = sparse_pages vm1 p ! (unat off div 4096) AND VM_PAGE_MASK"
        using k by (simp add: st(1) dirty_page(1) [OF q(1)])
      then show ?thesis using ghost_hptr_offset [OF st(3), of paddr q] l by (simp add: dh off_def)
    qed
    ultimately have hp: "physmem_get_hptr H paddr sz MTS_WRITE d vm = Inr ((guest_loc vm1 p off, d), vm1)"
      using ghost_okD(1) [OF g] q(2) by (simp add: physmem_get_hptr_def lk Let_def)
    have ow: "own_page vm1 p off"
      using k q(3) by (simp add: own_page_def st(1,2) dirty_page(1) [OF q(1)])
    have dv: "dev_heap vm1 = dev_heap vm" "dev_list vm1 = dev_list vm" by (simp_all add: vm1_def)
    have mo: "mem_ok vm1 p" using st(3) by (simp add: mem_ok_def)
    show thesis by (rule that [OF hp mo ow dv st(4) st(3) st(2) st(5,6)])
  qed
qed

section \<open>Block copies\<close>

text \<open>All of the range is memory of the device \<open>p\<close>.\<close>

definition in_device :: "'d vm_instance \<Rightarrow> nat \<Rightarrow> u64 \<Rightarrow> nat \<Rightarrow> bool" where
  "in_device vm p a n \<longleftrightarrow> (\<forall>i < n. dev_lookup (a + of_nat i) False vm = Some p)"

lemma in_device_host_mem [simp]: "in_device (vm\<lparr>host_mem := m\<rparr>) p a n = in_device vm p a n"
  by (simp add: in_device_def)

lemma in_device_cong:
  "dev_heap vm1 = dev_heap vm \<Longrightarrow> dev_list vm1 = dev_list vm \<Longrightarrow> in_device vm1 p a n = in_device vm p a n"
  by (simp add: in_device_def dev_lookup_def)

lemma in_device_mono: "in_device vm p a n \<Longrightarrow> m \<le> n \<Longrightarrow> in_device vm p a m"
  by (auto simp: in_device_def)

lemma in_device_drop: "in_device vm p a n \<Longrightarrow> r \<le> n \<Longrightarrow> in_device vm p (a + of_nat r) (n - r)"
  unfolding in_device_def by (metis add.assoc less_diff_conv add.commute of_nat_add)

text \<open>The offsets of the range within the device.\<close>

lemma in_device_offsets:
  assumes "in_device vm p a n" "0 < n" "n \<le> 2 ^ 32"
  defines "off \<equiv> a - phys_addr (dev_heap vm p)"
  shows "unat off + n \<le> unat (phys_len (dev_heap vm p))"
proof -
  let ?L = "unat (phys_len (dev_heap vm p))"
  have L: "?L < 2 ^ 32" using unsigned_less [of "phys_len (dev_heap vm p)", where 'a = nat] by simp
  have at: "unat (off + of_nat i) < ?L" if "i < n" for i
    using dev_lookup_covers [of "a + of_nat i" False vm p] assms(1) that
    by (simp add: in_device_def off_def algebra_simps)
  have "unat off + i < ?L" if "i < n" for i
    using that
  proof (induction i)
    case 0
    then show ?case using at [of 0] by simp
  next
    case (Suc i)
    then have "unat off + Suc i < 2 ^ 64" using L by simp
    then show ?case using unat_add_of_nat [of off "Suc i"] at [OF Suc.prems] by simp
  qed
  from this [of "n - 1"] show ?thesis using assms(2) by simp
qed

lemma page_rest_offset:
  assumes "ghost_ok vm p"
  shows "page_rest a = 4096 - unat (a - phys_addr (dev_heap vm p)) mod 4096"
  using imask_offset [OF ghost_okD(3) [OF assms], of a] div_page(2)
  by (metis VM_PAGE_SIZE_def page_rest_def)

lemma guest_loc_page:
  assumes ok: "mem_ok vm p" and j: "j < page_rest a" and l: "unat (a - phys_addr (dev_heap vm p)) + j < 2 ^ 64"
  shows "guest_loc vm p (a - phys_addr (dev_heap vm p) + of_nat j) =
    guest_loc vm p (a - phys_addr (dev_heap vm p)) + of_nat j"
proof (rule guest_loc_contiguous [OF ok _ l])
  assume "ghost_ok vm p"
  from page_rest_offset [OF this, of a] j show "unat (a - phys_addr (dev_heap vm p)) mod 4096 + j < 4096" by simp
qed

lemma read_in_page:
  assumes ok: "mem_ok vm p" and b: "unat (a - phys_addr (dev_heap vm p)) + n \<le> unat (phys_len (dev_heap vm p))"
    and n: "n \<le> page_rest a"
  shows "host_read (guest_loc vm p (a - phys_addr (dev_heap vm p))) n vm =
    map (\<lambda>i. guest_byte vm p (a - phys_addr (dev_heap vm p) + of_nat i)) [0..<n]"
proof (rule nth_equalityI)
  let ?off = "a - phys_addr (dev_heap vm p)"
  fix i assume "i < length (host_read (guest_loc vm p ?off) n vm)"
  then have i: "i < n" "i < page_rest a" using n by simp_all
  have L: "unat (phys_len (dev_heap vm p)) < 2 ^ 32"
    using unsigned_less [of "phys_len (dev_heap vm p)", where 'a = nat] by simp
  have "guest_loc vm p (?off + of_nat i) = guest_loc vm p ?off + of_nat i"
    by (rule guest_loc_page [OF ok i(2)]) (use b L i(1) in simp)
  then show "host_read (guest_loc vm p ?off) n vm ! i =
      map (\<lambda>i. guest_byte vm p (?off + of_nat i)) [0..<n] ! i"
    using i by (simp add: guest_byte_def)
qed simp

lemma upt_split: "r \<le> n \<Longrightarrow> [0..<n] = [0..<r] @ map (\<lambda>i. r + i) [0..<n - r]"
  by (rule nth_equalityI) (auto simp: nth_append)

lemma copy_from_memory:
  assumes "mem_ok vm p" "in_device vm p a n" "n \<le> 2 ^ 32"
  shows "physmem_copy_from_vm H buf a n vm =
    Inr (map (\<lambda>i. guest_byte vm p (a - phys_addr (dev_heap vm p) + of_nat i)) [0..<n], vm)"
  using assms
proof (induction n arbitrary: a buf rule: less_induct)
  case (less n)
  show ?case
  proof (cases "n = 0")
    case True then show ?thesis by (simp add: physmem_copy_from_vm.simps)
  next
    case False
    let ?off = "a - phys_addr (dev_heap vm p)" and ?r = "min (page_rest a) n"
    have lk: "dev_lookup a False vm = Some p"
      using less.prems(2) False by (auto simp: in_device_def dest: spec [of _ 0])
    have b: "unat ?off + n \<le> unat (phys_len (dev_heap vm p))"
      using in_device_offsets [OF less.prems(2) _ less.prems(3)] False by simp
    have L: "unat (phys_len (dev_heap vm p)) < 2 ^ 32"
      using unsigned_less [of "phys_len (dev_heap vm p)", where 'a = nat] by simp
    have nz: "guest_loc vm p ?off \<noteq> 0" by (rule guest_loc_nonzero [OF less.prems(1)]) (use b False in simp)
    have r: "0 < ?r" "?r \<le> n" using page_rest_pos False by simp_all
    have rd: "host_read (guest_loc vm p ?off) ?r vm = map (\<lambda>i. guest_byte vm p (?off + of_nat i)) [0..<?r]"
      by (rule read_in_page [OF less.prems(1)]) (use b r(2) in simp_all)
    have e: "a + of_nat ?r - phys_addr (dev_heap vm p) = ?off + of_nat ?r" by simp
    have IH: "physmem_copy_from_vm H (drop ?r buf) (a + of_nat ?r) (n - ?r) vm =
        Inr (map (\<lambda>i. guest_byte vm p (?off + of_nat (?r + i))) [0..<n - ?r], vm)"
      using less.IH [of "n - ?r" "a + of_nat ?r" "drop ?r buf"] in_device_drop [OF less.prems(2) r(2)] r less.prems
      by (simp add: e add.assoc)
    have sp: "[0..<n] = [0..<?r] @ map (\<lambda>i. ?r + i) [0..<n - ?r]"
      by (rule upt_split [OF r(2)])
    show ?thesis
      by (subst physmem_copy_from_vm.simps, subst sp)
         (simp add: False hptr_read [OF less.prems(1) lk] nz Let_def rd IH comp_def del: min_less_iff_conj)
  qed
qed

text \<open>The memory of \<open>p\<close> after \<open>bs\<close> has been stored at \<open>off\<close>, everything else being as before.\<close>

definition stored :: "nat \<Rightarrow> u64 \<Rightarrow> bytes \<Rightarrow> 'd vm_instance \<Rightarrow> 'd vm_instance \<Rightarrow> bool" where
  "stored p off bs vm vm1 \<longleftrightarrow>
     mem_ok vm1 p \<and> dev_heap vm1 = dev_heap vm \<and> dev_list vm1 = dev_list vm \<and>
     (\<forall>ofs. unat ofs < unat (phys_len (dev_heap vm p)) \<longrightarrow>
        guest_byte vm1 p ofs =
          (if unat off \<le> unat ofs \<and> unat ofs < unat off + length bs then bs ! (unat ofs - unat off)
           else guest_byte vm p ofs)) \<and>
     (ghost_ok vm p \<longrightarrow> ghost_ok vm1 p \<and> image_pages vm1 p = image_pages vm p \<and>
        (\<forall>x. in_image vm p x \<longrightarrow> host_mem vm1 x = host_mem vm x))"

lemma stored_Nil: "mem_ok vm p \<Longrightarrow> stored p off [] vm vm"
  by (auto simp: stored_def)

lemma stored_same:
  "stored p off bs vm vm1 \<Longrightarrow> unat ofs < unat (phys_len (dev_heap vm p)) \<Longrightarrow>
   \<not> (unat off \<le> unat ofs \<and> unat ofs < unat off + length bs) \<Longrightarrow> guest_byte vm1 p ofs = guest_byte vm p ofs"
  unfolding stored_def by metis

lemma stored_new:
  "stored p off bs vm vm1 \<Longrightarrow> unat ofs < unat (phys_len (dev_heap vm p)) \<Longrightarrow>
   unat ofs = unat off + j \<Longrightarrow> j < length bs \<Longrightarrow> guest_byte vm1 p ofs = bs ! j"
  by (simp add: stored_def)

lemma stored_append:
  assumes 1: "stored p off bs vm vm1" and 2: "stored p (off + of_nat (length bs)) cs vm1 vm2"
    and b: "unat off + length bs < 2 ^ 64"
  shows "stored p off (bs @ cs) vm vm2"
proof -
  have u: "unat (off + of_nat (length bs)) = unat off + length bs" by (rule unat_add_of_nat [OF b])
  have dh: "dev_heap vm1 = dev_heap vm" using 1 by (simp add: stored_def)
  have img: "in_image vm1 p x = in_image vm p x" if "ghost_ok vm p" for x
    using 1 that by (simp add: stored_def in_image_def)
  have by': "guest_byte vm2 p ofs =
      (if unat off \<le> unat ofs \<and> unat ofs < unat off + length (bs @ cs) then (bs @ cs) ! (unat ofs - unat off)
       else guest_byte vm p ofs)" if l: "unat ofs < unat (phys_len (dev_heap vm p))" for ofs
  proof -
    have "guest_byte vm2 p ofs = (if unat off + length bs \<le> unat ofs \<and> unat ofs < unat off + length bs + length cs
        then cs ! (unat ofs - (unat off + length bs)) else guest_byte vm1 p ofs)"
      using 2 l by (simp add: stored_def dh u)
    moreover have "guest_byte vm1 p ofs = (if unat off \<le> unat ofs \<and> unat ofs < unat off + length bs
        then bs ! (unat ofs - unat off) else guest_byte vm p ofs)"
      using 1 l by (simp add: stored_def)
    ultimately show ?thesis by (auto simp: nth_append)
  qed
  show ?thesis
    using 1 2 by' img unfolding stored_def by auto
qed

text \<open>One turn of the loop: a page is made writable and a part of it is written.\<close>

lemma store_in_page:
  assumes ok: "mem_ok vm p" and ind: "in_device vm p a (length bs)" and n: "length bs \<le> page_rest a" "bs \<noteq> []"
  defines "off \<equiv> a - phys_addr (dev_heap vm p)"
  obtains vm1 ptr where "physmem_get_hptr H a sz MTS_WRITE d vm = Inr ((ptr, d), vm1)" "ptr \<noteq> 0"
    "stored p off bs vm (host_write ptr bs vm1)"
    "\<And>ofs. unat ofs < unat (phys_len (dev_heap vm p)) \<Longrightarrow>
       host_mem vm1 (guest_loc vm p ofs) = host_mem vm (guest_loc vm p ofs)"
proof -
  have lk: "dev_lookup a False vm = Some p"
    using ind n(2) by (auto simp: in_device_def dest: spec [of _ 0])
  obtain vm1 where h: "physmem_get_hptr H a sz MTS_WRITE d vm = Inr ((guest_loc vm1 p off, d), vm1)"
    "mem_ok vm1 p" "own_page vm1 p off" "dev_heap vm1 = dev_heap vm" "dev_list vm1 = dev_list vm"
    "\<And>ofs. unat ofs < unat (phys_len (dev_heap vm p)) \<Longrightarrow> guest_byte vm1 p ofs = guest_byte vm p ofs"
    "ghost_ok vm p \<Longrightarrow> ghost_ok vm1 p" "image_pages vm1 p = image_pages vm p"
    "\<And>x. ghost_ok vm p \<Longrightarrow> in_image vm p x \<Longrightarrow> host_mem vm1 x = host_mem vm x"
    "\<And>ofs. unat ofs < unat (phys_len (dev_heap vm p)) \<Longrightarrow>
       host_mem vm1 (guest_loc vm p ofs) = host_mem vm (guest_loc vm p ofs)"
    unfolding off_def by (rule hptr_write [OF ok lk, of H sz d]) blast
  have l32: "length bs \<le> 2 ^ 32"
  proof -
    have "page_rest a \<le> 4096" by (simp add: page_rest_def VM_PAGE_SIZE_def)
    then show ?thesis using n(1) by simp
  qed
  have b: "unat off + length bs \<le> unat (phys_len (dev_heap vm p))"
    using in_device_offsets [OF ind _ l32] n(2) by (simp add: off_def)
  have pg: "unat off mod 4096 + length bs \<le> 4096" if "ghost_ok vm p"
    using page_rest_offset [OF that, of a] n(1) by (simp add: off_def)
  have g1: "ghost_ok vm p" if "ghost_ok vm1 p"
    using that ok h(4) ghost_okD(1) [OF that] by (auto simp: mem_ok_def dest: ram_okD(1))
  have wr: "guest_byte (host_write (guest_loc vm1 p off) bs vm1) p ofs =
      (if unat off \<le> unat ofs \<and> unat ofs < unat off + length bs then bs ! (unat ofs - unat off)
       else guest_byte vm p ofs)" if "unat ofs < unat (phys_len (dev_heap vm p))" for ofs
    using write_own_page [OF h(2), of off bs ofs] pg g1 b that h(6) by (simp add: h(4))
  have im: "hput (host_mem vm1) (guest_loc vm1 p off) bs x = host_mem vm x"
    if "ghost_ok vm p" "in_image vm p x" for x
  proof -
    have "0 < length bs" using n(2) by simp
    then have "unat off < unat (phys_len (dev_heap vm p))" using b by linarith
    then have l: "unat off < unat (phys_len (dev_heap vm1 p))" by (simp only: h(4))
    have "in_image vm1 p x" using that(2) by (simp add: in_image_def h(8))
    then show ?thesis
      using write_keeps_image [OF h(7) [OF that(1)] h(3) l pg [OF that(1)]] h(9) [OF that] by simp
  qed
  show thesis
  proof (rule that [OF h(1) _ _ h(10)])
    have "0 < length bs" using n(2) by simp
    then have "unat off < unat (phys_len (dev_heap vm p))" using b by linarith
    then show "guest_loc vm1 p off \<noteq> 0"
      by (intro guest_loc_nonzero [OF h(2)]) (simp only: h(4))
    show "stored p off bs vm (host_write (guest_loc vm1 p off) bs vm1)"
      unfolding stored_def using h wr im by (simp add: in_image_def)
  qed
qed

lemma copy_to_memory:
  assumes "mem_ok vm p" "in_device vm p a n" "n \<le> 2 ^ 32" "n \<le> length buf"
  shows "\<exists>vm1. physmem_copy_to_vm H buf a n vm = Inr vm1 \<and>
    stored p (a - phys_addr (dev_heap vm p)) (take n buf) vm vm1"
  using assms
proof (induction n arbitrary: a buf vm rule: less_induct)
  case (less n)
  show ?case
  proof (cases "n = 0")
    case True then show ?thesis using stored_Nil [OF less.prems(1)] by (simp add: physmem_copy_to_vm.simps)
  next
    case False
    let ?off = "a - phys_addr (dev_heap vm p)" and ?r = "min (page_rest a) n"
    let ?bs = "take ?r buf"
    have r: "0 < ?r" "?r \<le> n" "?r \<le> page_rest a" using page_rest_pos False by simp_all
    have lb: "length ?bs = ?r" using less.prems(4) by simp
    have ind: "in_device vm p a (length ?bs)"
      unfolding lb using less.prems(2) r(2) by (auto simp: in_device_def)
    obtain vm1 ptr where h: "physmem_get_hptr H a 0 MTS_WRITE 0 vm = Inr ((ptr, 0), vm1)" "ptr \<noteq> 0"
      and st: "stored p ?off ?bs vm (host_write ptr ?bs vm1)"
      by (rule store_in_page [OF less.prems(1) ind, of H 0 0]) (use lb r in auto)
    let ?vm2 = "host_write ptr ?bs vm1"
    have d2: "dev_heap ?vm2 = dev_heap vm" "dev_list ?vm2 = dev_list vm" "mem_ok ?vm2 p"
      using st by (auto simp: stored_def)
    have e: "a + of_nat ?r - phys_addr (dev_heap ?vm2 p) = ?off + of_nat ?r"
      using d2(1) by simp
    have in2: "in_device ?vm2 p (a + of_nat ?r) (n - ?r)"
      using in_device_cong [OF d2(1,2)] in_device_drop [OF less.prems(2) r(2)] by blast
    have c: "n - ?r < n" "n - ?r \<le> 2 ^ 32" "n - ?r \<le> length (drop ?r buf)"
      using r(1,2) False less.prems(3,4) by simp_all
    obtain vm3 where IH: "physmem_copy_to_vm H (drop ?r buf) (a + of_nat ?r) (n - ?r) ?vm2 = Inr vm3"
      "stored p (?off + of_nat ?r) (take (n - ?r) (drop ?r buf)) ?vm2 vm3"
      using less.IH [OF c(1) d2(3) in2 c(2,3)] unfolding e by blast
    have "stored p ?off (?bs @ take (n - ?r) (drop ?r buf)) vm vm3"
    proof (rule stored_append [OF st])
      show "stored p (?off + of_nat (length ?bs)) (take (n - ?r) (drop ?r buf)) ?vm2 vm3"
        unfolding lb by (rule IH(2))
      have "unat ?off + n \<le> unat (phys_len (dev_heap vm p))"
        using in_device_offsets [OF less.prems(2) _ less.prems(3)] False by simp
      then show "unat ?off + length ?bs < 2 ^ 64"
        using lb r(2) unsigned_less [of "phys_len (dev_heap vm p)", where 'a = nat] by simp
    qed
    moreover have "?bs @ take (n - ?r) (drop ?r buf) = take n buf"
      using r(2) by (metis add_diff_inverse_nat not_le take_add)
    moreover have "physmem_copy_to_vm H buf a n vm = Inr vm3"
      by (subst physmem_copy_to_vm.simps) (use False h IH(1) in \<open>simp add: Let_def del: min_less_iff_conj\<close>)
    ultimately show ?thesis by auto
  qed
qed

text \<open>DMA within a device, between ranges that do not overlap.\<close>

lemma dma_memory:
  assumes "mem_ok vm p" "in_device vm p src n" "in_device vm p dst n" "n \<le> 2 ^ 32"
    and "\<And>i j. i < n \<Longrightarrow> j < n \<Longrightarrow> src + of_nat i \<noteq> dst + of_nat j"
  shows "\<exists>vm1. physmem_dma_transfer H src dst n vm = Inr vm1 \<and>
    stored p (dst - phys_addr (dev_heap vm p))
      (map (\<lambda>i. guest_byte vm p (src - phys_addr (dev_heap vm p) + of_nat i)) [0..<n]) vm vm1"
  using assms
proof (induction n arbitrary: src dst vm rule: less_induct)
  case (less n)
  show ?case
  proof (cases "n = 0")
    case True then show ?thesis using stored_Nil [OF less.prems(1)] by (simp add: physmem_dma_transfer.simps)
  next
    case False
    let ?P = "phys_addr (dev_heap vm p)"
    let ?so = "src - ?P" and ?do = "dst - ?P" and ?r = "min (min (page_rest src) (page_rest dst)) n"
    let ?bs = "map (\<lambda>i. guest_byte vm p (?so + of_nat i)) [0..<?r]"
    let ?cs = "map (\<lambda>i. guest_byte vm p (?so + of_nat ?r + of_nat i)) [0..<n - ?r]"
    have r: "0 < ?r" "?r \<le> n" "?r \<le> page_rest src" "?r \<le> page_rest dst"
      using page_rest_pos False by simp_all
    have lk: "dev_lookup src False vm = Some p"
      using less.prems(2) False by (auto simp: in_device_def dest: spec [of _ 0])
    have L: "unat (phys_len (dev_heap vm p)) < 2 ^ 32"
      using unsigned_less [of "phys_len (dev_heap vm p)", where 'a = nat] by simp
    have sb: "unat ?so + n \<le> unat (phys_len (dev_heap vm p))" and db: "unat ?do + n \<le> unat (phys_len (dev_heap vm p))"
      using in_device_offsets [OF less.prems(2) _ less.prems(4)]
        in_device_offsets [OF less.prems(3) _ less.prems(4)] False by simp_all
    have ind: "in_device vm p dst (length ?bs)"
      using less.prems(3) r(2) by (auto simp: in_device_def)
    obtain vm1 ptr where h: "physmem_get_hptr H dst 0 MTS_WRITE 0 vm = Inr ((ptr, 0), vm1)" "ptr \<noteq> 0"
      and st: "stored p ?do ?bs vm (host_write ptr ?bs vm1)"
      and same: "\<And>ofs. unat ofs < unat (phys_len (dev_heap vm p)) \<Longrightarrow>
         host_mem vm1 (guest_loc vm p ofs) = host_mem vm (guest_loc vm p ofs)"
      by (rule store_in_page [OF less.prems(1) ind, of H 0 0]) (use r in auto)
    have rd: "host_read (guest_loc vm p ?so) ?r vm1 = ?bs"
    proof (rule nth_equalityI)
      fix i assume "i < length (host_read (guest_loc vm p ?so) ?r vm1)"
      then have i: "i < page_rest src" "i < n" "i < ?r" by simp_all
      have "guest_loc vm p (?so + of_nat i) = guest_loc vm p ?so + of_nat i"
        by (rule guest_loc_page [OF less.prems(1) i(1)]) (use sb L i(2) in simp)
      moreover have "unat (?so + of_nat i) = unat ?so + i"
        by (rule unat_add_of_nat) (use sb L i(2) in simp)
      ultimately show "host_read (guest_loc vm p ?so) ?r vm1 ! i = ?bs ! i"
        using same [of "?so + of_nat i"] i sb by (simp add: guest_byte_def)
    qed simp
    have nz: "guest_loc vm p ?so \<noteq> 0" by (rule guest_loc_nonzero [OF less.prems(1)]) (use sb False in simp)
    let ?vm2 = "host_write ptr ?bs vm1"
    have d2: "dev_heap ?vm2 = dev_heap vm" "dev_list ?vm2 = dev_list vm" "mem_ok ?vm2 p"
      using st by (auto simp: stored_def)
    have in2: "in_device ?vm2 p (src + of_nat ?r) (n - ?r)" "in_device ?vm2 p (dst + of_nat ?r) (n - ?r)"
      using in_device_cong [OF d2(1,2)] in_device_drop [OF less.prems(2) r(2)] in_device_drop [OF less.prems(3) r(2)]
      by blast+
    have c: "n - ?r < n" "n - ?r \<le> 2 ^ 32" using r(1) False less.prems(4) by simp_all
    have dj: "src + of_nat ?r + of_nat i \<noteq> dst + of_nat ?r + of_nat j" if "i < n - ?r" "j < n - ?r" for i j
      using less.prems(5) [of "?r + i" "?r + j"] that by (simp add: add.assoc)
    have e: "src + of_nat ?r - phys_addr (dev_heap ?vm2 p) = ?so + of_nat ?r"
      "dst + of_nat ?r - phys_addr (dev_heap ?vm2 p) = ?do + of_nat ?r" using d2(1) by simp_all
    obtain vm3 where IH: "physmem_dma_transfer H (src + of_nat ?r) (dst + of_nat ?r) (n - ?r) ?vm2 = Inr vm3"
      "stored p (?do + of_nat ?r) (map (\<lambda>i. guest_byte ?vm2 p (?so + of_nat ?r + of_nat i)) [0..<n - ?r]) ?vm2 vm3"
      using less.IH [OF c(1) d2(3) in2 c(2) dj] unfolding e by blast
    have unch: "guest_byte ?vm2 p (?so + of_nat ?r + of_nat i) = guest_byte vm p (?so + of_nat ?r + of_nat i)"
      if i: "i < n - ?r" for i
    proof -
      let ?o = "?so + of_nat (?r + i)"
      have o: "unat ?o = unat ?so + (?r + i)"
        by (rule unat_add_of_nat) (use sb L i in simp)
      have "\<not> (unat ?do \<le> unat ?o \<and> unat ?o < unat ?do + length ?bs)"
      proof
        assume a: "unat ?do \<le> unat ?o \<and> unat ?o < unat ?do + length ?bs"
        define j where "j = unat ?o - unat ?do"
        have j: "j < ?r" "unat ?o = unat ?do + j" using a by (auto simp: j_def)
        have "unat (?do + of_nat j) = unat ?do + j"
          by (rule unat_add_of_nat) (use db L j(1) in simp)
        then have "?o = ?do + of_nat j" using j(2) by (simp add: word_unat_eq_iff)
        then have e: "src + of_nat (?r + i) = dst + of_nat j" by (simp add: algebra_simps)
        have "?r + i < n" "j < n" using i j(1) r(2) by linarith+
        from less.prems(5) [OF this] e show False by blast
      qed
      moreover have "unat ?o < unat (phys_len (dev_heap vm p))" using o i sb r(2) by linarith
      ultimately have "guest_byte ?vm2 p ?o = guest_byte vm p ?o" by (intro stored_same [OF st])
      then show ?thesis by (simp only: of_nat_add add.assoc)
    qed
    have cs: "map (\<lambda>i. guest_byte ?vm2 p (?so + of_nat ?r + of_nat i)) [0..<n - ?r] = ?cs"
      by (rule map_cong [OF refl]) (rule unch, simp only: atLeastLessThan_iff set_upt)
    have IH2: "stored p (?do + of_nat ?r) ?cs ?vm2 vm3"
      using IH(2) unfolding cs .
    have "stored p ?do (?bs @ ?cs) vm vm3"
    proof (rule stored_append [OF st])
      show "stored p (?do + of_nat (length ?bs)) ?cs ?vm2 vm3" using IH2 by simp
      show "unat ?do + length ?bs < 2 ^ 64" using db r(2) L by simp
    qed
    moreover have "?bs @ ?cs = map (\<lambda>i. guest_byte vm p (?so + of_nat i)) [0..<n]"
      by (subst upt_split [OF r(2)]) (simp add: comp_def add.assoc del: min_less_iff_conj)
    moreover have "physmem_dma_transfer H src dst n vm = Inr vm3"
      by (subst physmem_dma_transfer.simps)
         (use False h nz IH(1) in \<open>simp add: hptr_read [OF less.prems(1) lk] Let_def rd del: min_less_iff_conj\<close>)
    ultimately show ?thesis by auto
  qed
qed

section \<open>Properties of physical memory\<close>

lemma stored_at:
  assumes st: "stored p (a - phys_addr (dev_heap vm p)) bs vm vm1"
    and ia: "in_device vm p a (length bs)" and lb: "length bs \<le> 2 ^ 32"
    and ib: "in_device vm p b m" "m \<le> 2 ^ 32" "i < m"
  shows "guest_byte vm1 p (b - phys_addr (dev_heap vm p) + of_nat i) =
    (if unat (b + of_nat i - a) < length bs then bs ! unat (b + of_nat i - a)
     else guest_byte vm p (b - phys_addr (dev_heap vm p) + of_nat i))"
proof -
  let ?P = "phys_addr (dev_heap vm p)"
  let ?o = "b - ?P + of_nat i"
  have L: "unat (phys_len (dev_heap vm p)) < 2 ^ 32"
    using unsigned_less [of "phys_len (dev_heap vm p)", where 'a = nat] by simp
  have bo: "unat (b - ?P) + m \<le> unat (phys_len (dev_heap vm p))"
    using in_device_offsets [OF ib(1) _ ib(2)] ib(3) by simp
  have uo: "unat ?o = unat (b - ?P) + i" by (rule unat_add_of_nat) (use bo ib(3) L in simp)
  have lo: "unat ?o < unat (phys_len (dev_heap vm p))" using uo bo ib(3) by simp
  show ?thesis
  proof (cases "bs = []")
    case True
    then show ?thesis using stored_same [OF st lo] by simp
  next
    case False
    then have ao: "unat (a - ?P) + length bs \<le> unat (phys_len (dev_heap vm p))"
      using in_device_offsets [OF ia _ lb] by simp
    show ?thesis
    proof (cases "unat (b + of_nat i - a) < length bs")
      case True
      let ?j = "unat (b + of_nat i - a)"
      have "unat (a - ?P + of_nat ?j) = unat (a - ?P) + ?j"
        by (rule unat_add_of_nat) (use ao True L in simp)
      moreover have "a - ?P + of_nat ?j = ?o" by simp
      ultimately have "unat ?o = unat (a - ?P) + ?j" by metis
      then show ?thesis using stored_new [OF st lo _ True] True by simp
    next
      case F: False
      have "\<not> (unat (a - ?P) \<le> unat ?o \<and> unat ?o < unat (a - ?P) + length bs)"
      proof
        assume r: "unat (a - ?P) \<le> unat ?o \<and> unat ?o < unat (a - ?P) + length bs"
        then have "unat (?o - (a - ?P)) = unat ?o - unat (a - ?P)"
          by (subst unat_sub) (simp_all add: word_le_nat_alt)
        moreover have "?o - (a - ?P) = b + of_nat i - a" by simp
        ultimately have "unat (b + of_nat i - a) = unat ?o - unat (a - ?P)" by metis
        then show False using r F by arith
      qed
      then show ?thesis using stored_same [OF st lo] F by simp
    qed
  qed
qed

lemma in_device_stored: "stored p off bs vm vm1 \<Longrightarrow> in_device vm1 p a n = in_device vm p a n"
  by (rule in_device_cong) (auto simp: stored_def)

text \<open>C29: The memory of a RAM device, in one block or a copy-on-write view of a shared image, is
  a byte array under block copies: a block stored by \<open>physmem_copy_to_vm\<close> is read back by
  \<open>physmem_copy_from_vm\<close>, in whole or in part, and every other byte reads as before, also
  where a block spans pages of which some are still shared.\<close>

theorem physmem_byte_array:
  assumes "mem_ok vm p" "in_device vm p a (length buf)" "in_device vm p b m"
    and "length buf \<le> 2 ^ 32" "m \<le> 2 ^ 32"
  shows "\<exists>old vm1.
    physmem_copy_from_vm H dst b m vm = Inr (old, vm) \<and> length old = m \<and>
    physmem_copy_to_vm H buf a (length buf) vm = Inr vm1 \<and>
    physmem_copy_from_vm H dst b m vm1 =
      Inr (map (\<lambda>i. if unat (b + of_nat i - a) < length buf then buf ! unat (b + of_nat i - a)
                    else old ! i) [0..<m], vm1)"
proof -
  obtain vm1 where w: "physmem_copy_to_vm H buf a (length buf) vm = Inr vm1"
    "stored p (a - phys_addr (dev_heap vm p)) buf vm vm1"
    using copy_to_memory [OF assms(1,2,4), of buf] by auto
  have 1: "mem_ok vm1 p" "dev_heap vm1 = dev_heap vm" using w(2) by (simp_all add: stored_def)
  have "physmem_copy_from_vm H dst b m vm1 =
      Inr (map (\<lambda>i. guest_byte vm1 p (b - phys_addr (dev_heap vm p) + of_nat i)) [0..<m], vm1)"
    using copy_from_memory [OF 1(1) _ assms(5)] assms(3) in_device_stored [OF w(2)] 1(2) by simp
  then show ?thesis
    using copy_from_memory [OF assms(1,3,5)] w(1) stored_at [OF w(2) assms(2,4,3,5)]
    by (auto intro!: exI)
qed

text \<open>C30: A DMA transfer between two disjoint ranges of a memory device moves the bytes of the
  source, as they were, to the destination, and leaves the rest of the device as it was.\<close>

theorem dma_moves_bytes:
  assumes "mem_ok vm p" "in_device vm p src n" "in_device vm p dst n" "n \<le> 2 ^ 32"
    and "\<And>i j. i < n \<Longrightarrow> j < n \<Longrightarrow> src + of_nat i \<noteq> dst + of_nat j"
    and "in_device vm p b m" "m \<le> 2 ^ 32"
  shows "\<exists>bs old vm1.
    physmem_copy_from_vm H buf src n vm = Inr (bs, vm) \<and>
    physmem_copy_from_vm H buf b m vm = Inr (old, vm) \<and>
    physmem_dma_transfer H src dst n vm = Inr vm1 \<and>
    physmem_copy_from_vm H buf b m vm1 =
      Inr (map (\<lambda>i. if unat (b + of_nat i - dst) < n then bs ! unat (b + of_nat i - dst)
                    else old ! i) [0..<m], vm1)"
proof -
  let ?bs = "map (\<lambda>i. guest_byte vm p (src - phys_addr (dev_heap vm p) + of_nat i)) [0..<n]"
  obtain vm1 where w: "physmem_dma_transfer H src dst n vm = Inr vm1"
    "stored p (dst - phys_addr (dev_heap vm p)) ?bs vm vm1"
    using dma_memory [OF assms(1-5)] by auto
  have 1: "mem_ok vm1 p" "dev_heap vm1 = dev_heap vm" using w(2) by (simp_all add: stored_def)
  have "physmem_copy_from_vm H buf b m vm1 =
      Inr (map (\<lambda>i. guest_byte vm1 p (b - phys_addr (dev_heap vm p) + of_nat i)) [0..<m], vm1)"
    using copy_from_memory [OF 1(1) _ assms(7)] assms(6) in_device_stored [OF w(2)] 1(2) by simp
  then show ?thesis
    using copy_from_memory [OF assms(1,2,4)] copy_from_memory [OF assms(1,6,7)] w(1)
      stored_at [OF w(2) _ _ assms(6,7)] assms(3,4)
    by (auto intro!: exI)
qed


subsection \<open>Words and the byte-swapping device\<close>

lemma read_words:
  assumes ok: "mem_ok vm p" and d: "in_device vm p a n" and n: "0 < n" "n \<le> page_rest a"
  defines "off \<equiv> a - phys_addr (dev_heap vm p)"
  shows "n = 4 \<Longrightarrow> physmem_copy_u32_from_vm H a vm =
      Inr (m_ntoh32 (map (\<lambda>i. guest_byte vm p (off + of_nat i)) [0..<4]) 0, vm)"
    and "n = 2 \<Longrightarrow> physmem_copy_u16_from_vm H a vm =
      Inr (m_ntoh16 (map (\<lambda>i. guest_byte vm p (off + of_nat i)) [0..<2]) 0, vm)"
    and "n = 1 \<Longrightarrow> physmem_copy_u8_from_vm H a vm = Inr (guest_byte vm p off, vm)"
proof -
  have lk: "dev_lookup a False vm = Some p" using d n(1) by (auto simp: in_device_def dest: spec [of _ 0])
  have "page_rest a \<le> 4096" by (simp add: page_rest_def VM_PAGE_SIZE_def)
  then have b: "unat off + n \<le> unat (phys_len (dev_heap vm p))"
    using in_device_offsets [OF d n(1)] n(2) by (simp add: off_def)
  have nz: "guest_loc vm p off \<noteq> 0" by (rule guest_loc_nonzero [OF ok]) (use b n(1) in linarith)
  have rd: "host_read (guest_loc vm p off) n vm = map (\<lambda>i. guest_byte vm p (off + of_nat i)) [0..<n]"
    unfolding off_def by (rule read_in_page [OF ok b [unfolded off_def] n(2)])
  note h = hptr_read [OF ok lk, folded off_def]
  show "n = 4 \<Longrightarrow> physmem_copy_u32_from_vm H a vm =
      Inr (m_ntoh32 (map (\<lambda>i. guest_byte vm p (off + of_nat i)) [0..<4]) 0, vm)"
    using rd by (simp add: physmem_copy_u32_from_vm_def h nz)
  show "n = 2 \<Longrightarrow> physmem_copy_u16_from_vm H a vm =
      Inr (m_ntoh16 (map (\<lambda>i. guest_byte vm p (off + of_nat i)) [0..<2]) 0, vm)"
    using rd by (simp add: physmem_copy_u16_from_vm_def h nz)
  show "n = 1 \<Longrightarrow> physmem_copy_u8_from_vm H a vm = Inr (guest_byte vm p off, vm)"
    by (simp add: physmem_copy_u8_from_vm_def h nz guest_byte_def)
qed

text \<open>The device answers accesses of every size from one byte-reversed image of the memory: a
  word at an aligned address consists of its two halves, in order, and of its four bytes.\<close>

lemma and_ff: "(x :: 'a::len word) AND 0xff = take_bit 8 x"
  by (simp add: take_bit_eq_mask mask_eq_exp_minus_1)

lemma bit_swap32 [word_bits]:
  "bit (swap32 v) n \<longleftrightarrow>
     (if n < 8 then bit v (24 + n) else if n < 16 then bit v (8 + n)
      else if n < 24 then bit v (n - 8) else n < 32 \<and> bit v (n - 24))"
  unfolding swap32_def and_ff
  by (auto simp: bit_or_iff bit_push_bit_iff bit_drop_bit_eq bit_take_bit_iff dest: bit_imp_le_length)

lemma bit_swap16 [word_bits]:
  "bit (swap16 v) n \<longleftrightarrow> (if n < 8 then bit v (8 + n) else n < 16 \<and> bit v (n - 8))"
  unfolding swap16_def and_ff
  by (auto simp: bit_or_iff bit_push_bit_iff bit_drop_bit_eq bit_take_bit_iff dest: bit_imp_le_length)

lemma swap_ntoh:
  "swap32 (m_ntoh32 [b0, b1, b2, b3] 0) = m_ntoh32 [b3, b2, b1, b0] 0"
  "swap16 (m_ntoh16 [b0, b1] 0) = m_ntoh16 [b1, b0] 0"
  by (rule bit_word_eqI; auto simp: word_bits)+

lemma bit_small_numeral:
  "bit (1 :: u64) n \<longleftrightarrow> n = 0" "bit (2 :: u64) n \<longleftrightarrow> n = 1" "bit (3 :: u64) n \<longleftrightarrow> n < 2"
proof -
  have "bit (2 ^ 1 :: u64) n \<longleftrightarrow> n = 1" "bit (mask 2 :: u64) n \<longleftrightarrow> n < 2"
    by (auto simp only: bit_exp_iff bit_mask_iff) simp_all
  then show "bit (1 :: u64) n \<longleftrightarrow> n = 0" "bit (2 :: u64) n \<longleftrightarrow> n = 1" "bit (3 :: u64) n \<longleftrightarrow> n < 2"
    by (simp_all add: bit_1_iff mask_eq_exp_minus_1)
qed

lemma word_aligned_add:
  assumes "(a :: u64) AND 3 = 0"
  shows "a XOR 3 = a + 3" "(a + 1) XOR 3 = a + 2" "(a + 2) XOR 3 = a + 1" "(a + 3) XOR 3 = a"
    "a XOR 2 = a + 2" "(a + 2) XOR 2 = a"
proof -
  have z: "\<not> bit a 0" "\<not> bit a 1"
    using assms bit_and_iff [of a 3 0] bit_and_iff [of a 3 1] by (simp_all add: bit_small_numeral)
  have e: "a + k = a OR k" if "\<And>n. bit k n \<Longrightarrow> n < 2" for k
    by (rule disjunctive_add) (use that z in \<open>metis less_2_cases One_nat_def\<close>)
  have ad: "a + 1 = a OR 1" "a + 2 = a OR 2" "a + 3 = a OR 3"
    by (rule e; auto simp only: bit_small_numeral)+
  have c: "n < 2 \<longleftrightarrow> n = 0 \<or> n = 1" for n :: nat by linarith
  show "a XOR 3 = a + 3" "(a + 1) XOR 3 = a + 2" "(a + 2) XOR 3 = a + 1" "(a + 3) XOR 3 = a"
    "a XOR 2 = a + 2" "(a + 2) XOR 2 = a"
    unfolding ad
    by (rule bit_word_eqI; unfold bit_xor_iff bit_or_iff bit_small_numeral c; use z in \<open>auto intro!: gr0I\<close>)+
qed

lemma dvd4_bound: "(x :: nat) mod 4 = 0 \<Longrightarrow> x < 4096 \<Longrightarrow> x \<le> 4092"
  by presburger

lemma page_rest_word:
  assumes "a AND 3 = 0"
  shows "4 \<le> page_rest a" "2 \<le> page_rest (a + 2)"
proof -
  have "unat (a AND VM_PAGE_IMASK) mod 4 = 0"
  proof -
    have "unat (a AND 3) = unat a mod 4"
      by (simp add: take_bit_eq_mask [of 2 a, symmetric, unfolded mask_eq_exp_minus_1, simplified]
          take_bit_eq_mod unat_mod_distrib)
    moreover have "unat (a AND 3) = 0" using assms by simp
    ultimately show ?thesis by (simp add: div_page(2) mod_mod_cancel)
  qed
  then have m: "unat a mod 4096 \<le> 4092"
    using imask_less [of a] unfolding div_page(2) by (intro dvd4_bound)
  then show "4 \<le> page_rest a" by (simp add: page_rest_def VM_PAGE_SIZE_def div_page(2))
  have "unat (a + 2) mod 4096 \<le> 4094"
  proof -
    have "unat (a + 2) mod 4096 = (unat a + 2) mod 4096"
      by (simp add: unat_word_ariths mod_mod_cancel)
    then show ?thesis using m mod_add_small [of "unat a" 4096 2] by simp
  qed
  then show "2 \<le> page_rest (a + 2)" by (simp add: page_rest_def VM_PAGE_SIZE_def div_page(2))
qed

lemma read_word_parts:
  assumes ok: "mem_ok vm p" and d: "in_device vm p a 4" and al: "a AND 3 = 0"
  defines "g \<equiv> \<lambda>k. guest_byte vm p (a - phys_addr (dev_heap vm p) + k)"
  shows "physmem_copy_u32_from_vm H a vm = Inr (m_ntoh32 [g 0, g 1, g 2, g 3] 0, vm)"
    "physmem_copy_u16_from_vm H a vm = Inr (m_ntoh16 [g 0, g 1] 0, vm)"
    "physmem_copy_u16_from_vm H (a + 2) vm = Inr (m_ntoh16 [g 2, g 3] 0, vm)"
    "physmem_copy_u8_from_vm H a vm = Inr (g 0, vm)" "physmem_copy_u8_from_vm H (a + 1) vm = Inr (g 1, vm)"
    "physmem_copy_u8_from_vm H (a + 2) vm = Inr (g 2, vm)" "physmem_copy_u8_from_vm H (a + 3) vm = Inr (g 3, vm)"
proof -
  let ?P = "phys_addr (dev_heap vm p)"
  have sub: "in_device vm p (a + of_nat k) n" if "k + n \<le> 4" for k n
    by (rule in_device_mono [OF in_device_drop [OF d]]) (use that in simp_all)
  have s: "in_device vm p a 2" "in_device vm p (a + 2) 2" "in_device vm p a 1" "in_device vm p (a + 1) 1"
    "in_device vm p (a + 2) 1" "in_device vm p (a + 3) 1"
    using sub [of 0 2] sub [of 2 2] sub [of 0 1] sub [of 1 1] sub [of 2 1] sub [of 3 1] by simp_all
  have pos: "1 \<le> page_rest y" for y using page_rest_pos [of y] by linarith
  have up: "[0..<4] = [0, 1, 2, 3 :: nat]" "[0..<2] = [0, 1 :: nat]" by (simp_all add: upt_rec)
  have P: "a + k - ?P = a - ?P + k" for k by simp
  have 2: "2 \<le> page_rest a" using page_rest_word(1) [OF al] by simp
  show "physmem_copy_u32_from_vm H a vm = Inr (m_ntoh32 [g 0, g 1, g 2, g 3] 0, vm)"
    using read_words(1) [OF ok d _ page_rest_word(1) [OF al] refl] unfolding up g_def by simp
  show "physmem_copy_u16_from_vm H a vm = Inr (m_ntoh16 [g 0, g 1] 0, vm)"
    using read_words(2) [OF ok s(1) _ 2 refl] unfolding up g_def by simp
  show "physmem_copy_u16_from_vm H (a + 2) vm = Inr (m_ntoh16 [g 2, g 3] 0, vm)"
    using read_words(2) [OF ok s(2) _ page_rest_word(2) [OF al] refl]
    unfolding up g_def P by (simp add: add.assoc del: add_diff_eq)
  show "physmem_copy_u8_from_vm H a vm = Inr (g 0, vm)"
    using read_words(3) [OF ok s(3) _ pos refl] unfolding g_def by simp
  show "physmem_copy_u8_from_vm H (a + 1) vm = Inr (g 1, vm)"
    "physmem_copy_u8_from_vm H (a + 2) vm = Inr (g 2, vm)" "physmem_copy_u8_from_vm H (a + 3) vm = Inr (g 3, vm)"
    using read_words(3) [OF ok s(4) _ pos refl] read_words(3) [OF ok s(5) _ pos refl]
      read_words(3) [OF ok s(6) _ pos refl] unfolding g_def P by simp_all
qed

text \<open>A 32-bit word of a memory device, read through a byte-swapping device that rewrites to it, is the word
  with its bytes reversed; its halves and its bytes read through the device are the halves and
  the bytes of that reversed word, in order.\<close>

theorem bswap_reads_reversed:
  assumes ok: "mem_ok vm p" and d: "in_device vm p (base + ucast off) 4"
    and al: "(base + ucast off) AND 3 = 0" and wrap: "unat (off :: u32) + 3 < 2 ^ 32"
  shows "\<exists>b0 b1 b2 b3.
    physmem_copy_u32_from_vm H (base + ucast off) vm = Inr (m_ntoh32 [b0, b1, b2, b3] 0, vm) \<and>
    dev_bswap_access H base q off 4 MTS_READ x vm = Inr ((0, ucast (m_ntoh32 [b3, b2, b1, b0] 0)), vm) \<and>
    dev_bswap_access H base q off 2 MTS_READ x vm = Inr ((0, ucast (m_ntoh16 [b3, b2] 0)), vm) \<and>
    dev_bswap_access H base q (off + 2) 2 MTS_READ x vm = Inr ((0, ucast (m_ntoh16 [b1, b0] 0)), vm) \<and>
    dev_bswap_access H base q off 1 MTS_READ x vm = Inr ((0, ucast b3), vm) \<and>
    dev_bswap_access H base q (off + 1) 1 MTS_READ x vm = Inr ((0, ucast b2), vm) \<and>
    dev_bswap_access H base q (off + 2) 1 MTS_READ x vm = Inr ((0, ucast b1), vm) \<and>
    dev_bswap_access H base q (off + 3) 1 MTS_READ x vm = Inr ((0, ucast b0), vm)"
proof -
  let ?a = "base + ucast off"
  let ?g = "\<lambda>k. guest_byte vm p (?a - phys_addr (dev_heap vm p) + k)"
  have oc: "ucast (off + of_nat k) = (ucast off + of_nat k :: u64)" if "k < 4" for k
  proof -
    have "unat (off + of_nat k) = unat off + k"
      using wrap that by (simp add: unat_word_ariths unsigned_of_nat take_bit_nat_eq_self)
    moreover have "unat (ucast off + of_nat k :: u64) = unat off + k"
      using wrap that by (subst unat_add_of_nat) simp_all
    ultimately show ?thesis by (simp add: word_unat_eq_iff)
  qed
  have ad: "base + ucast (off + 1) = ?a + 1" "base + ucast (off + 2) = ?a + 2" "base + ucast (off + 3) = ?a + 3"
    using oc [of 1] oc [of 2] oc [of 3] by (simp_all add: add.assoc)
  note r = read_word_parts [OF ok d al]
  note x = word_aligned_add [OF al]
  show ?thesis
    by (intro exI [of _ "?g 0"] exI [of _ "?g 1"] exI [of _ "?g 2"] exI [of _ "?g 3"])
       (simp add: dev_bswap_access_def Let_def ad x r swap_ntoh)
qed

text \<open>A rest of three bytes from a device is skipped: the buffer keeps what was in it.\<close>

lemma copy_three_bytes_from_device:
  assumes "dev_lookup a False vm = Some p"
    and "\<not> has_flag (dev_heap vm p) VDEVICE_FLAG_SPARSE" "host_addr (dev_heap vm p) = 0"
  shows "physmem_copy_from_vm H buf a 3 vm = Inr (take 3 buf, vm)"
proof -
  have g: "physmem_get_hptr H a 0 op d vm = Inr ((0, d), vm)" for op d
    using assms by (simp add: physmem_get_hptr_def Let_def)
  show ?thesis
    by (subst physmem_copy_from_vm.simps) (simp add: g Let_def copy_in_device_def physmem_copy_from_vm.simps)
qed

text \<open>\<open>physmem_strnlen\<close> reads a ghost device in the shared image, whatever has been written.\<close>

lemma strnlen_reads_image:
  assumes g: "ghost_ok vm p" and lk: "dev_lookup a True vm = Some p"
    and st: "stored p off bs vm vm1"
    and img: "\<And>i. i < min n (unat (phys_len (dev_heap vm p))) \<Longrightarrow>
      in_image vm p (host_addr (dev_heap vm p) + (a - phys_addr (dev_heap vm p)) + of_nat i)"
  shows "physmem_strnlen a n vm1 = physmem_strnlen a n vm"
proof -
  have same: "dev_heap vm1 = dev_heap vm" "dev_list vm1 = dev_list vm"
    "\<And>x. in_image vm p x \<Longrightarrow> host_mem vm1 x = host_mem vm x"
    using st g by (simp_all add: stored_def)
  have lk1: "dev_lookup a True vm1 = Some p" using lk same by (simp add: dev_lookup_def)
  let ?n = "min n (unat (ucast (phys_len (dev_heap vm p)) - (a - phys_addr (dev_heap vm p)) :: u64))"
  have n: "?n \<le> min n (unat (phys_len (dev_heap vm p)))"
  proof -
    have "a - phys_addr (dev_heap vm p) \<le> ucast (phys_len (dev_heap vm p))"
      using dev_lookup_covers [OF lk] by (simp add: word_le_nat_alt)
    then show ?thesis by (simp add: unat_sub)
  qed
  have "host_read (host_addr (dev_heap vm p) + (a - phys_addr (dev_heap vm p))) ?n vm1 =
      host_read (host_addr (dev_heap vm p) + (a - phys_addr (dev_heap vm p))) ?n vm"
    by (rule nth_equalityI) (use n same(3) img in \<open>auto simp: algebra_simps\<close>)
  then show ?thesis by (simp add: physmem_strnlen_def lk lk1 same(1) Let_def)
qed

section \<open>A machine with ghost RAM\<close>

text \<open>A machine without devices, with the pages the host allocator will give it.\<close>

definition blank_vm :: "vm_chunk list \<Rightarrow> unit vm_instance" where
  "blank_vm cs = \<lparr>dev_heap = (\<lambda>_. dev_init), dev_list = [], dev_array = replicate VM_DEVICE_MAX None,
     sparse_heap = (\<lambda>_. []), host_mem = (\<lambda>a. ucast a), chunks = cs, host_areas = [],
     status = VM_STATUS_RUNNING, cpu_states = [], prev_states = [], dev_state = ()\<rparr>"

definition ghost_vm :: "unit vm_instance" where
  "ghost_vm = snd (dev_create_ghost_ram 1 7 ''ram'' True (Some (0x10000, 5)) 0 0x2000
     (blank_vm [\<lparr>chunk_area = 0x20000, page_alloc = 0, page_total = 2\<rparr>]))"

lemma normalize_2000: "unat (normalize_size 0x2000 (of_nat VM_PAGE_SIZE) VM_PAGE_SHIFT) = 2"
  by (simp add: normalize_size_def VM_PAGE_SIZE_def VM_PAGE_SHIFT_def)

lemma ghost_vm_simps:
  "dev_heap ghost_vm 1 = \<lparr>dev_name = ''ram'', dev_id = 0, phys_addr = 0, phys_len = 0x2000, host_addr = 0x10000,
     dev_flags = 0x32, dev_fd = 5, dev_handler = None, sparse_map = Some 7\<rparr>"
  "dev_list ghost_vm = [1]" "sparse_heap ghost_vm 7 = [0x10000, 0x11000]"
  "chunks ghost_vm = [\<lparr>chunk_area = 0x20000, page_alloc = 0, page_total = 2\<rparr>]" "host_areas ghost_vm = []"
  by code_simp+

lemma ghost_vm_pages:
  "sparse_pages ghost_vm 1 = [0x10000, 0x11000]" "image_pages ghost_vm 1 = [0x10000, 0x11000]"
  "next_pages ghost_vm = [0x20000, 0x21000]" "chunks_ok ghost_vm"
proof -
  have u: "[0..<2] = [0, 1 :: nat]" by (simp add: upt_rec)
  show sp: "sparse_pages ghost_vm 1 = [0x10000, 0x11000]" by (simp add: sparse_pages_def ghost_vm_simps del: One_nat_def)
  show "image_pages ghost_vm 1 = [0x10000, 0x11000]"
    unfolding image_pages_def sp pages_of_def by (simp add: ghost_vm_simps u VM_PAGE_SIZE_def del: One_nat_def)
  show "next_pages ghost_vm = [0x20000, 0x21000]" "chunks_ok ghost_vm"
    by (simp_all add: next_pages_def chunks_ok_def ghost_vm_simps pages_of_def u VM_PAGE_SIZE_def)
qed

lemma ghost_vm_ok: "ghost_ok ghost_vm 1"
proof -
  have k: "(\<forall>k < length [0x10000, 0x11000 :: u64]. P k) \<longleftrightarrow> P 0 \<and> P 1" for P
    by (simp add: All_less_Suc2)
  show ?thesis
    unfolding ghost_ok_def Let_def ghost_vm_pages k
    by (simp add: ghost_vm_simps ghost_vm_pages(4) dev_flags_defs aligned_def VM_PAGE_IMASK_def VM_PAGE_MASK_def
        VDEVICE_PTE_DIRTY_def del: One_nat_def)
qed

lemma ghost_vm_covers: "unat a < 0x2000 \<Longrightarrow> dev_lookup a False ghost_vm = Some 1"
  by (simp add: dev_lookup_def dev_covers_def ghost_vm_simps word_less_nat_alt del: One_nat_def)

lemma ghost_vm_in_device: "unat a + n \<le> 0x2000 \<Longrightarrow> in_device ghost_vm 1 a n"
  unfolding in_device_def
  by (auto intro!: ghost_vm_covers simp: unat_add_of_nat simp del: One_nat_def)

text \<open>A block across the two pages, one of them read again in part.\<close>

theorem physmem_byte_array_witness:
  "\<exists>old vm1.
    physmem_copy_from_vm (\<lambda>_ _ _ _ _ d vm. Inr ((0, d), vm)) [] 0xfff 2 ghost_vm = Inr (old, ghost_vm) \<and>
    physmem_copy_to_vm (\<lambda>_ _ _ _ _ d vm. Inr ((0, d), vm)) [1, 2, 3, 4] 0xffe 4 ghost_vm = Inr vm1 \<and>
    physmem_copy_from_vm (\<lambda>_ _ _ _ _ d vm. Inr ((0, d), vm)) [] 0xfff 2 vm1 = Inr ([2, 3], vm1)"
proof -
  have u: "[0..<2] = [0, 1 :: nat]" by (simp add: upt_rec)
  have l: "length [1, 2, 3, 4 :: u8] = 4" by simp
  have ok: "mem_ok ghost_vm 1" using ghost_vm_ok by (simp add: mem_ok_def del: One_nat_def)
  show ?thesis
    using physmem_byte_array [OF ok ghost_vm_in_device ghost_vm_in_device,
        where a = "0xffe" and buf = "[1, 2, 3, 4]" and b = "0xfff" and m = 2
          and H = "\<lambda>_ _ _ _ _ d vm. Inr ((0, d), vm)" and dst = "[]", unfolded l]
    by (auto simp: u)
qed

theorem dma_moves_bytes_witness:
  "\<exists>bs old vm1.
    physmem_copy_from_vm (\<lambda>_ _ _ _ _ d vm. Inr ((0, d), vm)) [] 0xffe 4 ghost_vm = Inr (bs, ghost_vm) \<and>
    physmem_copy_from_vm (\<lambda>_ _ _ _ _ d vm. Inr ((0, d), vm)) [] 0x100 2 ghost_vm = Inr (old, ghost_vm) \<and>
    physmem_dma_transfer (\<lambda>_ _ _ _ _ d vm. Inr ((0, d), vm)) 0xffe 0x100 4 ghost_vm = Inr vm1 \<and>
    physmem_copy_from_vm (\<lambda>_ _ _ _ _ d vm. Inr ((0, d), vm)) [] 0x100 2 vm1 = Inr ([bs ! 0, bs ! 1], vm1)"
proof -
  have u: "[0..<2] = [0, 1 :: nat]" by (simp add: upt_rec)
  have ok: "mem_ok ghost_vm 1" using ghost_vm_ok by (simp add: mem_ok_def del: One_nat_def)
  have ne: "(0xffe :: u64) + of_nat i \<noteq> 0x100 + of_nat j" if "i < 4" "j < 4" for i j
  proof
    assume "(0xffe :: u64) + of_nat i = 0x100 + of_nat j"
    then have "unat ((0xffe :: u64) + of_nat i) = unat ((0x100 :: u64) + of_nat j)" by (rule arg_cong)
    then show False using that unat_add_of_nat [of "0xffe" i] unat_add_of_nat [of "0x100" j] by simp
  qed
  show ?thesis
    using dma_moves_bytes [OF ok ghost_vm_in_device ghost_vm_in_device _ ne ghost_vm_in_device,
        where b = "0x100" and m = 2 and n = 4
          and H = "\<lambda>_ _ _ _ _ d vm. Inr ((0, d), vm)" and buf = "[]"]
    by (auto simp: u simp del: One_nat_def)
qed


end
