(* ===== verification/Guest_Mem.thy ===== *)
theory Guest_Mem
  imports Phys_Mem Sbox
begin

text \<open>
  What the two emulated processors share: how a C function that runs guest code ends, how an access
  to guest memory ends, the flags of the translation caches (\<open>stable/memory.h\<close>), and the
  big-endian values of guest memory (\<open>vmtoh16\<close>, \<open>htovm16\<close> and the like).
\<close>

section \<open>Outcomes\<close>

text \<open>
  The outcome of a C function that runs guest code: it returns (a \<open>void\<close> function
  returns 0) or leaves by \<open>cpu_exec_loop_enter\<close>, the \<open>longjmp\<close> of a guest
  exception.
\<close>

datatype 'c flow = Ret (ret_val: int) (state_of: 'c) | Exec_Loop (state_of: 'c)

definition then_do :: "'c flow outcome \<Rightarrow> ('c \<Rightarrow> 'c flow outcome) \<Rightarrow> 'c flow outcome" where
  "then_do r f = (case r of
      Inl e \<Rightarrow> Inl e
    | Inr (Exec_Loop c) \<Rightarrow> Inr (Exec_Loop c)
    | Inr (Ret v c) \<Rightarrow> f c)"

lemma then_do_simps [simp]:
  "then_do (Inl e) f = Inl e"
  "then_do (Inr (Exec_Loop c)) f = Inr (Exec_Loop c)"
  "then_do (Inr (Ret v c)) f = f c"
  by (simp_all add: then_do_def)

lemma then_do_Ret_iff:
  "then_do r f = Inr (Ret v c) \<longleftrightarrow> (\<exists>v' c'. r = Inr (Ret v' c') \<and> f c' = Inr (Ret v c))"
  by (auto simp: then_do_def split: sum.splits flow.splits)

abbreviation ret0 :: "'c \<Rightarrow> 'c flow outcome" where "ret0 c \<equiv> Inr (Ret 0 c)"
abbreviation ret1 :: "'c \<Rightarrow> 'c flow outcome" where "ret1 c \<equiv> Inr (Ret 1 c)"

text \<open>
  What an access does: it returns a host pointer (or \<open>NULL\<close>) with the data, or raises a guest
  exception and leaves by \<open>longjmp\<close>.
\<close>

datatype 'c access = Access (acc_ptr: u64) (acc_data: u64) (acc_cpu: 'c) | Trap (acc_cpu: 'c)

section \<open>The translation caches (memory.h)\<close>

definition MTS_ACC_AE :: u32 where "MTS_ACC_AE = 0x00000002"
definition MTS_ACC_T :: u32 where "MTS_ACC_T = 0x00000004"
definition MTS_ACC_U :: u32 where "MTS_ACC_U = 0x00000006"
definition MTS_FLAG_DEV :: u32 where "MTS_FLAG_DEV = 1"
definition MTS_FLAG_COW :: u32 where "MTS_FLAG_COW = 2"
definition MTS_FLAG_EXEC :: u32 where "MTS_FLAG_EXEC = 4"

section \<open>Values in memory\<close>

definition vmtoh :: "nat \<Rightarrow> bytes \<Rightarrow> u64" where
  "vmtoh sz bs = (if sz = 1 then ucast (bs ! 0) else if sz = 2 then ucast (m_ntoh16 bs 0)
     else if sz = 4 then ucast (m_ntoh32 bs 0) else m_ntoh64 bs 0)"

definition htovm :: "nat \<Rightarrow> u64 \<Rightarrow> bytes" where
  "htovm sz data = (if sz = 1 then [ucast data] else if sz = 2 then hton16_bytes (ucast data)
     else if sz = 4 then hton32_bytes (ucast data) else hton64_bytes data)"

lemma bit_m_ntoh32_div: "bit (m_ntoh32 bs i) n \<longleftrightarrow> n < 32 \<and> bit (bs ! (i + 3 - n div 8)) (n mod 8)"
proof -
  have "n < 8 \<or> 8 \<le> n \<and> n < 16 \<or> 16 \<le> n \<and> n < 24 \<or> 24 \<le> n \<and> n < 32 \<or> 32 \<le> n" by linarith
  then show ?thesis
  proof (elim disjE conjE)
    assume *: "8 \<le> n" "n < 16"
    then have "n div 8 = 1" "n mod 8 = n - 8" by (simp_all add: div_nat_eqI mod_if)
    then show ?thesis using * by (simp add: bit_m_ntoh32)
  next
    assume *: "16 \<le> n" "n < 24"
    then have "n div 8 = 2" "n mod 8 = n - 16" by (simp_all add: div_nat_eqI mod_if)
    then show ?thesis using * by (simp add: bit_m_ntoh32)
  next
    assume *: "24 \<le> n" "n < 32"
    then have "n div 8 = 3" "n mod 8 = n - 24" by (simp_all add: div_nat_eqI mod_if)
    then show ?thesis using * by (simp add: bit_m_ntoh32)
  qed (simp_all add: bit_m_ntoh32)
qed

lemma bit_vmtoh4: "bit (vmtoh 4 bs) n \<longleftrightarrow> n < 32 \<and> bit (bs ! (3 - n div 8)) (n mod 8)"
  by (auto simp: vmtoh_def bit_ucast_iff bit_m_ntoh32_div)

lemma bit_vmtoh8: "bit (vmtoh 8 bs) n \<longleftrightarrow> n < 64 \<and> bit (bs ! (7 - n div 8)) (n mod 8)"
proof (cases "n < 32")
  case True
  then show ?thesis by (simp add: vmtoh_def bit_m_ntoh64 bit_m_ntoh32_div)
next
  case False
  then obtain m where n: "n = 32 + m" using le_Suc_ex not_less by blast
  have "(32 + m) div 8 = 4 + m div 8" "(32 + m) mod 8 = m mod 8" by presburger+
  then show ?thesis by (auto simp: n vmtoh_def bit_m_ntoh64 bit_m_ntoh32_div)
qed

lemma nth_htovm4: "i < 4 \<Longrightarrow> htovm 4 x ! i = ucast (drop_bit (24 - 8 * i) x)"
proof -
  assume "i < 4"
  then have "i = 0 \<or> i = 1 \<or> i = 2 \<or> i = 3" by linarith
  then show ?thesis
    by (elim disjE)
       (auto intro!: bit_word_eqI simp: htovm_def hton32_bytes_def bit_ucast_iff bit_drop_bit_eq numeral_2_eq_2 numeral_3_eq_3)
qed

lemma nth_htovm8: "i < 8 \<Longrightarrow> htovm 8 x ! i = ucast (drop_bit (56 - 8 * i) x)"
proof -
  assume "i < 8"
  then have "i = 0 \<or> i = 1 \<or> i = 2 \<or> i = 3 \<or> i = 4 \<or> i = 5 \<or> i = 6 \<or> i = 7" by linarith
  then show ?thesis
    by (elim disjE) (simp_all add: htovm_def nth_hton64 del: One_nat_def)
qed

lemma length_htovm [simp]:
  "length (htovm 4 x) = 4" "length (htovm 8 x) = 8" "length (htovm 2 x) = 2" "length (htovm 1 x) = 1"
  by (simp_all add: htovm_def buf_simps)

lemma vmtoh_htovm [simp]:
  "vmtoh 1 (htovm 1 x) = take_bit 8 x" "vmtoh 2 (htovm 2 x) = take_bit 16 x"
  "vmtoh 4 (htovm 4 x) = take_bit 32 x" "vmtoh 8 (htovm 8 x) = x"
proof -
  show "vmtoh 1 (htovm 1 x) = take_bit 8 x"
    by (rule bit_word_eqI) (auto simp: vmtoh_def htovm_def bit_ucast_iff bit_take_bit_iff)
  show "vmtoh 2 (htovm 2 x) = take_bit 16 x"
    by (rule bit_word_eqI)
       (auto simp: vmtoh_def htovm_def bit_ucast_iff bit_take_bit_iff bit_m_ntoh16 hton16_bytes_def bit_drop_bit_eq)
  have k: "8 * (n div 8) + n mod 8 = n" for n :: nat by simp
  show "vmtoh 4 (htovm 4 x) = take_bit 32 x"
  proof (rule bit_word_eqI)
    fix n assume "n < LENGTH(64)"
    have "htovm 4 x ! (3 - n div 8) = ucast (drop_bit (8 * (n div 8)) x)" if "n < 32"
    proof -
      have "24 - 8 * (3 - n div 8) = 8 * (n div 8)" using that by presburger
      then show ?thesis using nth_htovm4 [of "3 - n div 8" x] by (simp only:)
    qed
    then show "bit (vmtoh 4 (htovm 4 x)) n = bit (take_bit 32 x) n"
      by (auto simp: bit_vmtoh4 bit_ucast_iff bit_drop_bit_eq bit_take_bit_iff k)
  qed
  show "vmtoh 8 (htovm 8 x) = x"
  proof (rule bit_word_eqI)
    fix n assume "n < LENGTH(64)"
    then have n: "n < 64" by simp
    then have "56 - 8 * (7 - n div 8) = 8 * (n div 8)" by presburger
    then have "htovm 8 x ! (7 - n div 8) = ucast (drop_bit (8 * (n div 8)) x)"
      using nth_htovm8 [of "7 - n div 8" x] by (simp only:)
    then show "bit (vmtoh 8 (htovm 8 x)) n = bit x n"
      using n by (auto simp: bit_vmtoh8 bit_ucast_iff bit_drop_bit_eq k)
  qed
qed

end
