(* ===== verification/Mips64_State.thy ===== *)
theory Mips64_State
  imports Guest_Mem
begin

text \<open>
  The MIPS64 processor of \<open>stable/mips64.h\<close>, \<open>stable/mips64.c\<close> and the
  interrupt lines of \<open>stable/mips64_nojit_trans.c\<close>: the CPU state, reset, the
  interrupt flag, exceptions, \<open>ERET\<close> and the moves to and from CP1.

  The memory system behind the CPU (MTS caches, devices, host pages) is the type
  parameter \<open>'m\<close>; the function pointers of \<open>cpu_mips_t\<close> that reach it
  (\<open>mem_op_fn\<close>, \<open>mem_op_lookup\<close>, \<open>mts_map\<close>, \<open>mts_unmap\<close>) are the record
  \<open>mips_ops\<close>.  A memory access that raises a guest exception ends in
  \<open>longjmp\<close> to the top of the run loop: \<open>Exec_Loop\<close>.
\<close>

section \<open>Registers and constants (mips64.h)\<close>

definition MIPS_GPR_SP :: nat where "MIPS_GPR_SP = 29"
definition MIPS_GPR_RA :: nat where "MIPS_GPR_RA = 31"

definition MIPS_CP0_INDEX :: nat where "MIPS_CP0_INDEX = 0"
definition MIPS_CP0_RANDOM :: nat where "MIPS_CP0_RANDOM = 1"
definition MIPS_CP0_TLB_LO_0 :: nat where "MIPS_CP0_TLB_LO_0 = 2"
definition MIPS_CP0_TLB_LO_1 :: nat where "MIPS_CP0_TLB_LO_1 = 3"
definition MIPS_CP0_PAGEMASK :: nat where "MIPS_CP0_PAGEMASK = 5"
definition MIPS_CP0_WIRED :: nat where "MIPS_CP0_WIRED = 6"
definition MIPS_CP0_INFO :: nat where "MIPS_CP0_INFO = 7"
definition MIPS_CP0_BADVADDR :: nat where "MIPS_CP0_BADVADDR = 8"
definition MIPS_CP0_COUNT :: nat where "MIPS_CP0_COUNT = 9"
definition MIPS_CP0_TLB_HI :: nat where "MIPS_CP0_TLB_HI = 10"
definition MIPS_CP0_COMPARE :: nat where "MIPS_CP0_COMPARE = 11"
definition MIPS_CP0_STATUS :: nat where "MIPS_CP0_STATUS = 12"
definition MIPS_CP0_CAUSE :: nat where "MIPS_CP0_CAUSE = 13"
definition MIPS_CP0_EPC :: nat where "MIPS_CP0_EPC = 14"
definition MIPS_CP0_PRID :: nat where "MIPS_CP0_PRID = 15"
definition MIPS_CP0_CONFIG :: nat where "MIPS_CP0_CONFIG = 16"
definition MIPS_CP0_ERR_EPC :: nat where "MIPS_CP0_ERR_EPC = 30"

lemmas cp0_numbers =
  MIPS_CP0_INDEX_def MIPS_CP0_RANDOM_def MIPS_CP0_TLB_LO_0_def MIPS_CP0_TLB_LO_1_def
  MIPS_CP0_PAGEMASK_def MIPS_CP0_WIRED_def MIPS_CP0_INFO_def MIPS_CP0_BADVADDR_def
  MIPS_CP0_COUNT_def MIPS_CP0_TLB_HI_def MIPS_CP0_COMPARE_def MIPS_CP0_STATUS_def
  MIPS_CP0_CAUSE_def MIPS_CP0_EPC_def MIPS_CP0_PRID_def MIPS_CP0_CONFIG_def
  MIPS_CP0_ERR_EPC_def

text \<open>The exception codes of the CP0 cause register.\<close>

definition MIPS_CP0_CAUSE_INTERRUPT :: u32 where "MIPS_CP0_CAUSE_INTERRUPT = 0"
definition MIPS_CP0_CAUSE_TLB_LOAD :: u32 where "MIPS_CP0_CAUSE_TLB_LOAD = 2"
definition MIPS_CP0_CAUSE_TLB_SAVE :: u32 where "MIPS_CP0_CAUSE_TLB_SAVE = 3"
definition MIPS_CP0_CAUSE_ADDR_LOAD :: u32 where "MIPS_CP0_CAUSE_ADDR_LOAD = 4"
definition MIPS_CP0_CAUSE_ADDR_SAVE :: u32 where "MIPS_CP0_CAUSE_ADDR_SAVE = 5"
definition MIPS_CP0_CAUSE_SYSCALL :: u32 where "MIPS_CP0_CAUSE_SYSCALL = 8"
definition MIPS_CP0_CAUSE_BP :: u32 where "MIPS_CP0_CAUSE_BP = 9"
definition MIPS_CP0_CAUSE_ILLOP :: u32 where "MIPS_CP0_CAUSE_ILLOP = 10"
definition MIPS_CP0_CAUSE_TRAP :: u32 where "MIPS_CP0_CAUSE_TRAP = 13"

text \<open>Fields of the status and cause registers.\<close>

definition MIPS_CP0_STATUS_IE :: u32 where "MIPS_CP0_STATUS_IE = 0x00000001"
definition MIPS_CP0_STATUS_EXL :: u32 where "MIPS_CP0_STATUS_EXL = 0x00000002"
definition MIPS_CP0_STATUS_ERL :: u32 where "MIPS_CP0_STATUS_ERL = 0x00000004"
definition MIPS_CP0_STATUS_BEV :: u32 where "MIPS_CP0_STATUS_BEV = 0x00400000"
definition MIPS_CP0_STATUS_IMASK :: u32 where "MIPS_CP0_STATUS_IMASK = 0x0000FF00"
definition MIPS_CP0_CAUSE_IMASK :: u32 where "MIPS_CP0_CAUSE_IMASK = 0x0000FF00"
definition MIPS_CP0_CAUSE_BD_SLOT :: u32 where "MIPS_CP0_CAUSE_BD_SLOT = 0x80000000"
definition MIPS_CP0_CAUSE_SHIFT :: nat where "MIPS_CP0_CAUSE_SHIFT = 2"
definition MIPS_CP0_CAUSE_ISHIFT :: nat where "MIPS_CP0_CAUSE_ISHIFT = 8"

lemmas cp0_fields =
  MIPS_CP0_STATUS_IE_def MIPS_CP0_STATUS_EXL_def MIPS_CP0_STATUS_ERL_def
  MIPS_CP0_STATUS_BEV_def MIPS_CP0_STATUS_IMASK_def MIPS_CP0_CAUSE_IMASK_def
  MIPS_CP0_CAUSE_BD_SLOT_def MIPS_CP0_CAUSE_SHIFT_def MIPS_CP0_CAUSE_ISHIFT_def

definition MIPS_ROM_PC :: u64 where "MIPS_ROM_PC = 0xffffffffbfc00000"
definition MIPS_ROM_SP :: u64 where "MIPS_ROM_SP = 0xffffffff80004000"

datatype mips_memop =
    MIPS_MEMOP_LOOKUP
  | MIPS_MEMOP_LB | MIPS_MEMOP_LBU | MIPS_MEMOP_LH | MIPS_MEMOP_LHU
  | MIPS_MEMOP_LW | MIPS_MEMOP_LWU | MIPS_MEMOP_LD
  | MIPS_MEMOP_SB | MIPS_MEMOP_SH | MIPS_MEMOP_SW | MIPS_MEMOP_SD
  | MIPS_MEMOP_LWL | MIPS_MEMOP_LWR | MIPS_MEMOP_LDL | MIPS_MEMOP_LDR
  | MIPS_MEMOP_SWL | MIPS_MEMOP_SWR | MIPS_MEMOP_SDL | MIPS_MEMOP_SDR
  | MIPS_MEMOP_LL | MIPS_MEMOP_SC | MIPS_MEMOP_LDC1 | MIPS_MEMOP_SDC1
  | MIPS_MEMOP_CACHE

section \<open>The processor state\<close>

record tlb_entry =
  te_mask :: u64
  te_hi :: u64
  te_lo0 :: u64
  te_lo1 :: u64

record mips_cp0 =
  cp0_reg :: "nat \<Rightarrow> u64"
  cp0_tlb :: "nat \<Rightarrow> tlb_entry"
  tlb_entries :: u32
  ipl_lo :: u32
  ipl_hi :: u32
  int_ctl :: u32
  derraddr0 :: u32
  derraddr1 :: u32

record 'm cpu_mips =
  cp0_virt_cnt_reg :: u32
  cp0_virt_cmp_reg :: u32
  irq_pending :: u32
  irq_cause :: u32
  ll_bit :: u32
  pc :: u64
  gpr :: "nat \<Rightarrow> u64"
  lo :: u64
  hi :: u64
  cp0 :: mips_cp0
  fpu_reg :: "nat \<Rightarrow> u64"
  addr_bus_mask :: u64
  irq_count :: u64
  timer_irq_count :: u64
  irq_fp_count :: u64
  timer_irq_pending :: u32
  timer_irq_check_itv :: u32
  irq_disable :: u32
  idle_pc :: u64
  addr_mode :: u32
  njm_exec_page :: u64
  njm_exec_ptr :: "nat option"      \<comment> \<open>a host page, \<open>None\<close> for \<open>NULL\<close>\<close>
  clock_divisor :: u32              \<comment> \<open>\<open>cpu->vm->clock_divisor\<close>\<close>
  machine :: 'm

type_synonym 'm exec_result = "'m cpu_mips flow outcome"

record 'm mips_ops =
  mem_op_fn :: "mips_memop \<Rightarrow> u64 \<Rightarrow> nat \<Rightarrow> 'm cpu_mips \<Rightarrow> 'm exec_result"
  mem_op_lookup :: "u64 \<Rightarrow> 'm cpu_mips \<Rightarrow> ('m cpu_mips \<times> nat option) outcome"
  host_insn :: "'m \<Rightarrow> nat \<Rightarrow> nat \<Rightarrow> u32"     \<comment> \<open>\<open>vmtoh32(page[offset])\<close>\<close>
  mts_map :: "u64 \<Rightarrow> u64 \<Rightarrow> u32 \<Rightarrow> bool \<Rightarrow> nat \<Rightarrow> 'm \<Rightarrow> 'm"
  mts_unmap :: "u64 \<Rightarrow> u32 \<Rightarrow> nat \<Rightarrow> 'm \<Rightarrow> 'm"
  mts_set_addr_mode :: "u32 \<Rightarrow> 'm cpu_mips \<Rightarrow> 'm cpu_mips"
  mts_rebuild :: "'m cpu_mips \<Rightarrow> 'm cpu_mips"
  jit_flush :: "'m cpu_mips \<Rightarrow> 'm cpu_mips"

abbreviation creg :: "'m cpu_mips \<Rightarrow> nat \<Rightarrow> u64" where
  "creg cpu r \<equiv> cp0_reg (cp0 cpu) r"

definition set_creg :: "nat \<Rightarrow> u64 \<Rightarrow> 'm cpu_mips \<Rightarrow> 'm cpu_mips" where
  "set_creg r v cpu = cpu\<lparr>cp0 := (cp0 cpu)\<lparr>cp0_reg := (cp0_reg (cp0 cpu))(r := v)\<rparr>\<rparr>"

definition set_gpr :: "nat \<Rightarrow> u64 \<Rightarrow> 'm cpu_mips \<Rightarrow> 'm cpu_mips" where
  "set_gpr r v cpu = cpu\<lparr>gpr := (gpr cpu)(r := v)\<rparr>"

named_theorems cpu_simps \<open>reads of the CPU state after an update\<close>

lemma set_creg_simps [simp]:
  "cp0_reg (cp0 (set_creg r v cpu)) = (cp0_reg (cp0 cpu))(r := v)"
  "cp0_tlb (cp0 (set_creg r v cpu)) = cp0_tlb (cp0 cpu)"
  "tlb_entries (cp0 (set_creg r v cpu)) = tlb_entries (cp0 cpu)"
  "pc (set_creg r v cpu) = pc cpu" "gpr (set_creg r v cpu) = gpr cpu"
  "lo (set_creg r v cpu) = lo cpu" "hi (set_creg r v cpu) = hi cpu"
  "irq_pending (set_creg r v cpu) = irq_pending cpu"
  "irq_cause (set_creg r v cpu) = irq_cause cpu"
  "ll_bit (set_creg r v cpu) = ll_bit cpu"
  "irq_disable (set_creg r v cpu) = irq_disable cpu"
  "cp0_virt_cnt_reg (set_creg r v cpu) = cp0_virt_cnt_reg cpu"
  "cp0_virt_cmp_reg (set_creg r v cpu) = cp0_virt_cmp_reg cpu"
  "clock_divisor (set_creg r v cpu) = clock_divisor cpu"
  "addr_mode (set_creg r v cpu) = addr_mode cpu"
  "addr_bus_mask (set_creg r v cpu) = addr_bus_mask cpu"
  "njm_exec_page (set_creg r v cpu) = njm_exec_page cpu"
  "njm_exec_ptr (set_creg r v cpu) = njm_exec_ptr cpu"
  "machine (set_creg r v cpu) = machine cpu"
  "irq_count (set_creg r v cpu) = irq_count cpu"
  "irq_fp_count (set_creg r v cpu) = irq_fp_count cpu"
  "timer_irq_count (set_creg r v cpu) = timer_irq_count cpu"
  by (simp_all add: set_creg_def)

lemma set_gpr_simps [simp]:
  "gpr (set_gpr r v cpu) = (gpr cpu)(r := v)"
  "pc (set_gpr r v cpu) = pc cpu" "cp0 (set_gpr r v cpu) = cp0 cpu"
  "lo (set_gpr r v cpu) = lo cpu" "hi (set_gpr r v cpu) = hi cpu"
  "ll_bit (set_gpr r v cpu) = ll_bit cpu" "machine (set_gpr r v cpu) = machine cpu"
  "njm_exec_page (set_gpr r v cpu) = njm_exec_page cpu"
  "njm_exec_ptr (set_gpr r v cpu) = njm_exec_ptr cpu"
  "irq_pending (set_gpr r v cpu) = irq_pending cpu"
  "cp0_virt_cnt_reg (set_gpr r v cpu) = cp0_virt_cnt_reg cpu"
  by (simp_all add: set_gpr_def)

section \<open>Reset and cacheability\<close>

definition cca_cache_status :: "bool list" where
  "cca_cache_status = [True, True, False, True, False, True, False, False]"

definition mips64_cca_cached :: "u8 \<Rightarrow> bool" where
  "mips64_cca_cached val = cca_cache_status ! unat (val AND 0x03)"

definition empty_tlb_entry :: tlb_entry where
  "empty_tlb_entry = \<lparr>te_mask = 0, te_hi = 0, te_lo0 = 0, te_lo1 = 0\<rparr>"

definition mips64_reset :: "'m mips_ops \<Rightarrow> 'm cpu_mips \<Rightarrow> 'm cpu_mips" where
  "mips64_reset ops cpu =
    (let cpu = set_gpr MIPS_GPR_SP MIPS_ROM_SP (cpu\<lparr>pc := MIPS_ROM_PC\<rparr>);
         cpu = set_creg MIPS_CP0_STATUS (ucast MIPS_CP0_STATUS_BEV) cpu;
         cpu = set_creg MIPS_CP0_CAUSE 0 cpu;
         cpu = set_creg MIPS_CP0_CONFIG 0x00c08ff0 cpu;
         cpu = cpu\<lparr>cp0 := (cp0 cpu)\<lparr>cp0_tlb := (\<lambda>_. empty_tlb_entry)\<rparr>\<rparr>;
         cpu = mts_set_addr_mode ops 32 cpu;
         cpu = mts_rebuild ops cpu
     in jit_flush ops cpu)"

section \<open>Interrupt lines\<close>

definition irq_bit :: "nat \<Rightarrow> u32" where
  "irq_bit irq = push_bit (irq + MIPS_CP0_CAUSE_ISHIFT) 1 AND MIPS_CP0_CAUSE_IMASK"

definition mips64_set_irq :: "nat \<Rightarrow> 'm cpu_mips \<Rightarrow> 'm cpu_mips" where
  "mips64_set_irq irq cpu = cpu\<lparr>irq_cause := irq_cause cpu OR irq_bit irq\<rparr>"

definition mips64_clear_irq :: "nat \<Rightarrow> 'm cpu_mips \<Rightarrow> 'm cpu_mips" where
  "mips64_clear_irq irq cpu =
    (let cpu = cpu\<lparr>irq_cause := irq_cause cpu AND NOT (irq_bit irq)\<rparr>
     in if irq_cause cpu = 0 then cpu\<lparr>irq_pending := 0\<rparr> else cpu)"

definition mips64_vm_set_irq :: "nat \<Rightarrow> 'm cpu_mips \<Rightarrow> 'm cpu_mips" where
  "mips64_vm_set_irq irq boot_cpu =
    (if irq_disable boot_cpu \<noteq> 0 then boot_cpu\<lparr>irq_pending := 0\<rparr>
     else mips64_set_irq irq boot_cpu)"

definition mips64_vm_clear_irq :: "nat \<Rightarrow> 'm cpu_mips \<Rightarrow> 'm cpu_mips" where
  "mips64_vm_clear_irq irq boot_cpu = mips64_clear_irq irq boot_cpu"

definition mips64_update_irq_flag_fast :: "'m cpu_mips \<Rightarrow> bool \<times> 'm cpu_mips" where
  "mips64_update_irq_flag_fast cpu =
    (let cpu = cpu\<lparr>irq_pending := 0\<rparr>;
         cause = ucast (creg cpu MIPS_CP0_CAUSE AND NOT (ucast MIPS_CP0_CAUSE_IMASK)) :: u32;
         cpu = set_creg MIPS_CP0_CAUSE (ucast (cause OR irq_cause cpu)) cpu;
         sreg_mask = MIPS_CP0_STATUS_IE OR MIPS_CP0_STATUS_EXL OR MIPS_CP0_STATUS_ERL
     in if creg cpu MIPS_CP0_STATUS AND ucast sreg_mask = ucast MIPS_CP0_STATUS_IE
        then (let imask = ucast (creg cpu MIPS_CP0_STATUS AND ucast MIPS_CP0_STATUS_IMASK) :: u32
              in if creg cpu MIPS_CP0_CAUSE AND ucast imask \<noteq> 0
                 then (True, cpu\<lparr>irq_pending := 1\<rparr>)
                 else (False, cpu))
        else (False, cpu))"

definition mips64_update_irq_flag :: "'m cpu_mips \<Rightarrow> 'm cpu_mips" where
  "mips64_update_irq_flag cpu = snd (mips64_update_irq_flag_fast cpu)"

section \<open>Exceptions\<close>

definition mips64_trigger_exception :: "u32 \<Rightarrow> bool \<Rightarrow> 'm cpu_mips \<Rightarrow> 'm cpu_mips" where
  "mips64_trigger_exception exc_code bd_slot cpu =
    (let vector = 0x180;
         cpu =
          (if creg cpu MIPS_CP0_STATUS AND ucast MIPS_CP0_STATUS_EXL = 0 then
            (let cpu = set_creg MIPS_CP0_EPC (pc cpu) cpu;
                 cause = creg cpu MIPS_CP0_CAUSE AND ucast MIPS_CP0_CAUSE_IMASK;
                 cause = (if bd_slot then cause OR ucast MIPS_CP0_CAUSE_BD_SLOT
                          else cause AND ucast (NOT MIPS_CP0_CAUSE_BD_SLOT));
                 cause = cause OR ucast (push_bit MIPS_CP0_CAUSE_SHIFT exc_code)
             in set_creg MIPS_CP0_CAUSE cause cpu)
           else
            (let cause = creg cpu MIPS_CP0_CAUSE AND ucast MIPS_CP0_CAUSE_IMASK;
                 cause = cause OR ucast (push_bit MIPS_CP0_CAUSE_SHIFT exc_code)
             in set_creg MIPS_CP0_CAUSE cause cpu));
         cpu = set_creg MIPS_CP0_STATUS
                 (creg cpu MIPS_CP0_STATUS OR ucast MIPS_CP0_STATUS_EXL) cpu;
         cpu = (if creg cpu MIPS_CP0_STATUS AND ucast MIPS_CP0_STATUS_BEV \<noteq> 0
                then cpu\<lparr>pc := 0xffffffffbfc00200 + vector\<rparr>
                else cpu\<lparr>pc := 0xffffffff80000000 + vector\<rparr>)
     in cpu\<lparr>irq_pending := 0\<rparr>)"

definition mips64_exec_inc_cp0_cnt :: "'m cpu_mips \<Rightarrow> 'm cpu_mips" where
  "mips64_exec_inc_cp0_cnt cpu = cpu\<lparr>cp0_virt_cnt_reg := cp0_virt_cnt_reg cpu + 1\<rparr>"

definition mips64_trigger_timer_irq :: "'m cpu_mips \<Rightarrow> 'm cpu_mips" where
  "mips64_trigger_timer_irq cpu =
    (let cpu = cpu\<lparr>timer_irq_count := timer_irq_count cpu + 1\<rparr>;
         cpu = set_creg MIPS_CP0_COUNT (ucast (ucast (creg cpu MIPS_CP0_COMPARE) :: u32)) cpu;
         cpu = mips64_set_irq 7 cpu
     in snd (mips64_update_irq_flag_fast cpu))"

definition mips64_exec_eret :: "'m cpu_mips \<Rightarrow> 'm cpu_mips" where
  "mips64_exec_eret cpu =
    (let cpu =
      (if creg cpu MIPS_CP0_STATUS AND ucast MIPS_CP0_STATUS_ERL \<noteq> 0 then
        (let cpu = set_creg MIPS_CP0_STATUS
                     (creg cpu MIPS_CP0_STATUS AND NOT (ucast MIPS_CP0_STATUS_ERL)) cpu
         in cpu\<lparr>pc := creg cpu MIPS_CP0_ERR_EPC\<rparr>)
       else
        (let cpu = set_creg MIPS_CP0_STATUS
                     (creg cpu MIPS_CP0_STATUS AND NOT (ucast MIPS_CP0_STATUS_EXL)) cpu
         in cpu\<lparr>pc := creg cpu MIPS_CP0_EPC\<rparr>));
         cpu = cpu\<lparr>ll_bit := 0\<rparr>
     in snd (mips64_update_irq_flag_fast cpu))"

definition mips64_exec_syscall :: "'m cpu_mips \<Rightarrow> 'm cpu_mips" where
  "mips64_exec_syscall cpu = mips64_trigger_exception MIPS_CP0_CAUSE_SYSCALL False cpu"

definition mips64_exec_break :: "u32 \<Rightarrow> 'm cpu_mips \<Rightarrow> 'm cpu_mips" where
  "mips64_exec_break code cpu = mips64_trigger_exception MIPS_CP0_CAUSE_BP False cpu"

definition mips64_trigger_trap_exception :: "'m cpu_mips \<Rightarrow> 'm cpu_mips" where
  "mips64_trigger_trap_exception cpu =
    mips64_trigger_exception MIPS_CP0_CAUSE_TRAP False cpu"

definition mips64_trigger_irq :: "'m cpu_mips \<Rightarrow> 'm cpu_mips" where
  "mips64_trigger_irq cpu =
    (if irq_disable cpu \<noteq> 0 then cpu\<lparr>irq_pending := 0\<rparr>
     else (let cpu = cpu\<lparr>irq_count := irq_count cpu + 1\<rparr>;
               (taken, cpu) = mips64_update_irq_flag_fast cpu
           in if taken then mips64_trigger_exception MIPS_CP0_CAUSE_INTERRUPT False cpu
              else cpu\<lparr>irq_fp_count := irq_fp_count cpu + 1\<rparr>))"

section \<open>Moves to and from CP1\<close>

definition mips64_exec_dmfc1 :: "nat \<Rightarrow> nat \<Rightarrow> 'm cpu_mips \<Rightarrow> 'm cpu_mips" where
  "mips64_exec_dmfc1 gp_reg cp1_reg cpu = set_gpr gp_reg (fpu_reg cpu cp1_reg) cpu"

definition mips64_exec_dmtc1 :: "nat \<Rightarrow> nat \<Rightarrow> 'm cpu_mips \<Rightarrow> 'm cpu_mips" where
  "mips64_exec_dmtc1 gp_reg cp1_reg cpu =
    cpu\<lparr>fpu_reg := (fpu_reg cpu)(cp1_reg := gpr cpu gp_reg)\<rparr>"

definition mips64_exec_mfc1 :: "nat \<Rightarrow> nat \<Rightarrow> 'm cpu_mips \<Rightarrow> 'm cpu_mips" where
  "mips64_exec_mfc1 gp_reg cp1_reg cpu =
    (let val = fpu_reg cpu cp1_reg AND 0xffffffff
     in set_gpr gp_reg (sign_extend val 32) cpu)"

definition mips64_exec_mtc1 :: "nat \<Rightarrow> nat \<Rightarrow> 'm cpu_mips \<Rightarrow> 'm cpu_mips" where
  "mips64_exec_mtc1 gp_reg cp1_reg cpu =
    cpu\<lparr>fpu_reg := (fpu_reg cpu)(cp1_reg := gpr cpu gp_reg AND 0xffffffff)\<rparr>"

section \<open>Interrupts and exceptions: what the code guarantees\<close>

lemma status_bits:
  "(x :: u64) AND ucast MIPS_CP0_STATUS_IE = 0 \<longleftrightarrow> \<not> bit x 0"
  "(x :: u64) AND ucast MIPS_CP0_STATUS_EXL = 0 \<longleftrightarrow> \<not> bit x 1"
  "(x :: u64) AND ucast MIPS_CP0_STATUS_ERL = 0 \<longleftrightarrow> \<not> bit x 2"
  "(x :: u64) AND ucast MIPS_CP0_STATUS_BEV = 0 \<longleftrightarrow> \<not> bit x 22"
  using and_pow2_eq_0 [of x 0] and_pow2_eq_0 [of x 1] and_pow2_eq_0 [of x 2] and_pow2_eq_0 [of x 22]
  by (simp_all add: cp0_fields)

lemma bit_imask [word_bits]:
  "bit MIPS_CP0_CAUSE_IMASK n \<longleftrightarrow> 8 \<le> n \<and> n < 16"
  "bit MIPS_CP0_STATUS_IMASK n \<longleftrightarrow> 8 \<le> n \<and> n < 16"
proof -
  have m: "(0xFF00 :: u32) = push_bit 8 (mask 8)"
    by (simp add: mask_eq_exp_minus_1 push_bit_eq_mult)
  have "bit (0xFF00 :: u32) n \<longleftrightarrow> 8 \<le> n \<and> n < 16"
    unfolding m bit_push_bit_iff bit_mask_iff by auto
  then show "bit MIPS_CP0_CAUSE_IMASK n \<longleftrightarrow> 8 \<le> n \<and> n < 16"
    "bit MIPS_CP0_STATUS_IMASK n \<longleftrightarrow> 8 \<le> n \<and> n < 16"
    by (simp_all only: MIPS_CP0_CAUSE_IMASK_def MIPS_CP0_STATUS_IMASK_def)
qed

lemma status_ie_only:
  "(x :: u64) AND ucast (MIPS_CP0_STATUS_IE OR MIPS_CP0_STATUS_EXL OR MIPS_CP0_STATUS_ERL) =
     ucast MIPS_CP0_STATUS_IE \<longleftrightarrow> bit x 0 \<and> \<not> bit x 1 \<and> \<not> bit x 2"
proof -
  have m: "ucast (MIPS_CP0_STATUS_IE OR MIPS_CP0_STATUS_EXL OR MIPS_CP0_STATUS_ERL) = (mask 3 :: u64)"
    by (simp add: cp0_fields mask_eq_exp_minus_1)
  have b: "bit (1::u64) n \<longleftrightarrow> n = 0" for n by (simp add: bit_1_iff)
  have "x AND mask 3 = 1 \<longleftrightarrow> (\<forall>n<64. (n < 3 \<and> bit x n) = (n = 0))"
    unfolding word_eq_bits b by (auto simp: bit_and_iff bit_mask_iff)
  also have "\<dots> \<longleftrightarrow> bit x 0 \<and> \<not> bit x 1 \<and> \<not> bit x 2"
  proof (rule iffI; intro conjI allI impI)
    assume a: "\<forall>n<64. (n < 3 \<and> bit x n) = (n = 0)"
    show "bit x 0" using a [rule_format, of 0] by simp
    show "\<not> bit x 1" using a [rule_format, of 1] by simp
    show "\<not> bit x 2" using a [rule_format, of 2] by simp
  next
    fix n :: nat assume "bit x 0 \<and> \<not> bit x 1 \<and> \<not> bit x 2"
    then show "(n < 3 \<and> bit x n) = (n = 0)"
      by (cases "n = 0"; cases "n = 1"; cases "n = 2") auto
  qed
  finally show ?thesis unfolding m by (simp add: MIPS_CP0_STATUS_IE_def)
qed

lemma bit_irq_bit: "bit (irq_bit irq) n \<longleftrightarrow> n = irq + 8 \<and> irq < 8"
  by (auto simp: irq_bit_def MIPS_CP0_CAUSE_ISHIFT_def bit_and_iff bit_push_bit_iff bit_1_iff bit_imask simp del: push_bit_of_1)

definition irq_line :: "'m cpu_mips \<Rightarrow> nat \<Rightarrow> bool" where
  "irq_line cpu n \<longleftrightarrow> n < 8 \<and> bit (irq_cause cpu) (n + 8)"
definition irq_enabled :: "'m cpu_mips \<Rightarrow> nat \<Rightarrow> bool" where
  "irq_enabled cpu n \<longleftrightarrow> bit (creg cpu MIPS_CP0_STATUS) 0 \<and> \<not> bit (creg cpu MIPS_CP0_STATUS) 1
     \<and> \<not> bit (creg cpu MIPS_CP0_STATUS) 2 \<and> bit (creg cpu MIPS_CP0_STATUS) (n + 8)"

lemma cause_imask_hit:
  fixes c s :: u64 and q :: u32
  shows "ucast (ucast (c AND NOT (ucast MIPS_CP0_CAUSE_IMASK)) OR q) AND
     ucast (ucast (s AND ucast MIPS_CP0_STATUS_IMASK) :: u32) = (0 :: u64) \<longleftrightarrow>
   (\<forall>n<8. \<not> (bit q (n + 8) \<and> bit s (n + 8)))" (is "?l = 0 \<longleftrightarrow> ?r")
proof -
  have b: "bit ?l n \<longleftrightarrow> 8 \<le> n \<and> n < 16 \<and> bit q n \<and> bit s n" for n
    by (auto simp: bit_and_iff bit_or_iff bit_not_iff bit_ucast_iff bit_imask)
  have "?l = 0 \<longleftrightarrow> (\<forall>n<64. \<not> (8 \<le> n \<and> n < 16 \<and> bit q n \<and> bit s n))"
    unfolding word_eq_bits b by simp
  also have "\<dots> \<longleftrightarrow> ?r"
  proof (intro iffI allI impI)
    fix n :: nat assume "\<forall>n<64. \<not> (8 \<le> n \<and> n < 16 \<and> bit q n \<and> bit s n)" "n < 8"
    then show "\<not> (bit q (n + 8) \<and> bit s (n + 8))" by (auto dest: spec [of _ "n + 8"])
  next
    fix n :: nat assume "\<forall>n<8. \<not> (bit q (n + 8) \<and> bit s (n + 8))"
    then show "\<not> (8 \<le> n \<and> n < 16 \<and> bit q n \<and> bit s n)"
      by (auto dest: spec [of _ "n - 8"])
  qed
  finally show ?thesis .
qed

lemma update_irq_flag_alt:
  "mips64_update_irq_flag_fast cpu =
    (let fire = (\<exists>n. irq_line cpu n \<and> irq_enabled cpu n);
         c = set_creg MIPS_CP0_CAUSE
               (ucast (ucast (creg cpu MIPS_CP0_CAUSE AND NOT (ucast MIPS_CP0_CAUSE_IMASK)) OR irq_cause cpu))
               (cpu\<lparr>irq_pending := 0\<rparr>)
     in (fire, if fire then c\<lparr>irq_pending := 1\<rparr> else c))"
proof -
  have e: "(\<exists>n. irq_line cpu n \<and> irq_enabled cpu n) \<longleftrightarrow>
      bit (creg cpu MIPS_CP0_STATUS) 0 \<and> \<not> bit (creg cpu MIPS_CP0_STATUS) 1 \<and>
      \<not> bit (creg cpu MIPS_CP0_STATUS) 2 \<and>
      (\<exists>n<8. bit (irq_cause cpu) (n + 8) \<and> bit (creg cpu MIPS_CP0_STATUS) (n + 8))"
    by (auto simp: irq_line_def irq_enabled_def)
  have ne: "MIPS_CP0_STATUS \<noteq> MIPS_CP0_CAUSE" by (simp add: cp0_numbers)
  show ?thesis
    unfolding mips64_update_irq_flag_fast_def Let_def status_ie_only
    by (simp only: set_creg_simps cpu_mips.simps fun_upd_other [OF ne] fun_upd_same
          status_ie_only cause_imask_hit e) auto
qed

lemma cp0_distinct [simp]:
  "MIPS_CP0_STATUS \<noteq> MIPS_CP0_CAUSE" "MIPS_CP0_CAUSE \<noteq> MIPS_CP0_STATUS"
  "MIPS_CP0_STATUS \<noteq> MIPS_CP0_EPC" "MIPS_CP0_EPC \<noteq> MIPS_CP0_STATUS"
  "MIPS_CP0_CAUSE \<noteq> MIPS_CP0_EPC" "MIPS_CP0_EPC \<noteq> MIPS_CP0_CAUSE"
  "MIPS_CP0_STATUS \<noteq> MIPS_CP0_COUNT" "MIPS_CP0_COUNT \<noteq> MIPS_CP0_STATUS"
  "MIPS_CP0_ERR_EPC \<noteq> MIPS_CP0_STATUS" "MIPS_CP0_ERR_EPC \<noteq> MIPS_CP0_CAUSE"
  by (simp_all add: cp0_numbers)

lemma trigger_exception_simps:
  "gpr (mips64_trigger_exception c bd cpu) = gpr cpu"
  "lo (mips64_trigger_exception c bd cpu) = lo cpu"
  "hi (mips64_trigger_exception c bd cpu) = hi cpu"
  "machine (mips64_trigger_exception c bd cpu) = machine cpu"
  "irq_cause (mips64_trigger_exception c bd cpu) = irq_cause cpu"
  "irq_disable (mips64_trigger_exception c bd cpu) = irq_disable cpu"
  "irq_pending (mips64_trigger_exception c bd cpu) = 0"
  "creg (mips64_trigger_exception c bd cpu) MIPS_CP0_STATUS =
     creg cpu MIPS_CP0_STATUS OR ucast MIPS_CP0_STATUS_EXL"
  "creg (mips64_trigger_exception c bd cpu) MIPS_CP0_EPC =
     (if bit (creg cpu MIPS_CP0_STATUS) 1 then creg cpu MIPS_CP0_EPC else pc cpu)"
  "pc (mips64_trigger_exception c bd cpu) =
     (if bit (creg cpu MIPS_CP0_STATUS) 22 then 0xffffffffbfc00380 else 0xffffffff80000180)"
proof -
  have b: "bit (x OR ucast MIPS_CP0_STATUS_EXL) 22 \<longleftrightarrow> bit x 22" for x :: u64
    by (simp add: bit_or_iff MIPS_CP0_STATUS_EXL_def)
  show "gpr (mips64_trigger_exception c bd cpu) = gpr cpu"
  "lo (mips64_trigger_exception c bd cpu) = lo cpu"
  "hi (mips64_trigger_exception c bd cpu) = hi cpu"
  "machine (mips64_trigger_exception c bd cpu) = machine cpu"
  "irq_cause (mips64_trigger_exception c bd cpu) = irq_cause cpu"
  "irq_disable (mips64_trigger_exception c bd cpu) = irq_disable cpu"
  "irq_pending (mips64_trigger_exception c bd cpu) = 0"
  "creg (mips64_trigger_exception c bd cpu) MIPS_CP0_STATUS =
     creg cpu MIPS_CP0_STATUS OR ucast MIPS_CP0_STATUS_EXL"
  "creg (mips64_trigger_exception c bd cpu) MIPS_CP0_EPC =
     (if bit (creg cpu MIPS_CP0_STATUS) 1 then creg cpu MIPS_CP0_EPC else pc cpu)"
  "pc (mips64_trigger_exception c bd cpu) =
     (if bit (creg cpu MIPS_CP0_STATUS) 22 then 0xffffffffbfc00380 else 0xffffffff80000180)"
    by (simp_all add: mips64_trigger_exception_def Let_def status_bits b)
qed

lemma bit_pow2_u32: "(c :: u32) = 2 ^ k \<Longrightarrow> k < 32 \<Longrightarrow> bit c n \<longleftrightarrow> n = k"
  by (auto simp only: bit_exp_iff) simp_all

lemma bit_status_const [word_bits]:
  "bit MIPS_CP0_STATUS_IE n \<longleftrightarrow> n = 0"
  "bit MIPS_CP0_STATUS_EXL n \<longleftrightarrow> n = 1"
  "bit MIPS_CP0_STATUS_ERL n \<longleftrightarrow> n = 2"
  "bit MIPS_CP0_STATUS_BEV n \<longleftrightarrow> n = 22"
  "bit MIPS_CP0_CAUSE_BD_SLOT n \<longleftrightarrow> n = 31"
  by (rule bit_pow2_u32; simp add: cp0_fields)+

lemma trigger_exception_cause:
  "creg (mips64_trigger_exception c bd cpu) MIPS_CP0_CAUSE =
     (creg cpu MIPS_CP0_CAUSE AND ucast MIPS_CP0_CAUSE_IMASK) OR
     (if bd \<and> \<not> bit (creg cpu MIPS_CP0_STATUS) 1 then ucast MIPS_CP0_CAUSE_BD_SLOT else 0) OR
     ucast (push_bit 2 c)"
proof -
  have e: "(x AND ucast MIPS_CP0_CAUSE_IMASK) AND ucast (NOT MIPS_CP0_CAUSE_BD_SLOT) =
    x AND ucast MIPS_CP0_CAUSE_IMASK" for x :: u64
    by (rule bit_word_eqI) (auto simp: bit_and_iff bit_ucast_iff bit_not_iff bit_imask bit_status_const)
  show ?thesis
    by (simp add: mips64_trigger_exception_def Let_def status_bits e MIPS_CP0_CAUSE_SHIFT_def or.assoc)
qed

lemma eret_simps:
  assumes "\<not> bit (creg cpu MIPS_CP0_STATUS) 2"
  shows "pc (mips64_exec_eret cpu) = creg cpu MIPS_CP0_EPC"
    "creg (mips64_exec_eret cpu) MIPS_CP0_STATUS =
       creg cpu MIPS_CP0_STATUS AND NOT (ucast MIPS_CP0_STATUS_EXL)"
    "gpr (mips64_exec_eret cpu) = gpr cpu"
    "ll_bit (mips64_exec_eret cpu) = 0"
  using assms
  by (simp_all add: mips64_exec_eret_def Let_def status_bits update_irq_flag_alt)


lemma exl_set_clear:
  "\<not> bit s 1 \<Longrightarrow> (s OR ucast MIPS_CP0_STATUS_EXL) AND NOT (ucast MIPS_CP0_STATUS_EXL) = (s :: u64)"
  by (auto intro!: bit_word_eqI simp: bit_and_iff bit_or_iff bit_not_iff bit_ucast_iff bit_status_const)

text \<open>A CPU for the witnesses: out of reset, interrupts enabled, line 2 unmasked.\<close>

definition sample_cpu :: "unit cpu_mips" where
  "sample_cpu = \<lparr>cp0_virt_cnt_reg = 0, cp0_virt_cmp_reg = 0, irq_pending = 0, irq_cause = 0,
     ll_bit = 0, pc = 0xffffffffbfc00000, gpr = (\<lambda>_. 0), lo = 0, hi = 0,
     cp0 = \<lparr>cp0_reg = (\<lambda>r. if r = 12 then 0x401 else 0), cp0_tlb = (\<lambda>_. empty_tlb_entry),
            tlb_entries = 48, ipl_lo = 0, ipl_hi = 0, int_ctl = 0, derraddr0 = 0, derraddr1 = 0\<rparr>,
     fpu_reg = (\<lambda>_. 0), addr_bus_mask = -1, irq_count = 0, timer_irq_count = 0,
     irq_fp_count = 0, timer_irq_pending = 0, timer_irq_check_itv = 1000, irq_disable = 0,
     idle_pc = 0, addr_mode = 32, njm_exec_page = 0, njm_exec_ptr = None, clock_divisor = 4,
     machine = ()\<rparr>"

lemma sample_cpu_simps:
  "pc sample_cpu = 0xffffffffbfc00000" "gpr sample_cpu = (\<lambda>_. 0)"
  "creg sample_cpu MIPS_CP0_STATUS = 0x401" "irq_disable sample_cpu = 0"
  "irq_cause sample_cpu = 0" "tlb_entries (cp0 sample_cpu) = 48" "addr_mode sample_cpu = 32"
  "cp0_virt_cnt_reg sample_cpu = 0" "clock_divisor sample_cpu = 4"
  by (simp_all add: sample_cpu_def cp0_numbers)

text \<open>C8: An exception taken outside an exception handler followed by \<open>ERET\<close> returns to the
  instruction that raised it, with the status register and every general register restored.\<close>

theorem exception_eret_round_trip:
  assumes "\<not> bit (creg cpu MIPS_CP0_STATUS) 1" and "\<not> bit (creg cpu MIPS_CP0_STATUS) 2"
  shows "let c = mips64_exec_eret (mips64_trigger_exception code bd cpu)
         in pc c = pc cpu \<and> creg c MIPS_CP0_STATUS = creg cpu MIPS_CP0_STATUS \<and> gpr c = gpr cpu"
proof -
  have "\<not> bit (creg (mips64_trigger_exception code bd cpu) MIPS_CP0_STATUS) 2"
    using assms by (simp add: trigger_exception_simps bit_or_iff bit_ucast_iff bit_status_const)
  then show ?thesis
    using assms by (simp add: Let_def eret_simps trigger_exception_simps exl_set_clear)
qed

theorem exception_eret_round_trip_witness:
  "let cpu = sample_cpu; c = mips64_exec_eret (mips64_trigger_exception 8 True cpu)
   in pc c = 0xffffffffbfc00000 \<and> creg c MIPS_CP0_STATUS = 0x401"
  using exception_eret_round_trip [of sample_cpu 8 True]
  by (simp add: sample_cpu_simps Let_def)

lemma update_irq_flag_simps:
  "gpr (mips64_update_irq_flag cpu) = gpr cpu" "pc (mips64_update_irq_flag cpu) = pc cpu"
  "creg (mips64_update_irq_flag cpu) MIPS_CP0_STATUS = creg cpu MIPS_CP0_STATUS"
  "creg (mips64_update_irq_flag cpu) MIPS_CP0_EPC = creg cpu MIPS_CP0_EPC"
  "irq_cause (mips64_update_irq_flag cpu) = irq_cause cpu"
  by (simp_all add: mips64_update_irq_flag_def update_irq_flag_alt Let_def)

lemma irq_pending_update_iff:
  "irq_pending (mips64_update_irq_flag cpu) \<noteq> 0 \<longleftrightarrow> (\<exists>n. irq_line cpu n \<and> irq_enabled cpu n)"
  by (simp add: mips64_update_irq_flag_def update_irq_flag_alt Let_def)

text \<open>C9: The pending flag the run loop tests is set exactly when some of the eight interrupt
  lines is asserted and the status register enables it: IE set, EXL and ERL clear, and the
  line's mask bit set.\<close>

theorem irq_pending_iff:
  "irq_pending (mips64_update_irq_flag cpu) \<noteq> 0 \<longleftrightarrow> (\<exists>n. irq_line cpu n \<and> irq_enabled cpu n)"
  by (simp add: irq_pending_update_iff)

lemma trigger_irq_alt:
  "mips64_trigger_irq cpu =
    (if irq_disable cpu \<noteq> 0 then cpu\<lparr>irq_pending := 0\<rparr>
     else let c = mips64_update_irq_flag (cpu\<lparr>irq_count := irq_count cpu + 1\<rparr>)
          in if irq_pending c \<noteq> 0 then mips64_trigger_exception MIPS_CP0_CAUSE_INTERRUPT False c
             else c\<lparr>irq_fp_count := irq_fp_count c + 1\<rparr>)"
  by (auto simp: mips64_trigger_irq_def mips64_update_irq_flag_def update_irq_flag_alt Let_def)

lemma irq_lines_upd [simp]:
  "irq_line (cpu\<lparr>irq_count := k\<rparr>) n = irq_line cpu n"
  "irq_enabled (cpu\<lparr>irq_count := k\<rparr>) n = irq_enabled cpu n"
  by (simp_all add: irq_line_def irq_enabled_def)



end
