(* ===== verification/Mips64_Cp0.thy ===== *)
theory Mips64_Cp0
  imports Mips64_State
begin

text \<open>
  The system coprocessor of \<open>stable/mips64_cp0.c\<close>: register reads and writes with their
  side effects (the virtual Count/Compare clock, the interrupt flag, read-only and masked
  registers), the R7000 ``set 1'' registers, and the TLB: lookup, probe, read, write, and
  the notification of the MTS.  Divisions by zero of the host are \<open>Inl Div_By_Zero\<close>.
\<close>

section \<open>Constants (mips64.h)\<close>

definition MIPS_TLB_PAGE_MASK :: u32 where "MIPS_TLB_PAGE_MASK = 0x01ffe000"
definition MIPS_TLB_VPN2_MASK_32 :: u64 where "MIPS_TLB_VPN2_MASK_32 = 0xffffe000"
definition MIPS_TLB_VPN2_MASK_64 :: u64 where "MIPS_TLB_VPN2_MASK_64 = 0xc00000ffffffe000"
definition MIPS_TLB_PFN_MASK :: u32 where "MIPS_TLB_PFN_MASK = 0x3fffffc0"
definition MIPS_TLB_ASID_MASK :: u32 where "MIPS_TLB_ASID_MASK = 0x000000ff"
definition MIPS_TLB_G_MASK :: u32 where "MIPS_TLB_G_MASK = 0x00001000"
definition MIPS_TLB_V_MASK :: u32 where "MIPS_TLB_V_MASK = 0x2"
definition MIPS_TLB_C_MASK :: u32 where "MIPS_TLB_C_MASK = 0x38"
definition MIPS_TLB_C_SHIFT :: nat where "MIPS_TLB_C_SHIFT = 3"
definition MIPS_CP0_LO_G_MASK :: u32 where "MIPS_CP0_LO_G_MASK = 0x00000001"
definition MIPS_CP0_HI_SAFE_MASK :: u32 where "MIPS_CP0_HI_SAFE_MASK = 0xffffe0ff"
definition MIPS_CP0_LO_SAFE_MASK :: u32 where "MIPS_CP0_LO_SAFE_MASK = 0x7fffffff"
definition MIPS_MIN_PAGE_IMASK :: u32 where "MIPS_MIN_PAGE_IMASK = 0xfff"
definition MIPS_MIN_PAGE_MASK :: u64 where "MIPS_MIN_PAGE_MASK = 0xfffffffffffff000"
definition MIPS64_TLB_IDX_MASK :: u32 where "MIPS64_TLB_IDX_MASK = 0x3f"
definition MIPS64_TLB_MAX_ENTRIES :: nat where "MIPS64_TLB_MAX_ENTRIES = 64"
definition MIPS64_R7000_TLB64_ENABLE :: u64 where "MIPS64_R7000_TLB64_ENABLE = 0x20000000"

section \<open>Operating mode\<close>

definition mips64_cp0_get_mode :: "'m cpu_mips \<Rightarrow> u32" where
  "mips64_cp0_get_mode cpu =
    (let cpu_mode = ucast (drop_bit 3 (creg cpu MIPS_CP0_STATUS)) :: u32 in cpu_mode AND 3)"

definition mips64_cp0_check_kernel_mode :: "'m cpu_mips \<Rightarrow> bool \<times> 'm cpu_mips" where
  "mips64_cp0_check_kernel_mode cpu =
    (if mips64_cp0_get_mode cpu \<noteq> 0
     then (True, mips64_trigger_exception MIPS_CP0_CAUSE_ILLOP False cpu)
     else (False, cpu))"

section \<open>Register access\<close>

text \<open>
  The random register: the virtual count modulo the number of unwired entries.  The
  subtraction and the remainder are on unsigned 32-bit integers.
\<close>

definition mips64_cp0_get_random_reg :: "'m cpu_mips \<Rightarrow> u32 outcome" where
  "mips64_cp0_get_random_reg cpu =
    (let wired = ucast (creg cpu MIPS_CP0_WIRED) :: u32
     in if tlb_entries (cp0 cpu) - wired = 0 then Inl Div_By_Zero
        else Inr (wired + cp0_virt_cnt_reg cpu mod (tlb_entries (cp0 cpu) - wired)))"

definition mips64_cp0_get_reg_fast :: "'m cpu_mips \<Rightarrow> nat \<Rightarrow> u64 outcome" where
  "mips64_cp0_get_reg_fast cpu r =
    (if r = MIPS_CP0_COUNT then
       (let delta = cp0_virt_cmp_reg cpu - cp0_virt_cnt_reg cpu;
            res = ucast (creg cpu MIPS_CP0_COMPARE) :: u32;
            res = res - clock_divisor cpu * delta
        in Inr (sign_extend (ucast res) 32))
     else if r = MIPS_CP0_COMPARE then Inr (sign_extend (creg cpu MIPS_CP0_COMPARE) 32)
     else if r = MIPS_CP0_INFO then Inr MIPS64_R7000_TLB64_ENABLE
     else if r = MIPS_CP0_RANDOM then
       bind_out (mips64_cp0_get_random_reg cpu) (\<lambda>v. Inr (ucast v))
     else Inr (creg cpu r))"

text \<open>Restart the virtual clock so that it reaches Compare after \<open>delta\<close> guest ticks.\<close>

definition restart_clock :: "u32 \<Rightarrow> 'm cpu_mips \<Rightarrow> 'm cpu_mips outcome" where
  "restart_clock delta cpu =
    (let cpu = cpu\<lparr>cp0_virt_cnt_reg := 0\<rparr>
     in if clock_divisor cpu = 0 then Inl Div_By_Zero
        else Inr (cpu\<lparr>cp0_virt_cmp_reg := delta div clock_divisor cpu\<rparr>))"

definition mips64_cp0_set_reg :: "nat \<Rightarrow> u64 \<Rightarrow> 'm cpu_mips \<Rightarrow> 'm cpu_mips outcome" where
  "mips64_cp0_set_reg r val cpu =
    (if r = MIPS_CP0_STATUS \<or> r = MIPS_CP0_CAUSE then
       Inr (mips64_update_irq_flag (set_creg r val cpu))
     else if r = MIPS_CP0_PAGEMASK then
       Inr (set_creg r (val AND ucast MIPS_TLB_PAGE_MASK) cpu)
     else if r = MIPS_CP0_COMPARE then
       (let cpu = mips64_clear_irq 7 cpu;
            cpu = mips64_update_irq_flag cpu;
            cpu = set_creg r val cpu;
            delta = ucast (val - creg cpu MIPS_CP0_COUNT) :: u32
        in restart_clock delta cpu)
     else if r = MIPS_CP0_COUNT then
       (let cpu = set_creg r val cpu;
            delta = ucast (creg cpu MIPS_CP0_COMPARE - val) :: u32
        in restart_clock delta cpu)
     else if r = MIPS_CP0_TLB_HI then
       Inr (set_creg r (val AND ucast MIPS_CP0_HI_SAFE_MASK) cpu)
     else if r = MIPS_CP0_TLB_LO_0 \<or> r = MIPS_CP0_TLB_LO_1 then
       Inr (set_creg r (val AND ucast MIPS_CP0_LO_SAFE_MASK) cpu)
     else if r = MIPS_CP0_RANDOM \<or> r = MIPS_CP0_PRID \<or> r = MIPS_CP0_CONFIG then Inr cpu
     else if r = MIPS_CP0_WIRED then
       Inr (set_creg r (val AND ucast MIPS64_TLB_IDX_MASK) cpu)
     else Inr (set_creg r val cpu))"

text \<open>The R7000 ``set 1'' registers; \<open>0x7F << 25\<close> is a negative \<open>int\<close>.\<close>

definition mips64_cp0_s1_get_reg :: "'m cpu_mips \<Rightarrow> nat \<Rightarrow> u64" where
  "mips64_cp0_s1_get_reg cpu r =
    (if r = 16 then scast (push_bit 25 0x7F :: u32)
     else if r = 18 then ucast (ipl_lo (cp0 cpu))
     else if r = 19 then ucast (ipl_hi (cp0 cpu))
     else if r = 20 then ucast (int_ctl (cp0 cpu))
     else if r = 26 then ucast (derraddr0 (cp0 cpu))
     else if r = 27 then ucast (derraddr1 (cp0 cpu))
     else 0)"

definition mips64_cp0_s1_set_reg :: "nat \<Rightarrow> u64 \<Rightarrow> 'm cpu_mips \<Rightarrow> 'm cpu_mips" where
  "mips64_cp0_s1_set_reg r val cpu =
    (if r = 18 then cpu\<lparr>cp0 := (cp0 cpu)\<lparr>ipl_lo := ucast val\<rparr>\<rparr>
     else if r = 19 then cpu\<lparr>cp0 := (cp0 cpu)\<lparr>ipl_hi := ucast val\<rparr>\<rparr>
     else if r = 20 then cpu\<lparr>cp0 := (cp0 cpu)\<lparr>int_ctl := ucast val\<rparr>\<rparr>
     else if r = 26 then cpu\<lparr>cp0 := (cp0 cpu)\<lparr>derraddr0 := ucast val\<rparr>\<rparr>
     else if r = 27 then cpu\<lparr>cp0 := (cp0 cpu)\<lparr>derraddr1 := ucast val\<rparr>\<rparr>
     else cpu)"

definition mips64_cp0_exec_dmfc0 :: "nat \<Rightarrow> nat \<Rightarrow> 'm cpu_mips \<Rightarrow> 'm cpu_mips outcome" where
  "mips64_cp0_exec_dmfc0 gp_reg r cpu =
    bind_out (mips64_cp0_get_reg_fast cpu r) (\<lambda>v. Inr (set_gpr gp_reg v cpu))"

definition mips64_cp0_exec_dmtc0 :: "nat \<Rightarrow> nat \<Rightarrow> 'm cpu_mips \<Rightarrow> 'm cpu_mips outcome" where
  "mips64_cp0_exec_dmtc0 gp_reg r cpu = mips64_cp0_set_reg r (gpr cpu gp_reg) cpu"

definition mips64_cp0_exec_mfc0 :: "nat \<Rightarrow> nat \<Rightarrow> 'm cpu_mips \<Rightarrow> 'm cpu_mips outcome" where
  "mips64_cp0_exec_mfc0 gp_reg r cpu =
    bind_out (mips64_cp0_get_reg_fast cpu r) (\<lambda>v. Inr (set_gpr gp_reg (sign_extend v 32) cpu))"

definition mips64_cp0_exec_mtc0 :: "nat \<Rightarrow> nat \<Rightarrow> 'm cpu_mips \<Rightarrow> 'm cpu_mips outcome" where
  "mips64_cp0_exec_mtc0 gp_reg r cpu =
    mips64_cp0_set_reg r (gpr cpu gp_reg AND 0xffffffff) cpu"

definition mips64_cp0_exec_cfc0 :: "nat \<Rightarrow> nat \<Rightarrow> 'm cpu_mips \<Rightarrow> 'm cpu_mips" where
  "mips64_cp0_exec_cfc0 gp_reg r cpu =
    set_gpr gp_reg (sign_extend (mips64_cp0_s1_get_reg cpu r) 32) cpu"

definition mips64_cp0_exec_ctc0 :: "nat \<Rightarrow> nat \<Rightarrow> 'm cpu_mips \<Rightarrow> 'm cpu_mips" where
  "mips64_cp0_exec_ctc0 gp_reg r cpu =
    mips64_cp0_s1_set_reg r (gpr cpu gp_reg AND 0xffffffff) cpu"

section \<open>TLB lookup\<close>

definition get_page_size :: "u32 \<Rightarrow> u32" where
  "get_page_size page_mask = drop_bit 1 (page_mask + 0x2000)"

definition mips64_cp0_get_vpn2_mask :: "'m cpu_mips \<Rightarrow> u64" where
  "mips64_cp0_get_vpn2_mask cpu =
    (if addr_mode cpu = 64 then MIPS_TLB_VPN2_MASK_64 else MIPS_TLB_VPN2_MASK_32)"

record mts_map_res =
  mm_vaddr :: u64
  mm_paddr :: u64
  mm_offset :: u32
  mm_cached :: bool
  mm_tlb_index :: nat

text \<open>The tests of one TLB entry: does it translate \<open>vaddr\<close>, and to what.\<close>

definition tlb_entry_matches :: "'m cpu_mips \<Rightarrow> u64 \<Rightarrow> tlb_entry \<Rightarrow> bool" where
  "tlb_entry_matches cpu vaddr entry =
    (let vpn2_mask = mips64_cp0_get_vpn2_mask cpu;
         vpn_addr = vaddr AND vpn2_mask;
         asid = ucast (creg cpu MIPS_CP0_TLB_HI AND ucast MIPS_TLB_ASID_MASK) :: u32;
         page_mask = NOT (te_mask entry + 0x1FFF);
         hi_addr = te_hi entry AND vpn2_mask
     in vpn_addr AND page_mask = hi_addr \<and>
        (te_hi entry AND ucast MIPS_TLB_G_MASK \<noteq> 0 \<or>
         te_hi entry AND ucast MIPS_TLB_ASID_MASK = ucast asid))"

definition tlb_half_map :: "'m cpu_mips \<Rightarrow> u64 \<Rightarrow> u64 \<Rightarrow> u32 \<Rightarrow> nat \<Rightarrow> mts_map_res" where
  "tlb_half_map cpu vaddr entry_lo page_size i =
    (let va = vaddr AND MIPS_MIN_PAGE_MASK;
         pa = push_bit 6 (entry_lo AND ucast MIPS_TLB_PFN_MASK);
         pa = pa + (va AND ucast (page_size - 1));
         pa = pa AND addr_bus_mask cpu;
         pca = drop_bit MIPS_TLB_C_SHIFT (ucast (entry_lo AND ucast MIPS_TLB_C_MASK) :: u32)
     in \<lparr>mm_vaddr = va, mm_paddr = pa,
         mm_offset = ucast (vaddr AND ucast MIPS_MIN_PAGE_IMASK),
         mm_cached = mips64_cca_cached (ucast pca), mm_tlb_index = i\<rparr>)"

definition tlb_translate :: "'m cpu_mips \<Rightarrow> u64 \<Rightarrow> tlb_entry \<Rightarrow> nat \<Rightarrow> mts_map_res option" where
  "tlb_translate cpu vaddr entry i =
    (let page_size = get_page_size (ucast (te_mask entry))
     in if vaddr AND ucast page_size = 0
        then (if te_lo0 entry AND ucast MIPS_TLB_V_MASK \<noteq> 0
              then Some (tlb_half_map cpu vaddr (te_lo0 entry) page_size i) else None)
        else (if te_lo1 entry AND ucast MIPS_TLB_V_MASK \<noteq> 0
              then Some (tlb_half_map cpu vaddr (te_lo1 entry) page_size i) else None))"

text \<open>The loop over the entries: the first match decides, valid or not.\<close>

fun tlb_lookup_loop :: "'m cpu_mips \<Rightarrow> u64 \<Rightarrow> nat list \<Rightarrow> mts_map_res option" where
  "tlb_lookup_loop cpu vaddr [] = None"
| "tlb_lookup_loop cpu vaddr (i # is) =
    (if tlb_entry_matches cpu vaddr (cp0_tlb (cp0 cpu) i)
     then tlb_translate cpu vaddr (cp0_tlb (cp0 cpu) i) i
     else tlb_lookup_loop cpu vaddr is)"

definition mips64_cp0_tlb_lookup :: "'m cpu_mips \<Rightarrow> u64 \<Rightarrow> mts_map_res option" where
  "mips64_cp0_tlb_lookup cpu vaddr =
    tlb_lookup_loop cpu vaddr [0..<unat (tlb_entries (cp0 cpu))]"

section \<open>TLB and MTS\<close>

abbreviation upd_machine :: "('m \<Rightarrow> 'm) \<Rightarrow> 'm cpu_mips \<Rightarrow> 'm cpu_mips" where
  "upd_machine f cpu \<equiv> cpu\<lparr>machine := f (machine cpu)\<rparr>"

definition mips64_cp0_map_tlb_to_mts :: "'m mips_ops \<Rightarrow> nat \<Rightarrow> 'm cpu_mips \<Rightarrow> 'm cpu_mips" where
  "mips64_cp0_map_tlb_to_mts ops index cpu =
    (let entry = cp0_tlb (cp0 cpu) index;
         page_size = get_page_size (ucast (te_mask entry));
         v0_addr = te_hi entry AND mips64_cp0_get_vpn2_mask cpu;
         v1_addr = v0_addr + ucast page_size;
         cacheable = (\<lambda>lo. mips64_cca_cached
            (ucast (drop_bit MIPS_TLB_C_SHIFT (ucast (lo AND ucast MIPS_TLB_C_MASK) :: u32))));
         p_addr = (\<lambda>lo. push_bit 6 (lo AND ucast MIPS_TLB_PFN_MASK) AND addr_bus_mask cpu);
         cpu = (if te_lo0 entry AND ucast MIPS_TLB_V_MASK \<noteq> 0
                then upd_machine (mts_map ops v0_addr (p_addr (te_lo0 entry)) page_size
                       (cacheable (te_lo0 entry)) index) cpu else cpu)
     in if te_lo1 entry AND ucast MIPS_TLB_V_MASK \<noteq> 0
        then upd_machine (mts_map ops v1_addr (p_addr (te_lo1 entry)) page_size
               (cacheable (te_lo1 entry)) index) cpu else cpu)"

definition mips64_cp0_unmap_tlb_to_mts :: "'m mips_ops \<Rightarrow> nat \<Rightarrow> 'm cpu_mips \<Rightarrow> 'm cpu_mips" where
  "mips64_cp0_unmap_tlb_to_mts ops index cpu =
    (let entry = cp0_tlb (cp0 cpu) index;
         page_size = get_page_size (ucast (te_mask entry));
         v0_addr = te_hi entry AND mips64_cp0_get_vpn2_mask cpu;
         v1_addr = v0_addr + ucast page_size;
         cpu = (if te_lo0 entry AND ucast MIPS_TLB_V_MASK \<noteq> 0
                then upd_machine (mts_unmap ops v0_addr page_size index) cpu else cpu)
     in if te_lo1 entry AND ucast MIPS_TLB_V_MASK \<noteq> 0
        then upd_machine (mts_unmap ops v1_addr page_size index) cpu else cpu)"

definition mips64_cp0_map_all_tlb_to_mts :: "'m mips_ops \<Rightarrow> 'm cpu_mips \<Rightarrow> 'm cpu_mips" where
  "mips64_cp0_map_all_tlb_to_mts ops cpu =
    fold (mips64_cp0_map_tlb_to_mts ops) [0..<unat (tlb_entries (cp0 cpu))] cpu"

section \<open>TLB instructions\<close>

definition mips64_cp0_exec_tlbp :: "'m cpu_mips \<Rightarrow> 'm cpu_mips" where
  "mips64_cp0_exec_tlbp cpu =
    (let vpn2_mask = mips64_cp0_get_vpn2_mask cpu;
         hi_reg = creg cpu MIPS_CP0_TLB_HI;
         asid = hi_reg AND ucast MIPS_TLB_ASID_MASK;
         vpn2 = hi_reg AND vpn2_mask;
         cpu = set_creg MIPS_CP0_INDEX 0xffffffff80000000 cpu
     in fold (\<lambda>i cpu.
          (let entry = cp0_tlb (cp0 cpu) i
           in if te_hi entry AND vpn2_mask = vpn2 \<and>
                 (te_hi entry AND ucast MIPS_TLB_G_MASK \<noteq> 0 \<or>
                  te_hi entry AND ucast MIPS_TLB_ASID_MASK = asid)
              then set_creg MIPS_CP0_INDEX (of_nat i) cpu else cpu))
        [0..<unat (tlb_entries (cp0 cpu))] cpu)"

definition mips64_cp0_exec_tlbr :: "'m cpu_mips \<Rightarrow> 'm cpu_mips" where
  "mips64_cp0_exec_tlbr cpu =
    (let index = ucast (creg cpu MIPS_CP0_INDEX) :: u32
     in if index < tlb_entries (cp0 cpu) then
       (let entry = cp0_tlb (cp0 cpu) (unat index);
            cpu = set_creg MIPS_CP0_PAGEMASK (te_mask entry) cpu;
            cpu = set_creg MIPS_CP0_TLB_HI (te_hi entry) cpu;
            cpu = set_creg MIPS_CP0_TLB_LO_0 (te_lo0 entry) cpu;
            cpu = set_creg MIPS_CP0_TLB_LO_1 (te_lo1 entry) cpu
        in if te_hi entry AND ucast MIPS_TLB_G_MASK \<noteq> 0 then
          (let cpu = set_creg MIPS_CP0_TLB_LO_0
                       (creg cpu MIPS_CP0_TLB_LO_0 OR ucast MIPS_CP0_LO_G_MASK) cpu;
               cpu = set_creg MIPS_CP0_TLB_LO_1
                       (creg cpu MIPS_CP0_TLB_LO_1 OR ucast MIPS_CP0_LO_G_MASK) cpu
           in set_creg MIPS_CP0_TLB_HI
                (creg cpu MIPS_CP0_TLB_HI AND NOT (ucast MIPS_TLB_G_MASK)) cpu)
           else cpu)
     else cpu)"

definition set_tlb_entry :: "nat \<Rightarrow> tlb_entry \<Rightarrow> 'm cpu_mips \<Rightarrow> 'm cpu_mips" where
  "set_tlb_entry i e cpu = cpu\<lparr>cp0 := (cp0 cpu)\<lparr>cp0_tlb := (cp0_tlb (cp0 cpu))(i := e)\<rparr>\<rparr>"

text \<open>The entry \<open>tlbw\<close> builds from the PageMask, EntryHi and EntryLo registers.\<close>

definition tlb_entry_of_regs :: "'m cpu_mips \<Rightarrow> tlb_entry" where
  "tlb_entry_of_regs cpu =
    (let mask = creg cpu MIPS_CP0_PAGEMASK AND ucast MIPS_TLB_PAGE_MASK;
         hi = creg cpu MIPS_CP0_TLB_HI AND NOT mask;
         hi = hi AND ucast MIPS_CP0_HI_SAFE_MASK;
         lo0 = creg cpu MIPS_CP0_TLB_LO_0;
         lo1 = creg cpu MIPS_CP0_TLB_LO_1;
         hi = (if (lo0 AND lo1) AND ucast MIPS_CP0_LO_G_MASK \<noteq> 0
               then hi OR ucast MIPS_TLB_G_MASK else hi)
     in \<lparr>te_mask = mask, te_hi = hi,
         te_lo0 = lo0 AND NOT (ucast MIPS_CP0_LO_G_MASK),
         te_lo1 = lo1 AND NOT (ucast MIPS_CP0_LO_G_MASK)\<rparr>)"

definition mips64_cp0_exec_tlbw :: "'m mips_ops \<Rightarrow> u32 \<Rightarrow> 'm cpu_mips \<Rightarrow> 'm cpu_mips" where
  "mips64_cp0_exec_tlbw ops index cpu =
    (if index < tlb_entries (cp0 cpu) then
       (let cpu = mips64_cp0_unmap_tlb_to_mts ops (unat index) cpu;
            cpu = set_tlb_entry (unat index) (tlb_entry_of_regs cpu) cpu
        in mips64_cp0_map_tlb_to_mts ops (unat index) cpu)
     else cpu)"

definition mips64_cp0_exec_tlbwi :: "'m mips_ops \<Rightarrow> 'm cpu_mips \<Rightarrow> 'm cpu_mips" where
  "mips64_cp0_exec_tlbwi ops cpu =
    mips64_cp0_exec_tlbw ops (ucast (creg cpu MIPS_CP0_INDEX)) cpu"

definition mips64_cp0_exec_tlbwr :: "'m mips_ops \<Rightarrow> 'm cpu_mips \<Rightarrow> 'm cpu_mips outcome" where
  "mips64_cp0_exec_tlbwr ops cpu =
    bind_out (mips64_cp0_get_random_reg cpu) (\<lambda>i. Inr (mips64_cp0_exec_tlbw ops i cpu))"

section \<open>Properties of the coprocessor\<close>

lemma random_reg_bounds:
  assumes "ucast (creg cpu MIPS_CP0_WIRED) < tlb_entries (cp0 cpu)"
  shows "\<exists>v. mips64_cp0_get_random_reg cpu = Inr v \<and>
    (ucast (creg cpu MIPS_CP0_WIRED) :: u32) \<le> v \<and> v < tlb_entries (cp0 cpu)"
proof -
  let ?w = "ucast (creg cpu MIPS_CP0_WIRED) :: u32" and ?n = "tlb_entries (cp0 cpu)"
  let ?r = "cp0_virt_cnt_reg cpu mod (?n - ?w)"
  have nz: "?n - ?w \<noteq> 0" using assms by auto
  have d: "unat (?n - ?w) = unat ?n - unat ?w"
    using assms by (simp add: unat_sub word_less_nat_alt word_le_nat_alt)
  have "unat ?r = unat (cp0_virt_cnt_reg cpu) mod unat (?n - ?w)"
    by (simp add: unat_mod_distrib)
  moreover have "0 < unat (?n - ?w)" using nz by (simp add: unat_gt_0)
  ultimately have r: "unat ?r < unat ?n - unat ?w" using d by simp
  have n: "unat ?n < 2 ^ 32" using unsigned_less [of ?n, where 'a = nat] by simp
  then have s: "unat (?w + ?r) = unat ?w + unat ?r"
    using r by (simp add: unat_word_ariths)
  have "?w \<le> ?w + ?r" "?w + ?r < ?n"
    using s r by (simp_all add: word_le_nat_alt word_less_nat_alt)
  then show ?thesis
    using nz by (simp add: mips64_cp0_get_random_reg_def Let_def)
qed

lemma random_reg_fault:
  "mips64_cp0_get_random_reg cpu = Inl Div_By_Zero \<longleftrightarrow>
    ucast (creg cpu MIPS_CP0_WIRED) = tlb_entries (cp0 cpu)"
  by (auto simp: mips64_cp0_get_random_reg_def Let_def)

lemma map_unmap_simps [simp]:
  "cp0 (mips64_cp0_map_tlb_to_mts ops i cpu) = cp0 cpu"
  "cp0 (mips64_cp0_unmap_tlb_to_mts ops i cpu) = cp0 cpu"
  "addr_mode (mips64_cp0_map_tlb_to_mts ops i cpu) = addr_mode cpu"
  "addr_mode (mips64_cp0_unmap_tlb_to_mts ops i cpu) = addr_mode cpu"
  "addr_bus_mask (mips64_cp0_map_tlb_to_mts ops i cpu) = addr_bus_mask cpu"
  "addr_bus_mask (mips64_cp0_unmap_tlb_to_mts ops i cpu) = addr_bus_mask cpu"
  by (simp_all add: mips64_cp0_map_tlb_to_mts_def mips64_cp0_unmap_tlb_to_mts_def Let_def)

lemma set_tlb_entry_simps [simp]:
  "cp0_reg (cp0 (set_tlb_entry i e cpu)) = cp0_reg (cp0 cpu)"
  "cp0_tlb (cp0 (set_tlb_entry i e cpu)) = (cp0_tlb (cp0 cpu))(i := e)"
  "tlb_entries (cp0 (set_tlb_entry i e cpu)) = tlb_entries (cp0 cpu)"
  "addr_mode (set_tlb_entry i e cpu) = addr_mode cpu"
  "addr_bus_mask (set_tlb_entry i e cpu) = addr_bus_mask cpu"
  by (simp_all add: set_tlb_entry_def)

lemma tlb_entry_of_regs_cong:
  "cp0_reg (cp0 c) = cp0_reg (cp0 d) \<Longrightarrow> tlb_entry_of_regs c = tlb_entry_of_regs d"
  by (simp add: tlb_entry_of_regs_def)

lemma tlbw_simps:
  "cp0_reg (cp0 (mips64_cp0_exec_tlbw ops i cpu)) = cp0_reg (cp0 cpu)"
  "tlb_entries (cp0 (mips64_cp0_exec_tlbw ops i cpu)) = tlb_entries (cp0 cpu)"
  "addr_mode (mips64_cp0_exec_tlbw ops i cpu) = addr_mode cpu"
  "addr_bus_mask (mips64_cp0_exec_tlbw ops i cpu) = addr_bus_mask cpu"
  "cp0_tlb (cp0 (mips64_cp0_exec_tlbw ops i cpu)) =
    (if i < tlb_entries (cp0 cpu) then (cp0_tlb (cp0 cpu))(unat i := tlb_entry_of_regs cpu)
     else cp0_tlb (cp0 cpu))"
  using tlb_entry_of_regs_cong [of "mips64_cp0_unmap_tlb_to_mts ops (unat i) cpu" cpu]
  by (simp_all add: mips64_cp0_exec_tlbw_def Let_def)

text \<open>C13: As long as fewer entries are wired than the TLB has, \<open>TLBWR\<close> succeeds, leaves every wired
  entry alone and writes the entry described by the registers into an unwired slot.\<close>

theorem tlbwr_keeps_wired:
  assumes "ucast (creg cpu MIPS_CP0_WIRED) < tlb_entries (cp0 cpu)"
  shows "\<exists>c. mips64_cp0_exec_tlbwr ops cpu = Inr c \<and>
    (\<forall>i < unat (ucast (creg cpu MIPS_CP0_WIRED) :: u32). cp0_tlb (cp0 c) i = cp0_tlb (cp0 cpu) i) \<and>
    (\<exists>i < unat (tlb_entries (cp0 cpu)). cp0_tlb (cp0 c) i = tlb_entry_of_regs cpu)"
proof -
  obtain v where v: "mips64_cp0_get_random_reg cpu = Inr v"
    "(ucast (creg cpu MIPS_CP0_WIRED) :: u32) \<le> v" "v < tlb_entries (cp0 cpu)"
    using random_reg_bounds [OF assms] by blast
  show ?thesis
    using v by (auto simp: mips64_cp0_exec_tlbwr_def tlbw_simps word_le_nat_alt word_less_nat_alt
        intro!: exI [of _ "unat v"])
qed

lemma count_read:
  "mips64_cp0_get_reg_fast cpu MIPS_CP0_COUNT =
   Inr (sign_extend (ucast (ucast (creg cpu MIPS_CP0_COMPARE) -
     clock_divisor cpu * (cp0_virt_cmp_reg cpu - cp0_virt_cnt_reg cpu) :: u32)) 32)"
  by (simp add: mips64_cp0_get_reg_fast_def Let_def)

text \<open>A write to the Count register is read back with an error smaller than the clock divisor
  (the divisor grid is anchored at Compare), and each executed instruction advances the value
  read by exactly the divisor.\<close>

theorem count_write_read:
  assumes "clock_divisor cpu \<noteq> 0"
  shows "\<exists>c. mips64_cp0_set_reg MIPS_CP0_COUNT v cpu = Inr c \<and>
    mips64_cp0_get_reg_fast c MIPS_CP0_COUNT = Inr (sign_extend (ucast
      (ucast v + (ucast (creg cpu MIPS_CP0_COMPARE) - ucast v) mod clock_divisor cpu :: u32)) 32) \<and>
    mips64_cp0_get_reg_fast (mips64_exec_inc_cp0_cnt c) MIPS_CP0_COUNT = Inr (sign_extend (ucast
      (ucast v + (ucast (creg cpu MIPS_CP0_COMPARE) - ucast v) mod clock_divisor cpu
        + clock_divisor cpu :: u32)) 32)"
proof -
  let ?c = "ucast (creg cpu MIPS_CP0_COMPARE) :: u32" and ?d = "clock_divisor cpu" and ?v = "ucast v :: u32"
  let ?delta = "?c - ?v"
  have u: "(ucast (a - b) :: u32) = ucast a - ucast b" for a b :: u64
    by (simp add: ucast32_diff) 
  have ne: "MIPS_CP0_COMPARE \<noteq> MIPS_CP0_COUNT" "MIPS_CP0_COUNT \<noteq> MIPS_CP0_COMPARE"
    "MIPS_CP0_COUNT \<noteq> MIPS_CP0_STATUS" "MIPS_CP0_COUNT \<noteq> MIPS_CP0_CAUSE" "MIPS_CP0_COUNT \<noteq> MIPS_CP0_PAGEMASK"
    by (simp_all add: cp0_numbers)
  define c where "c = (set_creg MIPS_CP0_COUNT v cpu)\<lparr>cp0_virt_cnt_reg := 0, cp0_virt_cmp_reg := ?delta div ?d\<rparr>"
  have s: "mips64_cp0_set_reg MIPS_CP0_COUNT v cpu = Inr c"
    using assms ne by (simp add: mips64_cp0_set_reg_def restart_clock_def Let_def c_def u)
  have dm: "?d * (?delta div ?d) + ?delta mod ?d = ?delta"
    using word_mod_div_equality [of ?delta ?d] by (simp add: mult.commute)
  then have "?c - ?d * (?delta div ?d) = ?v + ?delta mod ?d"
    by (simp add: algebra_simps)
  moreover have "?c - ?d * (?delta div ?d - 1) = ?v + ?delta mod ?d + ?d"
    using dm by (simp add: algebra_simps)
  ultimately show ?thesis
    using s ne by (simp add: count_read c_def mips64_exec_inc_cp0_cnt_def)
qed


lemma tlb_masks [word_bits]:
  "bit MIPS_TLB_G_MASK n \<longleftrightarrow> n = 12" "bit MIPS_CP0_LO_G_MASK n \<longleftrightarrow> n = 0"
  "bit MIPS_TLB_V_MASK n \<longleftrightarrow> n = 1"
  by (rule bit_pow2_u32; simp add: MIPS_TLB_G_MASK_def MIPS_CP0_LO_G_MASK_def MIPS_TLB_V_MASK_def)+

lemma bit_page_mask: "bit MIPS_TLB_PAGE_MASK n \<longleftrightarrow> 13 \<le> n \<and> n < 25"
proof -
  have m: "MIPS_TLB_PAGE_MASK = push_bit 13 (mask 12)"
    by (simp add: mask_eq_exp_minus_1 push_bit_eq_mult MIPS_TLB_PAGE_MASK_def)
  show ?thesis unfolding m bit_push_bit_iff bit_mask_iff by auto
qed

lemma bit_asid_mask: "bit MIPS_TLB_ASID_MASK n \<longleftrightarrow> n < 8"
proof -
  have m: "MIPS_TLB_ASID_MASK = mask 8" by (simp add: mask_eq_exp_minus_1 MIPS_TLB_ASID_MASK_def)
  show ?thesis unfolding m bit_mask_iff by auto
qed

lemma bit_hi_safe: "bit MIPS_CP0_HI_SAFE_MASK n \<longleftrightarrow> n < 8 \<or> 13 \<le> n \<and> n < 32"
proof -
  have m: "MIPS_CP0_HI_SAFE_MASK = mask 8 OR push_bit 13 (mask 19)"
    by (simp add: mask_eq_exp_minus_1 push_bit_eq_mult MIPS_CP0_HI_SAFE_MASK_def)
  show ?thesis unfolding m bit_or_iff bit_push_bit_iff bit_mask_iff by auto
qed

lemma bit_vpn2_32: "bit MIPS_TLB_VPN2_MASK_32 n \<longleftrightarrow> 13 \<le> n \<and> n < 32"
proof -
  have m: "MIPS_TLB_VPN2_MASK_32 = push_bit 13 (mask 19)"
    by (simp add: mask_eq_exp_minus_1 push_bit_eq_mult MIPS_TLB_VPN2_MASK_32_def)
  show ?thesis unfolding m bit_push_bit_iff bit_mask_iff by auto
qed

lemma and_g_mask:
  "(x :: u64) AND ucast MIPS_TLB_G_MASK = 0 \<longleftrightarrow> \<not> bit x 12"
  "(x :: u64) AND ucast MIPS_CP0_LO_G_MASK = 0 \<longleftrightarrow> \<not> bit x 0"
  "(x :: u64) AND ucast MIPS_TLB_V_MASK = 0 \<longleftrightarrow> \<not> bit x 1"
  using and_pow2_eq_0 [of x 12] and_pow2_eq_0 [of x 0] and_pow2_eq_0 [of x 1]
  by (simp_all add: MIPS_TLB_G_MASK_def MIPS_CP0_LO_G_MASK_def MIPS_TLB_V_MASK_def)

lemma entry_hi_bit:
  "bit (te_hi (tlb_entry_of_regs cpu)) n \<longleftrightarrow>
    (if n = 12 then bit (creg cpu MIPS_CP0_TLB_LO_0) 0 \<and> bit (creg cpu MIPS_CP0_TLB_LO_1) 0
     else (n < 8 \<or> 13 \<le> n \<and> n < 32) \<and> bit (creg cpu MIPS_CP0_TLB_HI) n \<and>
       \<not> (13 \<le> n \<and> n < 25 \<and> bit (creg cpu MIPS_CP0_PAGEMASK) n))"
  by (cases "n < 64")
    (auto simp: tlb_entry_of_regs_def Let_def and_g_mask bit_and_iff bit_or_iff bit_not_iff
      bit_ucast_iff tlb_masks bit_page_mask bit_hi_safe dest: bit_imp_le_length)

lemma cp0_tlb_distinct:
  "MIPS_CP0_PAGEMASK \<noteq> MIPS_CP0_TLB_HI" "MIPS_CP0_PAGEMASK \<noteq> MIPS_CP0_TLB_LO_0"
  "MIPS_CP0_PAGEMASK \<noteq> MIPS_CP0_TLB_LO_1" "MIPS_CP0_TLB_HI \<noteq> MIPS_CP0_TLB_LO_0"
  "MIPS_CP0_TLB_HI \<noteq> MIPS_CP0_TLB_LO_1" "MIPS_CP0_TLB_LO_0 \<noteq> MIPS_CP0_TLB_LO_1"
  "MIPS_CP0_INDEX \<noteq> MIPS_CP0_PAGEMASK" "MIPS_CP0_INDEX \<noteq> MIPS_CP0_TLB_HI"
  "MIPS_CP0_INDEX \<noteq> MIPS_CP0_TLB_LO_0" "MIPS_CP0_INDEX \<noteq> MIPS_CP0_TLB_LO_1"
  by (simp_all add: cp0_numbers)

lemma tlbr_regs:
  assumes "(ucast (creg cpu MIPS_CP0_INDEX) :: u32) < tlb_entries (cp0 cpu)"
  shows "let e = cp0_tlb (cp0 cpu) (unat (ucast (creg cpu MIPS_CP0_INDEX) :: u32));
      c = mips64_cp0_exec_tlbr cpu;
      g = (if bit (te_hi e) 12 then ucast MIPS_CP0_LO_G_MASK else 0)
    in creg c MIPS_CP0_PAGEMASK = te_mask e \<and>
       creg c MIPS_CP0_TLB_HI = te_hi e AND NOT (ucast MIPS_TLB_G_MASK) \<and>
       creg c MIPS_CP0_TLB_LO_0 = te_lo0 e OR g \<and>
       creg c MIPS_CP0_TLB_LO_1 = te_lo1 e OR g"
proof -
  have n: "x AND NOT (ucast MIPS_TLB_G_MASK) = x" if "\<not> bit x 12" for x :: u64
    using that by (auto intro!: bit_word_eqI simp: bit_and_iff bit_not_iff bit_ucast_iff tlb_masks)
  show ?thesis
    using assms
    by (simp add: mips64_cp0_exec_tlbr_def Let_def and_g_mask n cp0_tlb_distinct cp0_tlb_distinct [symmetric])
qed

text \<open>C12: \<open>TLBWI\<close> followed by \<open>TLBR\<close> reads back the page mask and the two EntryLo registers as
  written, the global bit being the conjunction of the two written ones, and EntryHi without the
  bits under the page mask, the reserved bits and the upper word.\<close>

theorem tlbwi_tlbr_round_trip:
  fixes ops :: "'m mips_ops"
  assumes "(ucast (creg cpu MIPS_CP0_INDEX) :: u32) < tlb_entries (cp0 cpu)"
  shows "let c = mips64_cp0_exec_tlbr (mips64_cp0_exec_tlbwi ops cpu);
      pm = creg cpu MIPS_CP0_PAGEMASK AND 0x01ffe000;
      g = creg cpu MIPS_CP0_TLB_LO_0 AND creg cpu MIPS_CP0_TLB_LO_1 AND 1
    in creg c MIPS_CP0_PAGEMASK = pm \<and>
       creg c MIPS_CP0_TLB_HI = creg cpu MIPS_CP0_TLB_HI AND NOT pm AND 0xffffe0ff \<and>
       creg c MIPS_CP0_TLB_LO_0 = (creg cpu MIPS_CP0_TLB_LO_0 AND NOT 1) OR g \<and>
       creg c MIPS_CP0_TLB_LO_1 = (creg cpu MIPS_CP0_TLB_LO_1 AND NOT 1) OR g"
proof -
  let ?w = "mips64_cp0_exec_tlbwi ops cpu" and ?e = "tlb_entry_of_regs cpu"
  have idx: "(ucast (creg ?w MIPS_CP0_INDEX) :: u32) < tlb_entries (cp0 ?w)"
    "cp0_tlb (cp0 ?w) (unat (ucast (creg ?w MIPS_CP0_INDEX) :: u32)) = ?e"
    using assms by (simp_all add: mips64_cp0_exec_tlbwi_def tlbw_simps)
  have g: "(if bit (te_hi ?e) 12 then ucast MIPS_CP0_LO_G_MASK else 0) =
      creg cpu MIPS_CP0_TLB_LO_0 AND creg cpu MIPS_CP0_TLB_LO_1 AND 1"
    by (auto intro!: bit_word_eqI simp: entry_hi_bit bit_and_iff bit_ucast_iff tlb_masks bit_1_iff)
  have lo: "te_mask ?e = creg cpu MIPS_CP0_PAGEMASK AND 0x01ffe000"
    "te_lo0 ?e = creg cpu MIPS_CP0_TLB_LO_0 AND NOT 1" "te_lo1 ?e = creg cpu MIPS_CP0_TLB_LO_1 AND NOT 1"
    by (simp_all add: tlb_entry_of_regs_def Let_def MIPS_TLB_PAGE_MASK_def MIPS_CP0_LO_G_MASK_def)
  have pm: "(0x01ffe000 :: u64) = ucast MIPS_TLB_PAGE_MASK" "(0xffffe0ff :: u64) = ucast MIPS_CP0_HI_SAFE_MASK"
    by (simp_all add: MIPS_TLB_PAGE_MASK_def MIPS_CP0_HI_SAFE_MASK_def)
  have hi: "te_hi ?e AND NOT (ucast MIPS_TLB_G_MASK) =
      creg cpu MIPS_CP0_TLB_HI AND NOT (creg cpu MIPS_CP0_PAGEMASK AND 0x01ffe000) AND 0xffffe0ff"
    unfolding pm
    by (rule bit_word_eqI) (auto simp: entry_hi_bit bit_and_iff bit_or_iff bit_not_iff bit_ucast_iff tlb_masks
        bit_page_mask bit_hi_safe)
  show ?thesis
    using tlbr_regs [OF idx(1)] unfolding Let_def idx(2) g hi lo by simp
qed


lemma tlb_lookup_loop_skip:
  "\<forall>j\<in>set js. \<not> tlb_entry_matches cpu vaddr (cp0_tlb (cp0 cpu) j) \<Longrightarrow>
   tlb_lookup_loop cpu vaddr (js @ is) = tlb_lookup_loop cpu vaddr is"
  by (induction js) auto

lemma tlb_lookup_first:
  assumes "i < unat (tlb_entries (cp0 cpu))"
    and "tlb_entry_matches cpu vaddr (cp0_tlb (cp0 cpu) i)"
    and "\<And>j. j < i \<Longrightarrow> \<not> tlb_entry_matches cpu vaddr (cp0_tlb (cp0 cpu) j)"
  shows "mips64_cp0_tlb_lookup cpu vaddr = tlb_translate cpu vaddr (cp0_tlb (cp0 cpu) i) i"
proof -
  have "[0..<unat (tlb_entries (cp0 cpu))] = [0..<i] @ i # [Suc i..<unat (tlb_entries (cp0 cpu))]"
    using assms(1) by (metis upt_add_eq_append upt_conv_Cons le_add_diff_inverse less_imp_le zero_le)
  then show ?thesis
    using assms(2,3) by (simp add: mips64_cp0_tlb_lookup_def tlb_lookup_loop_skip)
qed

lemma tlb_lookup_none:
  assumes "\<And>j. j < unat (tlb_entries (cp0 cpu)) \<Longrightarrow> \<not> tlb_entry_matches cpu vaddr (cp0_tlb (cp0 cpu) j)"
  shows "mips64_cp0_tlb_lookup cpu vaddr = None"
  using tlb_lookup_loop_skip [of "[0..<unat (tlb_entries (cp0 cpu))]" cpu vaddr "[]"] assms
  by (simp add: mips64_cp0_tlb_lookup_def)

lemma tlb_entry_matches_cong:
  assumes "cp0_reg (cp0 c) = cp0_reg (cp0 d)" "addr_mode c = addr_mode d"
  shows "tlb_entry_matches c vaddr e = tlb_entry_matches d vaddr e"
  using assms by (simp add: tlb_entry_matches_def mips64_cp0_get_vpn2_mask_def)

lemma new_entry_matches_4k:
  assumes "creg cpu MIPS_CP0_PAGEMASK AND 0x01ffe000 = 0" "addr_mode cpu \<noteq> 64"
    and "vaddr AND 0xffffe000 = creg cpu MIPS_CP0_TLB_HI AND 0xffffe000"
  shows "tlb_entry_matches cpu vaddr (tlb_entry_of_regs cpu)"
proof -
  let ?e = "tlb_entry_of_regs cpu"
  have vm: "(0xffffe000 :: u64) = MIPS_TLB_VPN2_MASK_32" by (simp add: MIPS_TLB_VPN2_MASK_32_def)
  have m0: "te_mask ?e = 0"
    using assms(1) by (simp add: tlb_entry_of_regs_def Let_def MIPS_TLB_PAGE_MASK_def)
  have pm: "\<not> bit (creg cpu MIPS_CP0_PAGEMASK) n" if "13 \<le> n" "n < 25" for n
  proof
    assume b: "bit (creg cpu MIPS_CP0_PAGEMASK) n"
    have "bit (creg cpu MIPS_CP0_PAGEMASK AND ucast MIPS_TLB_PAGE_MASK) n"
      using b that by (simp add: bit_and_iff bit_ucast_iff bit_page_mask)
    then show False using assms(1) by (simp add: MIPS_TLB_PAGE_MASK_def)
  qed
  have eq: "bit vaddr n = bit (creg cpu MIPS_CP0_TLB_HI) n" if "13 \<le> n" "n < 32" for n
  proof -
    have "bit (vaddr AND MIPS_TLB_VPN2_MASK_32) n = bit (creg cpu MIPS_CP0_TLB_HI AND MIPS_TLB_VPN2_MASK_32) n"
      using assms(3) unfolding vm by simp
    then show ?thesis using that by (simp add: bit_and_iff bit_vpn2_32)
  qed
  have ps: "(0x1FFF :: u64) = mask 13" by (simp add: mask_eq_exp_minus_1)
  have "vaddr AND MIPS_TLB_VPN2_MASK_32 AND NOT (0 + 0x1FFF) = te_hi ?e AND MIPS_TLB_VPN2_MASK_32"
    unfolding ps
    by (rule bit_word_eqI) (auto simp: bit_and_iff bit_not_iff bit_mask_iff bit_vpn2_32 entry_hi_bit eq pm)
  moreover have "te_hi ?e AND ucast MIPS_TLB_ASID_MASK = creg cpu MIPS_CP0_TLB_HI AND ucast MIPS_TLB_ASID_MASK"
    by (rule bit_word_eqI) (auto simp: bit_and_iff bit_ucast_iff bit_asid_mask entry_hi_bit)
  moreover have "ucast (ucast (x AND ucast MIPS_TLB_ASID_MASK) :: u32) = x AND ucast MIPS_TLB_ASID_MASK" for x :: u64
    by (rule bit_word_eqI) (auto simp: bit_and_iff bit_ucast_iff bit_asid_mask)
  ultimately show ?thesis
    using assms(2)
    by (simp add: tlb_entry_matches_def Let_def mips64_cp0_get_vpn2_mask_def m0 and.assoc)
qed

text \<open>C11: After \<open>TLBWI\<close> has written a 4 KB-page entry, a 32-bit address of that page pair is
  translated to the page frame of the half it lies in, with its page offset, when that half is
  valid, and to a miss when it is not, provided no entry below the written one matches.\<close>

theorem tlbwi_lookup_4k:
  fixes ops :: "'m mips_ops"
  assumes "(ucast (creg cpu MIPS_CP0_INDEX) :: u32) < tlb_entries (cp0 cpu)"
    and "creg cpu MIPS_CP0_PAGEMASK AND 0x01ffe000 = 0" "addr_mode cpu \<noteq> 64"
    and "vaddr AND 0xffffe000 = creg cpu MIPS_CP0_TLB_HI AND 0xffffe000"
    and "\<And>j. j < unat (ucast (creg cpu MIPS_CP0_INDEX) :: u32) \<Longrightarrow>
           \<not> tlb_entry_matches cpu vaddr (cp0_tlb (cp0 cpu) j)"
  shows "let lo = creg cpu (if bit vaddr 12 then MIPS_CP0_TLB_LO_1 else MIPS_CP0_TLB_LO_0);
             r = mips64_cp0_tlb_lookup (mips64_cp0_exec_tlbwi ops cpu) vaddr
    in if bit lo 1
       then r \<noteq> None \<and> mm_paddr (the r) = push_bit 6 (lo AND 0x3fffffc0) AND addr_bus_mask cpu \<and>
         mm_vaddr (the r) = vaddr AND NOT 0xfff \<and> mm_offset (the r) = ucast (vaddr AND 0xfff) \<and>
         mm_tlb_index (the r) = unat (ucast (creg cpu MIPS_CP0_INDEX) :: u32)
       else r = None"
proof -
  let ?i = "ucast (creg cpu MIPS_CP0_INDEX) :: u32"
  let ?w = "mips64_cp0_exec_tlbwi ops cpu" and ?e = "tlb_entry_of_regs cpu"
  have w: "cp0_reg (cp0 ?w) = cp0_reg (cp0 cpu)" "addr_mode ?w = addr_mode cpu"
    "tlb_entries (cp0 ?w) = tlb_entries (cp0 cpu)" "addr_bus_mask ?w = addr_bus_mask cpu"
    "cp0_tlb (cp0 ?w) = (cp0_tlb (cp0 cpu))(unat ?i := ?e)"
    using assms(1) by (simp_all add: mips64_cp0_exec_tlbwi_def tlbw_simps)
  have lookup: "mips64_cp0_tlb_lookup ?w vaddr = tlb_translate ?w vaddr ?e (unat ?i)"
  proof (subst tlb_lookup_first [of "unat ?i"])
    show "unat ?i < unat (tlb_entries (cp0 ?w))" using assms(1) w(3) by (simp add: word_less_nat_alt)
    show "tlb_entry_matches ?w vaddr (cp0_tlb (cp0 ?w) (unat ?i))"
      using new_entry_matches_4k [OF assms(2-4)] tlb_entry_matches_cong [OF w(1,2)] by (simp add: w(5))
    show "\<not> tlb_entry_matches ?w vaddr (cp0_tlb (cp0 ?w) j)" if "j < unat ?i" for j
      using assms(5) [OF that] that tlb_entry_matches_cong [OF w(1,2)] by (simp add: w(5))
  qed (simp add: w(5))
  have m0: "te_mask ?e = 0"
    using assms(2) by (simp add: tlb_entry_of_regs_def Let_def MIPS_TLB_PAGE_MASK_def)
  have ps: "get_page_size (ucast (te_mask ?e)) = 0x1000"
    by (simp add: m0 get_page_size_def)
  have b12: "vaddr AND 0x1000 = 0 \<longleftrightarrow> \<not> bit vaddr 12" using and_pow2_eq_0 [of vaddr 12] by simp
  have lo: "te_lo0 ?e = creg cpu MIPS_CP0_TLB_LO_0 AND NOT 1" "te_lo1 ?e = creg cpu MIPS_CP0_TLB_LO_1 AND NOT 1"
    by (simp_all add: tlb_entry_of_regs_def Let_def MIPS_CP0_LO_G_MASK_def)
  have v: "(x AND NOT 1) AND ucast MIPS_TLB_V_MASK = 0 \<longleftrightarrow> \<not> bit x 1" for x :: u64
    by (simp add: and_g_mask bit_and_iff bit_not_iff)
  have p: "(x AND NOT 1) AND ucast MIPS_TLB_PFN_MASK = x AND 0x3fffffc0" for x :: u64
    by (simp add: MIPS_TLB_PFN_MASK_def and.assoc)
  have z: "vaddr AND MIPS_MIN_PAGE_MASK AND 0xfff = 0"
    by (simp add: MIPS_MIN_PAGE_MASK_def and.assoc)
  have n: "MIPS_MIN_PAGE_MASK = NOT 0xfff" by (simp add: MIPS_MIN_PAGE_MASK_def)
  have o: "(ucast MIPS_MIN_PAGE_IMASK :: u64) = 0xfff" by (simp add: MIPS_MIN_PAGE_IMASK_def)
  have h: "mm_vaddr (tlb_half_map ?w vaddr (x AND NOT 1) 0x1000 i) = vaddr AND NOT 0xfff"
    "mm_paddr (tlb_half_map ?w vaddr (x AND NOT 1) 0x1000 i) = push_bit 6 (x AND 0x3fffffc0) AND addr_bus_mask cpu"
    "mm_offset (tlb_half_map ?w vaddr (x AND NOT 1) 0x1000 i) = ucast (vaddr AND 0xfff)"
    "mm_tlb_index (tlb_half_map ?w vaddr (x AND NOT 1) 0x1000 i) = i" for x i
    unfolding tlb_half_map_def Let_def p w(4) o n mts_map_res.simps
    using z by (simp_all only: n) (simp_all add: and.assoc)
  show ?thesis
    unfolding lookup tlb_translate_def Let_def ps lo
    by (cases "bit vaddr 12") (simp_all add: b12 h [simplified] v [simplified])
qed


definition tlbp_hit :: "'m cpu_mips \<Rightarrow> nat \<Rightarrow> bool" where
  "tlbp_hit cpu i \<longleftrightarrow> (let e = cp0_tlb (cp0 cpu) i; m = mips64_cp0_get_vpn2_mask cpu
     in te_hi e AND m = creg cpu MIPS_CP0_TLB_HI AND m \<and>
        (bit (te_hi e) 12 \<or> te_hi e AND 0xff = creg cpu MIPS_CP0_TLB_HI AND 0xff))"

lemma set_creg_twice [simp]: "set_creg r a (set_creg r b cpu) = set_creg r a cpu"
  by (simp add: set_creg_def)

lemma vpn2_mask_set_creg [simp]: "mips64_cp0_get_vpn2_mask (set_creg r v cpu) = mips64_cp0_get_vpn2_mask cpu"
  by (simp add: mips64_cp0_get_vpn2_mask_def)

lemma fold_set_index:
  assumes "\<And>i v. Q i (set_creg r v cpu) = P i"
  shows "fold (\<lambda>i c. if Q i c then set_creg r (f i) c else c) xs (set_creg r v cpu) =
    set_creg r (if filter P xs = [] then v else f (last (filter P xs))) cpu"
  by (induction xs arbitrary: v) (simp_all add: assms)

text \<open>\<open>TLBP\<close> leaves in Index the number of the last entry whose VPN2 equals that of EntryHi
  and which is global or has the current ASID, and the miss marker when there is none; nothing else
  of the CPU changes.\<close>

theorem tlbp_result:
  "mips64_cp0_exec_tlbp cpu =
    (let hits = filter (tlbp_hit cpu) [0..<unat (tlb_entries (cp0 cpu))]
     in set_creg MIPS_CP0_INDEX (if hits = [] then 0xffffffff80000000 else of_nat (last hits)) cpu)"
  unfolding mips64_cp0_exec_tlbp_def Let_def set_creg_simps
  by (subst fold_set_index [where P = "tlbp_hit cpu"])
    (simp_all add: tlbp_hit_def Let_def and_g_mask MIPS_TLB_ASID_MASK_def)

definition sample_ops :: "unit mips_ops" where
  "sample_ops = \<lparr>mem_op_fn = (\<lambda>_ _ _ c. ret0 c), mem_op_lookup = (\<lambda>_ c. Inr (c, Some 0)),
     host_insn = (\<lambda>_ _ _. 0), mts_map = (\<lambda>_ _ _ _ _ m. m), mts_unmap = (\<lambda>_ _ _ m. m),
     mts_set_addr_mode = (\<lambda>_ c. c), mts_rebuild = (\<lambda>c. c), jit_flush = (\<lambda>c. c)\<rparr>"

theorem tlbwr_keeps_wired_witness:
  "\<exists>c. mips64_cp0_exec_tlbwr sample_ops (set_creg MIPS_CP0_WIRED 8 sample_cpu) = Inr c \<and>
     (\<forall>i<8. cp0_tlb (cp0 c) i = cp0_tlb (cp0 sample_cpu) i)"
  using tlbwr_keeps_wired [of "set_creg MIPS_CP0_WIRED 8 sample_cpu" sample_ops]
  by (auto simp: sample_cpu_simps)

theorem count_write_read_witness:
  "\<exists>c. mips64_cp0_set_reg MIPS_CP0_COUNT 10 (set_creg MIPS_CP0_COMPARE 1001 sample_cpu) = Inr c \<and>
     mips64_cp0_get_reg_fast c MIPS_CP0_COUNT = Inr 13"
  using count_write_read [of "set_creg MIPS_CP0_COMPARE 1001 sample_cpu" 10]
  by (auto simp: sample_cpu_simps sign_extend_def)

theorem tlbwi_tlbr_round_trip_witness:
  "let cpu = set_creg MIPS_CP0_TLB_HI 0x12007 (set_creg MIPS_CP0_INDEX 5 sample_cpu)
   in creg (mips64_cp0_exec_tlbr (mips64_cp0_exec_tlbwi sample_ops cpu)) MIPS_CP0_TLB_HI = 0x12007"
proof -
  have "creg sample_cpu MIPS_CP0_PAGEMASK = 0" by (simp add: sample_cpu_def cp0_numbers)
  then show ?thesis
    using tlbwi_tlbr_round_trip [of "set_creg MIPS_CP0_TLB_HI 0x12007 (set_creg MIPS_CP0_INDEX 5 sample_cpu)" sample_ops]
    by (simp add: Let_def sample_cpu_simps cp0_tlb_distinct cp0_tlb_distinct [symmetric])
qed

theorem tlbwi_lookup_4k_witness:
  "let cpu = set_creg MIPS_CP0_TLB_LO_1 0x42 (set_creg MIPS_CP0_TLB_HI 0x12007 sample_cpu);
       r = mips64_cp0_tlb_lookup (mips64_cp0_exec_tlbwi sample_ops cpu) 0x13abc
   in r \<noteq> None \<and> mm_paddr (the r) = 0x1000 \<and> mm_offset (the r) = 0xabc"
proof -
  have z: "creg sample_cpu MIPS_CP0_PAGEMASK = 0" "creg sample_cpu MIPS_CP0_INDEX = 0"
    "addr_bus_mask sample_cpu = -1"
    by (simp_all add: sample_cpu_def cp0_numbers)
  show ?thesis
    using tlbwi_lookup_4k [of "set_creg MIPS_CP0_TLB_LO_1 0x42 (set_creg MIPS_CP0_TLB_HI 0x12007 sample_cpu)" "0x13abc" sample_ops]
    by (simp add: Let_def sample_cpu_simps z cp0_tlb_distinct cp0_tlb_distinct [symmetric])
qed

end
