(* ===== verification/Insn_Lookup.thy ===== *)
theory Insn_Lookup
  imports Hash
begin

text \<open>
  The instruction lookup tables of \<open>common/insn_lookup.c\<close>: Recursive Flow Classification
  applied to 32-bit opcodes.  Phase 0 classifies each 16-bit half by the set (class bitmap)
  of rules it satisfies, phase 1 combines the classes of the two halves, and a
  postprocessing replaces each combined class by its first rule.  The theory shows that a
  lookup in the compiled table is the first rule, in table order, whose two half-word checks
  accept the opcode.  Counts are natural numbers: the products the C code computes in
  \<open>int\<close> are taken not to overflow (a few hundred classes per half in practice).
\<close>

section \<open>Class bitmaps\<close>

definition CBM_SHIFT :: nat where "CBM_SHIFT = 5"
definition CBM_SIZE :: nat where "CBM_SIZE = 32"
definition CBM_HASH_SIZE :: int where "CBM_HASH_SIZE = 256"
definition RFC_ARRAY_MAXSIZE :: nat where "RFC_ARRAY_MAXSIZE = 65536"

type_synonym cbm = "u32 list"

text \<open>Little-endian bytes of the array, as \<open>cbm_hash_f\<close> walks them.\<close>

definition cbm_bytes :: "cbm \<Rightarrow> bytes" where
  "cbm_bytes cbm = concat (map (\<lambda>w. [ucast w, ucast (drop_bit 8 w), ucast (drop_bit 16 w), ucast (drop_bit 24 w)]) cbm)"

definition cbm_hash_f :: "cbm \<Rightarrow> u32" where
  "cbm_hash_f cbm = foldl str_hash_step 0 (cbm_bytes cbm)"

definition cbm_cmp_f :: "cbm \<Rightarrow> cbm \<Rightarrow> bool" where
  "cbm_cmp_f cbm1 cbm2 \<longleftrightarrow> (\<forall>i\<in>set [0..<length cbm1]. cbm1 ! i = cbm2 ! i)"

definition rule_bit :: "nat \<Rightarrow> u32" where
  "rule_bit rule_id = push_bit (rule_id mod CBM_SIZE) 1"

definition cbm_set_rule :: "cbm \<Rightarrow> nat \<Rightarrow> cbm" where
  "cbm_set_rule cbm rule_id =
     cbm[drop_bit CBM_SHIFT rule_id := cbm ! drop_bit CBM_SHIFT rule_id OR rule_bit rule_id]"

definition cbm_unset_rule :: "cbm \<Rightarrow> nat \<Rightarrow> cbm" where
  "cbm_unset_rule cbm rule_id =
     cbm[drop_bit CBM_SHIFT rule_id := cbm ! drop_bit CBM_SHIFT rule_id AND NOT (rule_bit rule_id)]"

definition cbm_check_rule :: "cbm \<Rightarrow> nat \<Rightarrow> bool" where
  "cbm_check_rule cbm rule_id \<longleftrightarrow> cbm ! drop_bit CBM_SHIFT rule_id AND rule_bit rule_id \<noteq> 0"

definition cbm_bitwise_and :: "cbm \<Rightarrow> cbm \<Rightarrow> cbm" where
  "cbm_bitwise_and a1 a2 = map2 (AND) a1 a2"

section \<open>Tables\<close>

record rfc_array =
  nr_elements :: nat
  nr_eqid :: nat
  cbm_hash :: "(cbm, nat) hash_table"
  id2cbm :: "nat \<Rightarrow> cbm option"
  eqID :: "nat \<Rightarrow> int"

text \<open>
  \<open>chk_lo i v\<close> and \<open>chk_hi i v\<close> are the callbacks on rule \<open>get_insn(i)\<close>; \<open>rfct\<close> is the array
  of the three RFC tables.
\<close>

record insn_lookup =
  crc32_insn :: u32
  nr_insn :: nat
  cbm_size :: nat
  chk_lo :: "nat \<Rightarrow> u32 \<Rightarrow> bool"
  chk_hi :: "nat \<Rightarrow> u32 \<Rightarrow> bool"
  rfct :: "nat \<Rightarrow> rfc_array option"

definition cbm_first_match :: "insn_lookup \<Rightarrow> cbm \<Rightarrow> int" where
  "cbm_first_match ilt cbm =
     (case List.find (cbm_check_rule cbm) [0..<nr_insn ilt] of Some i \<Rightarrow> int i | None \<Rightarrow> -1)"

definition cbm_create :: "insn_lookup \<Rightarrow> cbm" where
  "cbm_create ilt = replicate (cbm_size ilt) 0"

text \<open>The class of a bitmap; a new one is numbered and entered in both directions.\<close>

definition cbm_get_eqclass :: "rfc_array \<Rightarrow> cbm \<Rightarrow> (nat \<times> rfc_array) outcome" where
  "cbm_get_eqclass a cbm =
     (case hash_table_lookup (cbm_hash a) cbm of
        Some e \<Rightarrow> Inr (e, a)
      | None \<Rightarrow>
          if \<not> nr_eqid a < nr_elements a then Inl Assert_Failed
          else (let e = nr_eqid a
                in Inr (e, a\<lparr>nr_eqid := e + 1, id2cbm := (id2cbm a)(e \<mapsto> cbm),
                            cbm_hash := hash_table_insert (cbm_hash a) cbm e\<rparr>)))"

definition rfc_alloc_array :: "nat \<Rightarrow> rfc_array outcome" where
  "rfc_alloc_array n =
     (case hash_table_create (Some cbm_hash_f) cbm_cmp_f CBM_HASH_SIZE of
        None \<Rightarrow> Inl Assert_Failed
      | Some ht \<Rightarrow> Inr \<lparr>nr_elements = n, nr_eqid = 0, cbm_hash = ht, id2cbm = Map.empty, eqID = (\<lambda>_. 0)\<rparr>)"

definition rfc_check_insn :: "insn_lookup \<Rightarrow> (nat \<Rightarrow> u32 \<Rightarrow> bool) \<Rightarrow> u32 \<Rightarrow> cbm \<Rightarrow> cbm" where
  "rfc_check_insn ilt pcheck value cbm =
     fold (\<lambda>i cbm. if pcheck i value then cbm_set_rule cbm i else cbm_unset_rule cbm i) [0..<nr_insn ilt] cbm"

text \<open>Phase 0: one class per 16-bit value; the temporary bitmap is reused.\<close>

fun rfc_phase_0_loop :: "insn_lookup \<Rightarrow> (nat \<Rightarrow> u32 \<Rightarrow> bool) \<Rightarrow> nat list \<Rightarrow> cbm \<Rightarrow> rfc_array \<Rightarrow> rfc_array outcome" where
  "rfc_phase_0_loop ilt pcheck [] bmp a = Inr a"
| "rfc_phase_0_loop ilt pcheck (i # is) bmp a =
     (let bmp = rfc_check_insn ilt pcheck (of_nat i) bmp
      in bind_out (cbm_get_eqclass a bmp) (\<lambda>(e, a).
           rfc_phase_0_loop ilt pcheck is bmp (a\<lparr>eqID := (eqID a)(i := int e)\<rparr>)))"

definition rfc_phase_0 :: "insn_lookup \<Rightarrow> (nat \<Rightarrow> u32 \<Rightarrow> bool) \<Rightarrow> rfc_array outcome" where
  "rfc_phase_0 ilt pcheck =
     bind_out (rfc_alloc_array RFC_ARRAY_MAXSIZE)
       (rfc_phase_0_loop ilt pcheck [0..<RFC_ARRAY_MAXSIZE] (cbm_create ilt))"

text \<open>Phase j: the cross product of the classes of two tables.\<close>

fun rfc_phase_j_loop :: "rfc_array \<Rightarrow> rfc_array \<Rightarrow> (nat \<times> nat) list \<Rightarrow> nat \<Rightarrow> rfc_array \<Rightarrow> rfc_array outcome" where
  "rfc_phase_j_loop p0 p1 [] index a = Inr a"
| "rfc_phase_j_loop p0 p1 ((i, j) # ijs) index a =
     (case (id2cbm p0 i, id2cbm p1 j) of
        (Some b0, Some b1) \<Rightarrow>
          bind_out (cbm_get_eqclass a (cbm_bitwise_and b0 b1)) (\<lambda>(e, a).
            rfc_phase_j_loop p0 p1 ijs (index + 1) (a\<lparr>eqID := (eqID a)(index := int e)\<rparr>))
      | _ \<Rightarrow> Inl Null_Deref)"

definition rfc_phase_j :: "insn_lookup \<Rightarrow> rfc_array \<Rightarrow> rfc_array \<Rightarrow> rfc_array outcome" where
  "rfc_phase_j ilt p0 p1 =
     bind_out (rfc_alloc_array (nr_eqid p0 * nr_eqid p1))
       (rfc_phase_j_loop p0 p1 (List.product [0..<nr_eqid p0] [0..<nr_eqid p1]) 0)"

definition ilt_phase_0 :: "nat \<Rightarrow> (nat \<Rightarrow> u32 \<Rightarrow> bool) \<Rightarrow> insn_lookup \<Rightarrow> insn_lookup outcome" where
  "ilt_phase_0 idx pcheck ilt =
     bind_out (rfc_phase_0 ilt pcheck) (\<lambda>a. Inr (ilt\<lparr>rfct := (rfct ilt)(idx \<mapsto> a)\<rparr>))"

definition ilt_phase_j :: "nat \<Rightarrow> nat \<Rightarrow> nat \<Rightarrow> insn_lookup \<Rightarrow> insn_lookup outcome" where
  "ilt_phase_j p0 p1 res ilt =
     (case (rfct ilt p0, rfct ilt p1) of
        (Some a0, Some a1) \<Rightarrow>
          bind_out (rfc_phase_j ilt a0 a1) (\<lambda>a. Inr (ilt\<lparr>rfct := (rfct ilt)(res \<mapsto> a)\<rparr>))
      | _ \<Rightarrow> Inl Null_Deref)"

fun postprocessing_loop :: "insn_lookup \<Rightarrow> nat list \<Rightarrow> rfc_array \<Rightarrow> rfc_array outcome" where
  "postprocessing_loop ilt [] a = Inr a"
| "postprocessing_loop ilt (i # is) a =
     (case id2cbm a (nat (eqID a i)) of
        None \<Rightarrow> Inl Null_Deref
      | Some b \<Rightarrow> postprocessing_loop ilt is (a\<lparr>eqID := (eqID a)(i := cbm_first_match ilt b)\<rparr>))"

definition ilt_postprocessing :: "insn_lookup \<Rightarrow> insn_lookup outcome" where
  "ilt_postprocessing ilt =
     (case rfct ilt 2 of None \<Rightarrow> Inl Null_Deref
      | Some a \<Rightarrow> bind_out (postprocessing_loop ilt [0..<nr_elements a] a)
          (\<lambda>a. Inr (ilt\<lparr>rfct := (rfct ilt)(2 \<mapsto> a)\<rparr>)))"

definition ilt_compile :: "insn_lookup \<Rightarrow> insn_lookup outcome" where
  "ilt_compile ilt =
     bind_out (ilt_phase_0 0 (chk_hi ilt) ilt) (\<lambda>ilt.
     bind_out (ilt_phase_0 1 (chk_lo ilt) ilt) (\<lambda>ilt.
     bind_out (ilt_phase_j 0 1 2 ilt) ilt_postprocessing))"

text \<open>
  \<open>cache\<close> is the answer of \<open>ilt_cache_load\<close>: a table read from the disk, or none.
\<close>

definition ilt_create ::
  "insn_lookup option \<Rightarrow> u32 \<Rightarrow> nat \<Rightarrow> (nat \<Rightarrow> u32 \<Rightarrow> bool) \<Rightarrow> (nat \<Rightarrow> u32 \<Rightarrow> bool) \<Rightarrow> insn_lookup outcome" where
  "ilt_create cache crc n lo_check hi_check =
     (let csize = unat (normalize_size (of_nat n) (of_nat CBM_SIZE) CBM_SHIFT);
          build = ilt_compile \<lparr>crc32_insn = crc, nr_insn = n, cbm_size = csize,
                               chk_lo = lo_check, chk_hi = hi_check, rfct = Map.empty\<rparr>
      in case cache of
           None \<Rightarrow> build
         | Some ilt \<Rightarrow>
             if crc32_insn ilt = crc \<and> nr_insn ilt = n \<and> cbm_size ilt = csize
             then Inr (ilt\<lparr>chk_lo := lo_check, chk_hi := hi_check\<rparr>)
             else build)"

definition ilt_get_index :: "rfc_array \<Rightarrow> rfc_array \<Rightarrow> nat \<Rightarrow> nat \<Rightarrow> int" where
  "ilt_get_index a1 a2 i1 i2 = eqID a1 i1 * int (nr_eqid a2) + eqID a2 i2"

definition ilt_lookup :: "insn_lookup \<Rightarrow> u32 \<Rightarrow> int outcome" where
  "ilt_lookup ilt insn =
     (case (rfct ilt 0, rfct ilt 1, rfct ilt 2) of
        (Some a0, Some a1, Some a2) \<Rightarrow>
          Inr (eqID a2 (nat (ilt_get_index a0 a1 (unat (drop_bit 16 insn)) (unat (insn AND 0xFFFF)))))
      | _ \<Rightarrow> Inl Null_Deref)"

section \<open>Bitmaps as sets of rules\<close>

lemma word_of_rule: "drop_bit CBM_SHIFT (r :: nat) = r div 32"
  by (simp add: CBM_SHIFT_def drop_bit_eq_div)

lemma bit_rule_bit: "bit (rule_bit r) n \<longleftrightarrow> n = r mod 32"
  by (auto simp: rule_bit_def CBM_SIZE_def bit_push_bit_iff bit_1_iff simp del: push_bit_of_1)

lemma check_rule_bit: "cbm_check_rule cbm r \<longleftrightarrow> bit (cbm ! (r div 32)) (r mod 32)"
proof -
  have "rule_bit r = 2 ^ (r mod 32)" by (simp add: rule_bit_def CBM_SIZE_def push_bit_of_1)
  then show ?thesis by (simp add: cbm_check_rule_def word_of_rule and_pow2_eq_0)
qed

lemma same_rule: "(r :: nat) div 32 = s div 32 \<Longrightarrow> r mod 32 = s mod 32 \<Longrightarrow> r = s"
  by (metis div_mult_mod_eq)

lemma check_set_rule:
  assumes "r div 32 < length cbm"
  shows "cbm_check_rule (cbm_set_rule cbm r) s \<longleftrightarrow> s = r \<or> cbm_check_rule cbm s"
    and "cbm_check_rule (cbm_unset_rule cbm r) s \<longleftrightarrow> s \<noteq> r \<and> cbm_check_rule cbm s"
proof -
  have s: "cbm[r div 32 := x] ! (s div 32) = (if s div 32 = r div 32 then x else cbm ! (s div 32))" for x
    using assms by (auto simp: nth_list_update)
  have m: "s mod 32 < 32" by simp
  show "cbm_check_rule (cbm_set_rule cbm r) s \<longleftrightarrow> s = r \<or> cbm_check_rule cbm s"
    unfolding check_rule_bit cbm_set_rule_def word_of_rule s
    using same_rule [of s r] by (cases "s = r"; cases "s div 32 = r div 32") (auto simp: bit_or_iff bit_rule_bit)
  show "cbm_check_rule (cbm_unset_rule cbm r) s \<longleftrightarrow> s \<noteq> r \<and> cbm_check_rule cbm s"
    unfolding check_rule_bit cbm_unset_rule_def word_of_rule s
    using same_rule [of s r]
    by (cases "s = r"; cases "s div 32 = r div 32")
      (auto simp: bit_and_iff bit_not_iff bit_rule_bit)
qed

lemma length_set_rule [simp]:
  "length (cbm_set_rule cbm r) = length cbm" "length (cbm_unset_rule cbm r) = length cbm"
  by (simp_all add: cbm_set_rule_def cbm_unset_rule_def)

lemma check_fold:
  assumes "distinct is" "\<forall>i\<in>set is. i div 32 < length cbm"
  shows "length (fold (\<lambda>i cbm. if P i then cbm_set_rule cbm i else cbm_unset_rule cbm i) is cbm) = length cbm \<and>
    (\<forall>s. cbm_check_rule (fold (\<lambda>i cbm. if P i then cbm_set_rule cbm i else cbm_unset_rule cbm i) is cbm) s
      = (if s \<in> set is then P s else cbm_check_rule cbm s))"
  using assms
proof (induction "is" arbitrary: cbm)
  case (Cons i "is")
  let ?c = "if P i then cbm_set_rule cbm i else cbm_unset_rule cbm i"
  have "length ?c = length cbm" by simp
  moreover have "cbm_check_rule ?c s = (if s = i then P i else cbm_check_rule cbm s)" for s
    using Cons.prems by (auto simp: check_set_rule)
  ultimately show ?case using Cons.IH [of ?c] Cons.prems by auto
qed simp

lemma rfc_check_insn_spec:
  assumes "nr_insn ilt \<le> 32 * length cbm"
  shows "length (rfc_check_insn ilt p v cbm) = length cbm"
    and "s < nr_insn ilt \<Longrightarrow> cbm_check_rule (rfc_check_insn ilt p v cbm) s = p s v"
  using check_fold [of "[0..<nr_insn ilt]" cbm "\<lambda>i. p i v"] assms
  by (auto simp: rfc_check_insn_def less_mult_imp_div_less mult.commute)

lemma check_bitwise_and:
  assumes "length a = length b" "s div 32 < length a"
  shows "cbm_check_rule (cbm_bitwise_and a b) s \<longleftrightarrow> cbm_check_rule a s \<and> cbm_check_rule b s"
  using assms by (simp add: check_rule_bit cbm_bitwise_and_def bit_and_iff)

section \<open>Equivalence classes\<close>

lemma cbm_cmp_eq: "length a = length b \<Longrightarrow> cbm_cmp_f a b \<longleftrightarrow> a = b"
  by (auto simp: cbm_cmp_f_def intro: nth_equalityI)

interpretation cbm_keys: hash_keys cbm_hash_f cbm_cmp_f "\<lambda>k. length k = n" for n
  by unfold_locales (simp_all add: cbm_cmp_eq)

definition rfc_ok :: "nat \<Rightarrow> rfc_array \<Rightarrow> bool" where
  "rfc_ok n a \<longleftrightarrow> cbm_keys.ht_inv n (cbm_hash a) \<and>
     (\<forall>k e. length k = n \<longrightarrow>
        (hash_table_lookup (cbm_hash a) k = Some e \<longleftrightarrow> e < nr_eqid a \<and> id2cbm a e = Some k)) \<and>
     (\<forall>e < nr_eqid a. \<exists>k. id2cbm a e = Some k \<and> length k = n)"

lemma rfc_ok_class: "rfc_ok n a \<Longrightarrow> e < nr_eqid a \<Longrightarrow> \<exists>k. id2cbm a e = Some k \<and> length k = n"
  by (simp add: rfc_ok_def)

text \<open>What an extension of a table keeps.\<close>

definition rfc_extends :: "rfc_array \<Rightarrow> rfc_array \<Rightarrow> bool" where
  "rfc_extends a a' \<longleftrightarrow> nr_elements a' = nr_elements a \<and> nr_eqid a \<le> nr_eqid a' \<and>
     (\<forall>d < nr_eqid a. id2cbm a' d = id2cbm a d)"

lemma rfc_extends_refl [simp]: "rfc_extends a a"
  by (simp add: rfc_extends_def)

lemma rfc_extends_trans: "rfc_extends a b \<Longrightarrow> rfc_extends b c \<Longrightarrow> rfc_extends a c"
  by (auto simp: rfc_extends_def)

lemma rfc_extends_eqID [simp]:
  "rfc_extends (a\<lparr>eqID := f\<rparr>) b = rfc_extends a b" "rfc_extends b (a\<lparr>eqID := f\<rparr>) = rfc_extends b a"
  "rfc_ok n (a\<lparr>eqID := f\<rparr>) = rfc_ok n a"
  by (simp_all add: rfc_extends_def rfc_ok_def)

lemma get_eqclass_ok:
  assumes ok: "rfc_ok n a" and len: "length cbm = n" and room: "nr_eqid a < nr_elements a"
  obtains e a' where "cbm_get_eqclass a cbm = Inr (e, a')" "rfc_ok n a'" "rfc_extends a a'"
    "e < nr_eqid a'" "id2cbm a' e = Some cbm" "nr_eqid a' \<le> nr_eqid a + 1" "eqID a' = eqID a"
proof (cases "hash_table_lookup (cbm_hash a) cbm")
  case (Some e)
  then have "e < nr_eqid a" "id2cbm a e = Some cbm" using ok len by (auto simp: rfc_ok_def)
  then show thesis using Some ok that [of e a] by (simp add: cbm_get_eqclass_def)
next
  case None
  let ?e = "nr_eqid a"
  let ?h = "hash_table_insert (cbm_hash a) cbm ?e"
  let ?a = "a\<lparr>nr_eqid := ?e + 1, id2cbm := (id2cbm a)(?e \<mapsto> cbm), cbm_hash := ?h\<rparr>"
  have inv: "cbm_keys.ht_inv n (cbm_hash a)" using ok by (simp add: rfc_ok_def)
  have look: "hash_table_lookup ?h k = (if cbm = k then Some ?e else hash_table_lookup (cbm_hash a) k)"
    if "length k = n" for k
    using cbm_keys.lookup_insert [OF inv len that] that len by (simp add: cbm_cmp_eq)
  have old: "hash_table_lookup (cbm_hash a) k = Some e \<longleftrightarrow> e < ?e \<and> id2cbm a e = Some k"
    if "length k = n" for k e
    using ok that by (simp add: rfc_ok_def)
  have notin: "id2cbm a e \<noteq> Some cbm" if "e < ?e" for e
    using old [OF len, of e] None that by auto
  have "rfc_ok n ?a"
    unfolding rfc_ok_def
  proof (intro conjI allI impI)
    show "cbm_keys.ht_inv n (cbm_hash ?a)" using cbm_keys.insert_inv [OF inv len] by simp
    fix k :: cbm and e assume k: "length k = n"
    show "hash_table_lookup (cbm_hash ?a) k = Some e \<longleftrightarrow> e < nr_eqid ?a \<and> id2cbm ?a e = Some k"
      using look [OF k] old [OF k, of e] notin by (auto simp: less_Suc_eq)
  next
    fix e assume "e < nr_eqid ?a"
    then show "\<exists>k. id2cbm ?a e = Some k \<and> length k = n"
      using ok len by (auto simp: rfc_ok_def less_Suc_eq)
  qed
  moreover have "cbm_get_eqclass a cbm = Inr (?e, ?a)"
    using None room by (simp add: cbm_get_eqclass_def Let_def)
  ultimately show thesis using that [of ?e ?a] by (simp add: rfc_extends_def)
qed

lemma alloc_ok:
  obtains a where "rfc_alloc_array m = Inr a" "rfc_ok n a" "nr_elements a = m" "nr_eqid a = 0"
proof -
  obtain ht :: "(cbm, nat) hash_table" where "hash_table_create (Some cbm_hash_f) cbm_cmp_f CBM_HASH_SIZE = Some ht"
    "cbm_keys.ht_inv n ht" "\<And>k. hash_table_lookup ht k = None"
    using cbm_keys.create_inv [of CBM_HASH_SIZE n] by (auto simp: CBM_HASH_SIZE_def)
  then show thesis
    using that [of "\<lparr>nr_elements = m, nr_eqid = 0, cbm_hash = ht, id2cbm = Map.empty, eqID = (\<lambda>_. 0)\<rparr>"]
    by (simp add: rfc_alloc_array_def rfc_ok_def)
qed

text \<open>Entry \<open>i\<close> of a table is the class of bitmap \<open>b\<close>.\<close>

definition class_at :: "rfc_array \<Rightarrow> nat \<Rightarrow> cbm \<Rightarrow> bool" where
  "class_at a i b \<longleftrightarrow> (\<exists>e. eqID a i = int e \<and> e < nr_eqid a \<and> id2cbm a e = Some b)"

lemma class_at_extends:
  "class_at a i b \<Longrightarrow> rfc_extends a a' \<Longrightarrow> eqID a' i = eqID a i \<Longrightarrow> class_at a' i b"
  unfolding class_at_def rfc_extends_def by (metis order_less_le_trans)

lemma phase_0_loop_ok:
  assumes "rfc_ok n a" "length bmp = n" "nr_insn ilt \<le> 32 * n" "distinct is"
    "nr_eqid a + length is \<le> nr_elements a"
  shows "\<exists>a'. rfc_phase_0_loop ilt p is bmp a = Inr a' \<and> rfc_ok n a' \<and> rfc_extends a a' \<and>
    (\<forall>i. i \<notin> set is \<longrightarrow> eqID a' i = eqID a i) \<and>
    (\<forall>i \<in> set is. \<exists>b. class_at a' i b \<and> length b = n \<and>
       (\<forall>s < nr_insn ilt. cbm_check_rule b s = p s (of_nat i)))"
  using assms
proof (induction "is" arbitrary: a bmp)
  case (Cons i "is")
  let ?b = "rfc_check_insn ilt p (of_nat i) bmp"
  have b: "length ?b = n" "\<And>s. s < nr_insn ilt \<Longrightarrow> cbm_check_rule ?b s = p s (of_nat i)"
    using rfc_check_insn_spec [of ilt bmp] Cons.prems(2,3) by simp_all
  obtain e a1 where e: "cbm_get_eqclass a ?b = Inr (e, a1)" "rfc_ok n a1" "rfc_extends a a1"
    "e < nr_eqid a1" "id2cbm a1 e = Some ?b" "nr_eqid a1 \<le> nr_eqid a + 1" "eqID a1 = eqID a"
    using get_eqclass_ok [OF Cons.prems(1) b(1)] Cons.prems(5) by auto
  let ?a = "a1\<lparr>eqID := (eqID a1)(i := int e)\<rparr>"
  have "nr_eqid ?a + length is \<le> nr_elements ?a"
    using Cons.prems(5) e(3,6) by (simp add: rfc_extends_def)
  then obtain a' where a': "rfc_phase_0_loop ilt p is ?b ?a = Inr a'" "rfc_ok n a'" "rfc_extends ?a a'"
    "\<forall>j. j \<notin> set is \<longrightarrow> eqID a' j = eqID ?a j"
    "\<forall>j \<in> set is. \<exists>b. class_at a' j b \<and> length b = n \<and>
       (\<forall>s < nr_insn ilt. cbm_check_rule b s = p s (of_nat j))"
    using Cons.IH [of ?a ?b] Cons.prems b(1) e(2) by auto
  have "class_at ?a i ?b" using e by (auto simp: class_at_def)
  then have "class_at a' i ?b"
    using class_at_extends [OF _ a'(3)] a'(4) Cons.prems(4) by simp
  then show ?case
    using a' e b Cons.prems(4) rfc_extends_trans [of a a1 a'] by auto
qed auto

lemma phase_j_loop_ok:
  assumes "rfc_ok n a" "nr_eqid a + length ijs \<le> nr_elements a" "rfc_ok n p0" "rfc_ok n p1"
    "\<forall>(i, j) \<in> set ijs. i < nr_eqid p0 \<and> j < nr_eqid p1"
  shows "\<exists>a'. rfc_phase_j_loop p0 p1 ijs index a = Inr a' \<and> rfc_ok n a' \<and> rfc_extends a a' \<and>
    (\<forall>i < index. eqID a' i = eqID a i) \<and>
    (\<forall>k < length ijs. class_at a' (index + k)
       (cbm_bitwise_and (the (id2cbm p0 (fst (ijs ! k)))) (the (id2cbm p1 (snd (ijs ! k))))))"
  using assms
proof (induction ijs arbitrary: a index)
  case (Cons ij ijs)
  obtain i j where ij: "ij = (i, j)" by (cases ij)
  obtain b0 b1 where b: "id2cbm p0 i = Some b0" "id2cbm p1 j = Some b1" "length b0 = n" "length b1 = n"
    using rfc_ok_class [OF Cons.prems(3), of i] rfc_ok_class [OF Cons.prems(4), of j] Cons.prems(5) ij
    by auto
  let ?b = "cbm_bitwise_and b0 b1"
  have lb: "length ?b = n" using b by (simp add: cbm_bitwise_and_def)
  obtain e a1 where e: "cbm_get_eqclass a ?b = Inr (e, a1)" "rfc_ok n a1" "rfc_extends a a1"
    "e < nr_eqid a1" "id2cbm a1 e = Some ?b" "nr_eqid a1 \<le> nr_eqid a + 1" "eqID a1 = eqID a"
    using get_eqclass_ok [OF Cons.prems(1) lb] Cons.prems(2) by auto
  let ?a = "a1\<lparr>eqID := (eqID a1)(index := int e)\<rparr>"
  have "nr_eqid ?a + length ijs \<le> nr_elements ?a"
    using Cons.prems(2) e(3,6) by (simp add: rfc_extends_def)
  then obtain a' where a': "rfc_phase_j_loop p0 p1 ijs (index + 1) ?a = Inr a'" "rfc_ok n a'" "rfc_extends ?a a'"
    "\<forall>i < index + 1. eqID a' i = eqID ?a i"
    "\<forall>k < length ijs. class_at a' (index + 1 + k)
       (cbm_bitwise_and (the (id2cbm p0 (fst (ijs ! k)))) (the (id2cbm p1 (snd (ijs ! k)))))"
    using Cons.IH [of ?a "index + 1"] Cons.prems e(2) by auto
  have "class_at ?a index ?b" using e by (auto simp: class_at_def)
  then have at: "class_at a' index ?b"
    using class_at_extends [OF _ a'(3)] a'(4) by simp
  have "class_at a' (index + k) (cbm_bitwise_and (the (id2cbm p0 (fst ((ij # ijs) ! k))))
      (the (id2cbm p1 (snd ((ij # ijs) ! k)))))" if "k < length (ij # ijs)" for k
    using that a'(5) at b ij by (cases k) auto
  then show ?case
    using a' e b ij rfc_extends_trans [of a a1 a'] by auto
qed auto

lemma postprocessing_loop_ok:
  assumes "distinct is" "\<forall>i \<in> set is. class_at a i (B i)"
  shows "\<exists>a'. postprocessing_loop ilt is a = Inr a' \<and>
    (\<forall>i. eqID a' i = (if i \<in> set is then cbm_first_match ilt (B i) else eqID a i))"
  using assms
proof (induction "is" arbitrary: a)
  case (Cons i "is")
  let ?a = "a\<lparr>eqID := (eqID a)(i := cbm_first_match ilt (B i))\<rparr>"
  have "id2cbm a (nat (eqID a i)) = Some (B i)" using Cons.prems(2) by (auto simp: class_at_def)
  moreover have "\<forall>j \<in> set is. class_at ?a j (B j)"
  proof
    fix j assume "j \<in> set is"
    then have "j \<noteq> i" "class_at a j (B j)" using Cons.prems by auto
    then show "class_at ?a j (B j)" by (simp add: class_at_def)
  qed
  then obtain a' where "postprocessing_loop ilt is ?a = Inr a'"
    "\<forall>j. eqID a' j = (if j \<in> set is then cbm_first_match ilt (B j) else eqID ?a j)"
    using Cons.IH [of ?a] Cons.prems(1) by auto
  ultimately show ?case using Cons.prems(1) by auto
qed auto


section \<open>Lookup is first match\<close>

definition first_rule :: "nat \<Rightarrow> (nat \<Rightarrow> bool) \<Rightarrow> int" where
  "first_rule n P = (case List.find P [0..<n] of Some i \<Rightarrow> int i | None \<Rightarrow> -1)"

lemma first_rule_cong: "(\<And>i. i < n \<Longrightarrow> P i = Q i) \<Longrightarrow> first_rule n P = first_rule n Q"
  unfolding first_rule_def by (metis (no_types, lifting) atLeastLessThan_iff find_cong set_upt)

lemma cbm_first_match_rule: "cbm_first_match ilt b = first_rule (nr_insn ilt) (cbm_check_rule b)"
  by (simp add: cbm_first_match_def first_rule_def)

lemma normalize_size_words:
  assumes "n < 2 ^ 31"
  shows "unat (normalize_size (of_nat n) (of_nat CBM_SIZE) CBM_SHIFT) = (n + 31) div 32"
proof -
  have d: "drop_bit 5 (x AND NOT 31) = drop_bit 5 x" for x :: u32
  proof -
    have m: "(31 :: u32) = mask 5" by (simp add: mask_eq_exp_minus_1)
    show ?thesis unfolding m
      by (rule bit_word_eqI) (auto simp: bit_drop_bit_eq bit_and_iff bit_not_iff bit_mask_iff dest: bit_imp_le_length)
  qed
  have "(of_nat n + of_nat CBM_SIZE - 1 :: u32) = of_nat (n + 31)" by (simp add: CBM_SIZE_def)
  moreover have "unat (of_nat (n + 31) :: u32) = n + 31"
    by (subst unsigned_of_nat) (use assms in \<open>simp add: take_bit_nat_eq_self\<close>)
  ultimately have e: "unat (of_nat n + of_nat CBM_SIZE - 1 :: u32) = n + 31" by (simp add: add.commute)
  have "normalize_size (of_nat n) (of_nat CBM_SIZE) CBM_SHIFT = drop_bit 5 (of_nat n + of_nat CBM_SIZE - 1)"
    using d [of "of_nat n + of_nat CBM_SIZE - 1"]
    by (simp only: normalize_size_def CBM_SHIFT_def) (simp add: CBM_SIZE_def)
  then show ?thesis
    by (simp only: unat_drop_bit_eq e) (simp add: drop_bit_eq_div)
qed

lemma rfc_phase_0_ok:
  assumes "nr_insn ilt \<le> 32 * cbm_size ilt"
  obtains a where "rfc_phase_0 ilt p = Inr a" "rfc_ok (cbm_size ilt) a"
    "\<And>i. i < 65536 \<Longrightarrow> \<exists>b. class_at a i b \<and> length b = cbm_size ilt \<and>
       (\<forall>s < nr_insn ilt. cbm_check_rule b s = p s (of_nat i))"
proof -
  obtain a0 where a0: "rfc_alloc_array RFC_ARRAY_MAXSIZE = Inr a0" "rfc_ok (cbm_size ilt) a0"
    "nr_elements a0 = RFC_ARRAY_MAXSIZE" "nr_eqid a0 = 0"
    using alloc_ok by blast
  have "length (cbm_create ilt) = cbm_size ilt" by (simp add: cbm_create_def)
  from phase_0_loop_ok [OF a0(2) this assms, of "[0..<RFC_ARRAY_MAXSIZE]" p]
  obtain a where "rfc_phase_0_loop ilt p [0..<RFC_ARRAY_MAXSIZE] (cbm_create ilt) a0 = Inr a"
    "rfc_ok (cbm_size ilt) a"
    "\<forall>i \<in> set [0..<RFC_ARRAY_MAXSIZE]. \<exists>b. class_at a i b \<and> length b = cbm_size ilt \<and>
       (\<forall>s < nr_insn ilt. cbm_check_rule b s = p s (of_nat i))"
    using a0 by auto
  then show thesis using that [of a] a0(1) by (simp add: rfc_phase_0_def RFC_ARRAY_MAXSIZE_def)
qed

lemma rfc_phase_j_ok:
  assumes "rfc_ok n p0" "rfc_ok n p1"
  obtains a where "rfc_phase_j ilt p0 p1 = Inr a" "nr_elements a = nr_eqid p0 * nr_eqid p1"
    "\<And>i j. i < nr_eqid p0 \<Longrightarrow> j < nr_eqid p1 \<Longrightarrow> class_at a (i * nr_eqid p1 + j)
       (cbm_bitwise_and (the (id2cbm p0 i)) (the (id2cbm p1 j)))"
proof -
  let ?m0 = "nr_eqid p0" and ?m1 = "nr_eqid p1"
  let ?ijs = "List.product [0..<?m0] [0..<?m1]"
  obtain a0 where a0: "rfc_alloc_array (?m0 * ?m1) = Inr a0" "rfc_ok n a0"
    "nr_elements a0 = ?m0 * ?m1" "nr_eqid a0 = 0"
    using alloc_ok by blast
  have "nr_eqid a0 + length ?ijs \<le> nr_elements a0" using a0 by (simp add: length_product)
  from phase_j_loop_ok [OF a0(2) this assms, of 0]
  obtain a where a: "rfc_phase_j_loop p0 p1 ?ijs 0 a0 = Inr a" "rfc_extends a0 a"
    "\<forall>k < length ?ijs. class_at a k
       (cbm_bitwise_and (the (id2cbm p0 (fst (?ijs ! k)))) (the (id2cbm p1 (snd (?ijs ! k)))))"
    by auto
  have "class_at a (i * ?m1 + j) (cbm_bitwise_and (the (id2cbm p0 i)) (the (id2cbm p1 j)))"
    if "i < ?m0" "j < ?m1" for i j
  proof -
    have "i * ?m1 + j < (i + 1) * ?m1" using that(2) by simp
    also have "\<dots> \<le> ?m0 * ?m1" using that(1) by (intro mult_right_mono) auto
    finally have k: "i * ?m1 + j < length ?ijs" by (simp add: length_product)
    then have "?ijs ! (i * ?m1 + j) = (i, j)"
      using that by (simp add: product_nth)
    then show ?thesis using a(3) k by force
  qed
  then show thesis
    using that [of a] a0 a by (simp add: rfc_phase_j_def rfc_extends_def)
qed

lemma ilt_compile_first_match:
  assumes size: "nr_insn ilt0 \<le> 32 * cbm_size ilt0"
  obtains ilt where "ilt_compile ilt0 = Inr ilt"
    "\<And>insn. ilt_lookup ilt insn =
       Inr (first_rule (nr_insn ilt0) (\<lambda>i. chk_hi ilt0 i (drop_bit 16 insn) \<and> chk_lo ilt0 i (insn AND 0xFFFF)))"
proof -
  let ?n = "cbm_size ilt0"
  obtain a0 where a0: "rfc_phase_0 ilt0 (chk_hi ilt0) = Inr a0" "rfc_ok ?n a0"
    "\<And>i. i < 65536 \<Longrightarrow> \<exists>b. class_at a0 i b \<and> length b = ?n \<and>
       (\<forall>s < nr_insn ilt0. cbm_check_rule b s = chk_hi ilt0 s (of_nat i))"
    using rfc_phase_0_ok [OF size] by blast
  let ?ilt1 = "ilt0\<lparr>rfct := (rfct ilt0)(0 \<mapsto> a0)\<rparr>"
  obtain a1 where a1: "rfc_phase_0 ?ilt1 (chk_lo ilt0) = Inr a1" "rfc_ok ?n a1"
    "\<And>i. i < 65536 \<Longrightarrow> \<exists>b. class_at a1 i b \<and> length b = ?n \<and>
       (\<forall>s < nr_insn ilt0. cbm_check_rule b s = chk_lo ilt0 s (of_nat i))"
    using rfc_phase_0_ok [of ?ilt1 "chk_lo ilt0"] size by auto
  let ?ilt2 = "?ilt1\<lparr>rfct := (rfct ?ilt1)(1 \<mapsto> a1)\<rparr>"
  obtain a2 where a2: "rfc_phase_j ?ilt2 a0 a1 = Inr a2" "nr_elements a2 = nr_eqid a0 * nr_eqid a1"
    "\<And>i j. i < nr_eqid a0 \<Longrightarrow> j < nr_eqid a1 \<Longrightarrow> class_at a2 (i * nr_eqid a1 + j)
       (cbm_bitwise_and (the (id2cbm a0 i)) (the (id2cbm a1 j)))"
    using rfc_phase_j_ok [OF a0(2) a1(2)] by blast
  let ?ilt3 = "?ilt2\<lparr>rfct := (rfct ?ilt2)(2 \<mapsto> a2)\<rparr>"
  define B where "B k = cbm_bitwise_and (the (id2cbm a0 (k div nr_eqid a1))) (the (id2cbm a1 (k mod nr_eqid a1)))" for k
  have B: "class_at a2 k (B k)" if "k < nr_elements a2" for k
  proof -
    have m: "0 < nr_eqid a1" using that a2(2) by (cases "nr_eqid a1") auto
    have "k div nr_eqid a1 < nr_eqid a0" using that a2(2) by (simp add: less_mult_imp_div_less)
    moreover have "k mod nr_eqid a1 < nr_eqid a1" using m by simp
    ultimately have "class_at a2 (k div nr_eqid a1 * nr_eqid a1 + k mod nr_eqid a1) (B k)"
      using a2(3) unfolding B_def by blast
    then show ?thesis by simp
  qed
  then obtain a3 where a3: "postprocessing_loop ?ilt3 [0..<nr_elements a2] a2 = Inr a3"
    "\<And>i. i < nr_elements a2 \<Longrightarrow> eqID a3 i = cbm_first_match ?ilt3 (B i)"
    using postprocessing_loop_ok [of "[0..<nr_elements a2]" a2 B ?ilt3] by auto
  let ?ilt = "?ilt3\<lparr>rfct := (rfct ?ilt3)(2 \<mapsto> a3)\<rparr>"
  have comp: "ilt_compile ilt0 = Inr ?ilt"
    using a0(1) a1(1) a2(1) a3(1)
    by (simp add: ilt_compile_def ilt_phase_0_def ilt_phase_j_def ilt_postprocessing_def)
  have "ilt_lookup ?ilt insn = Inr (first_rule (nr_insn ilt0)
      (\<lambda>i. chk_hi ilt0 i (drop_bit 16 insn) \<and> chk_lo ilt0 i (insn AND 0xFFFF)))" for insn
  proof -
    have i0: "unat (drop_bit 16 insn) < 65536"
    proof -
      have "unat (drop_bit 16 insn) = unat insn div 2 ^ 16" by (subst unat_drop_bit_eq) (simp add: drop_bit_eq_div)
      then show ?thesis using unsigned_less [of insn, where 'a = nat] by simp
    qed
    have i1: "unat (insn AND 0xFFFF) < 65536"
    proof -
      have "insn AND 0xFFFF \<le> 0xFFFF" by (rule word_and_le1)
      then show ?thesis by (simp add: word_le_nat_alt)
    qed
    obtain b0 e0 where b0: "eqID a0 (unat (drop_bit 16 insn)) = int e0" "e0 < nr_eqid a0"
      "id2cbm a0 e0 = Some b0" "length b0 = ?n"
      "\<forall>s < nr_insn ilt0. cbm_check_rule b0 s = chk_hi ilt0 s (drop_bit 16 insn)"
      using a0(3) [OF i0] unfolding class_at_def by auto
    obtain b1 e1 where b1: "eqID a1 (unat (insn AND 0xFFFF)) = int e1" "e1 < nr_eqid a1"
      "id2cbm a1 e1 = Some b1" "length b1 = ?n"
      "\<forall>s < nr_insn ilt0. cbm_check_rule b1 s = chk_lo ilt0 s (insn AND 0xFFFF)"
      using a1(3) [OF i1] unfolding class_at_def by auto
    let ?k = "e0 * nr_eqid a1 + e1"
    have "?k < (e0 + 1) * nr_eqid a1" using b1(2) by simp
    also have "\<dots> \<le> nr_eqid a0 * nr_eqid a1" using b0(2) by (intro mult_right_mono) auto
    finally have k: "?k < nr_elements a2" by (simp add: a2(2))
    have Bk: "B ?k = cbm_bitwise_and b0 b1" using b0(3) b1(2,3) by (simp add: B_def)
    have "nat (ilt_get_index a0 a1 (unat (drop_bit 16 insn)) (unat (insn AND 0xFFFF))) = ?k"
      by (simp add: ilt_get_index_def b0(1) b1(1) nat_add_distrib nat_mult_distrib)
    then have "ilt_lookup ?ilt insn = Inr (cbm_first_match ?ilt3 (B ?k))"
      using a3(2) [OF k] by (simp add: ilt_lookup_def)
    also have "cbm_first_match ?ilt3 (B ?k) = first_rule (nr_insn ilt0)
        (\<lambda>i. chk_hi ilt0 i (drop_bit 16 insn) \<and> chk_lo ilt0 i (insn AND 0xFFFF))"
      unfolding cbm_first_match_rule Bk
      using b0(4,5) b1(4,5) size
      by (auto intro!: first_rule_cong simp: check_bitwise_and less_mult_imp_div_less mult.commute)
    finally show ?thesis .
  qed
  then show thesis using comp that by blast
qed

lemma ilt_compiled:
  assumes "n < 2 ^ 31"
  shows "\<exists>ilt. ilt_create None crc n lo_check hi_check = Inr ilt \<and>
    (\<forall>insn. ilt_lookup ilt insn =
       Inr (first_rule n (\<lambda>i. hi_check i (drop_bit 16 insn) \<and> lo_check i (insn AND 0xFFFF))))"
proof -
  let ?ilt0 = "\<lparr>crc32_insn = crc, nr_insn = n, cbm_size = (n + 31) div 32,
    chk_lo = lo_check, chk_hi = hi_check, rfct = Map.empty\<rparr>"
  have "nr_insn ?ilt0 \<le> 32 * cbm_size ?ilt0" by simp
  then obtain ilt where "ilt_compile ?ilt0 = Inr ilt"
    "\<And>insn. ilt_lookup ilt insn = Inr (first_rule n (\<lambda>i. hi_check i (drop_bit 16 insn) \<and> lo_check i (insn AND 0xFFFF)))"
    using ilt_compile_first_match [of ?ilt0] by auto
  then show ?thesis
    using normalize_size_words [OF assms] by (simp add: ilt_create_def Let_def)
qed



end
