(* ===== verification/Mips64_Exec.thy ===== *)
theory Mips64_Exec
  imports Mips64_Cp0 Insn_Lookup Crc "HOL-Library.Signed_Division"
begin

text \<open>
  The instruction interpreter of \<open>stable/mips64_exec.c\<close>: fetch, one definition per
  \<open>mips64_exec_<INSN>\<close> function, the opcode table \<open>mips64_exec_tags\<close> with its lookup table,
  the execution of one instruction, of a delay slot, and one turn of the run loop.

  Every instruction takes the function pointers of the CPU (\<open>ops\<close>), the executor of a delay
  slot (\<open>bd\<close>), the CPU and the opcode; it returns 0 when the caller must advance the program
  counter and 1 when it has set it.  C recursion through delay slots is bounded by the stack:
  \<open>mips64_exec_single_instruction\<close> takes the number of frames left and answers
  \<open>Inl Stack_Overflow\<close> when there are none; a branch needs two frames, any other
  instruction one.  Register numbers are 5-bit fields, so the register file is a function on
  natural numbers.  Products and shifts of \<open>int\<close> that overflow wrap, as on the supported hosts;
  the quotient of the most negative \<open>int\<close> by -1 traps there.
\<close>

section \<open>Fields of an opcode\<close>

abbreviation insn_rs :: "u32 \<Rightarrow> nat" where "insn_rs insn \<equiv> unat (bits insn 21 25)"
abbreviation insn_rt :: "u32 \<Rightarrow> nat" where "insn_rt insn \<equiv> unat (bits insn 16 20)"
abbreviation insn_rd :: "u32 \<Rightarrow> nat" where "insn_rd insn \<equiv> unat (bits insn 11 15)"
abbreviation insn_sa :: "u32 \<Rightarrow> nat" where "insn_sa insn \<equiv> unat (bits insn 6 10)"
abbreviation insn_imm :: "u32 \<Rightarrow> u64" where "insn_imm insn \<equiv> ucast (bits insn 0 15)"

definition branch_target :: "'m cpu_mips \<Rightarrow> u32 \<Rightarrow> u64" where
  "branch_target cpu insn =
     (pc cpu + 4) + sign_extend (ucast (push_bit 2 (bits insn 0 15))) 18"

definition jump_target :: "'m cpu_mips \<Rightarrow> u32 \<Rightarrow> u64" where
  "jump_target cpu insn =
     (pc cpu AND scast (NOT (push_bit 28 1 - 1) :: u32)) OR ucast (push_bit 2 (bits insn 0 25))"

section \<open>Memory operations and fetch\<close>

definition mips64_exec_memop2 ::
  "'m mips_ops \<Rightarrow> mips_memop \<Rightarrow> nat \<Rightarrow> u64 \<Rightarrow> nat \<Rightarrow> bool \<Rightarrow> 'm cpu_mips \<Rightarrow> 'm exec_result" where
  "mips64_exec_memop2 ops memop base offset dst_reg keep_ll_bit cpu =
    (let vaddr = gpr cpu base + sign_extend offset 16;
         cpu = (if keep_ll_bit then cpu else cpu\<lparr>ll_bit := 0\<rparr>)
     in mem_op_fn ops memop vaddr dst_reg cpu)"

definition mips64_exec_fetch :: "'m mips_ops \<Rightarrow> u64 \<Rightarrow> 'm cpu_mips \<Rightarrow> (u32 \<times> 'm cpu_mips) outcome" where
  "mips64_exec_fetch ops addr cpu =
    (let exec_page = addr AND NOT (ucast MIPS_MIN_PAGE_IMASK);
         offset = unat (drop_bit 2 (addr AND ucast MIPS_MIN_PAGE_IMASK))
     in bind_out (if exec_page \<noteq> njm_exec_page cpu then
                    bind_out (mem_op_lookup ops exec_page (cpu\<lparr>njm_exec_page := exec_page\<rparr>))
                      (\<lambda>(cpu, ptr). Inr (cpu\<lparr>njm_exec_ptr := ptr\<rparr>))
                  else Inr cpu)
          (\<lambda>cpu. case njm_exec_ptr cpu of
             None \<Rightarrow> Inl Null_Deref
           | Some page \<Rightarrow> Inr (host_insn ops (machine cpu) page offset, cpu)))"

section \<open>Instructions\<close>

text \<open>The three shapes of control transfer around a delay slot.\<close>

type_synonym 'm delay_slot = "'m cpu_mips \<Rightarrow> 'm exec_result"
type_synonym 'm insn_fn = "'m mips_ops \<Rightarrow> 'm delay_slot \<Rightarrow> 'm cpu_mips \<Rightarrow> u32 \<Rightarrow> 'm exec_result"

definition jump_to :: "'m delay_slot \<Rightarrow> u64 \<Rightarrow> 'm cpu_mips \<Rightarrow> 'm exec_result" where
  "jump_to bd new_pc cpu = then_do (bd cpu) (\<lambda>cpu. ret1 (cpu\<lparr>pc := new_pc\<rparr>))"

definition branch_if :: "'m delay_slot \<Rightarrow> bool \<Rightarrow> u64 \<Rightarrow> 'm cpu_mips \<Rightarrow> 'm exec_result" where
  "branch_if bd res new_pc cpu =
     then_do (bd cpu) (\<lambda>cpu. if res then ret1 (cpu\<lparr>pc := new_pc\<rparr>) else ret1 (cpu\<lparr>pc := pc cpu + 8\<rparr>))"

definition branch_likely :: "'m delay_slot \<Rightarrow> bool \<Rightarrow> u64 \<Rightarrow> 'm cpu_mips \<Rightarrow> 'm exec_result" where
  "branch_likely bd res new_pc cpu =
     (if res then then_do (bd cpu) (\<lambda>cpu. ret1 (cpu\<lparr>pc := new_pc\<rparr>))
      else ret1 (cpu\<lparr>pc := pc cpu + 8\<rparr>))"

definition lift0 :: "'m cpu_mips outcome \<Rightarrow> 'm exec_result" where
  "lift0 r = bind_out r (\<lambda>cpu. ret0 cpu)"

definition mips64_exec_unknown :: "'m insn_fn" where
  "mips64_exec_unknown ops bd cpu insn = ret0 cpu"

definition mips64_exec_ADD :: "'m insn_fn" where
  "mips64_exec_ADD ops bd cpu insn =
    (let res = ucast (gpr cpu (insn_rs insn)) + ucast (gpr cpu (insn_rt insn)) :: u32
     in ret0 (set_gpr (insn_rd insn) (sign_extend (ucast res) 32) cpu))"

definition mips64_exec_ADDI :: "'m insn_fn" where
  "mips64_exec_ADDI ops bd cpu insn =
    (let val = ucast (sign_extend (insn_imm insn) 16) :: u32; res = ucast (gpr cpu (insn_rs insn)) + val
     in ret0 (set_gpr (insn_rt insn) (sign_extend (ucast res) 32) cpu))"

definition mips64_exec_ADDIU :: "'m insn_fn" where
  "mips64_exec_ADDIU ops bd cpu insn =
    (let val = ucast (sign_extend (insn_imm insn) 16) :: u32; res = ucast (gpr cpu (insn_rs insn)) + val
     in ret0 (set_gpr (insn_rt insn) (sign_extend (ucast res) 32) cpu))"

definition mips64_exec_ADDU :: "'m insn_fn" where
  "mips64_exec_ADDU ops bd cpu insn =
    (let res = ucast (gpr cpu (insn_rs insn)) + ucast (gpr cpu (insn_rt insn)) :: u32
     in ret0 (set_gpr (insn_rd insn) (sign_extend (ucast res) 32) cpu))"

definition mips64_exec_AND :: "'m insn_fn" where
  "mips64_exec_AND ops bd cpu insn =
    ret0 (set_gpr (insn_rd insn) (gpr cpu (insn_rs insn) AND gpr cpu (insn_rt insn)) cpu)"

definition mips64_exec_ANDI :: "'m insn_fn" where
  "mips64_exec_ANDI ops bd cpu insn =
    ret0 (set_gpr (insn_rt insn) (gpr cpu (insn_rs insn) AND insn_imm insn) cpu)"

definition mips64_exec_B :: "'m insn_fn" where
  "mips64_exec_B ops bd cpu insn =
    jump_to bd (branch_target cpu insn) cpu"

definition mips64_exec_BAL :: "'m insn_fn" where
  "mips64_exec_BAL ops bd cpu insn =
    jump_to bd (branch_target cpu insn) (set_gpr MIPS_GPR_RA (pc cpu + 8) cpu)"

definition mips64_exec_BEQ :: "'m insn_fn" where
  "mips64_exec_BEQ ops bd cpu insn =
    (let new_pc = branch_target cpu insn; res = (gpr cpu (insn_rs insn) = gpr cpu (insn_rt insn))
     in branch_if bd res new_pc cpu)"

definition mips64_exec_BEQL :: "'m insn_fn" where
  "mips64_exec_BEQL ops bd cpu insn =
    (let new_pc = branch_target cpu insn; res = (gpr cpu (insn_rs insn) = gpr cpu (insn_rt insn))
     in branch_likely bd res new_pc cpu)"

definition mips64_exec_BEQZ :: "'m insn_fn" where
  "mips64_exec_BEQZ ops bd cpu insn =
    (let new_pc = branch_target cpu insn; res = (gpr cpu (insn_rs insn) = 0)
     in branch_if bd res new_pc cpu)"

definition mips64_exec_BNEZ :: "'m insn_fn" where
  "mips64_exec_BNEZ ops bd cpu insn =
    (let new_pc = branch_target cpu insn; res = (gpr cpu (insn_rs insn) \<noteq> 0)
     in branch_if bd res new_pc cpu)"

definition mips64_exec_BGEZ :: "'m insn_fn" where
  "mips64_exec_BGEZ ops bd cpu insn =
    (let new_pc = branch_target cpu insn; res = (0 <=s gpr cpu (insn_rs insn))
     in branch_if bd res new_pc cpu)"

definition mips64_exec_BGEZAL :: "'m insn_fn" where
  "mips64_exec_BGEZAL ops bd cpu insn =
    (let new_pc = branch_target cpu insn;
         cpu = set_gpr MIPS_GPR_RA (pc cpu + 8) cpu;
         res = (0 <=s gpr cpu (insn_rs insn))
     in branch_if bd res new_pc cpu)"

definition mips64_exec_BGEZALL :: "'m insn_fn" where
  "mips64_exec_BGEZALL ops bd cpu insn =
    (let new_pc = branch_target cpu insn;
         cpu = set_gpr MIPS_GPR_RA (pc cpu + 8) cpu;
         res = (0 <=s gpr cpu (insn_rs insn))
     in branch_likely bd res new_pc cpu)"

definition mips64_exec_BGEZL :: "'m insn_fn" where
  "mips64_exec_BGEZL ops bd cpu insn =
    (let new_pc = branch_target cpu insn; res = (0 <=s gpr cpu (insn_rs insn))
     in branch_likely bd res new_pc cpu)"

definition mips64_exec_BGTZ :: "'m insn_fn" where
  "mips64_exec_BGTZ ops bd cpu insn =
    (let new_pc = branch_target cpu insn; res = (0 <s gpr cpu (insn_rs insn))
     in branch_if bd res new_pc cpu)"

definition mips64_exec_BGTZL :: "'m insn_fn" where
  "mips64_exec_BGTZL ops bd cpu insn =
    (let new_pc = branch_target cpu insn; res = (0 <s gpr cpu (insn_rs insn))
     in branch_likely bd res new_pc cpu)"

definition mips64_exec_BLEZ :: "'m insn_fn" where
  "mips64_exec_BLEZ ops bd cpu insn =
    (let new_pc = branch_target cpu insn; res = (gpr cpu (insn_rs insn) <=s 0)
     in branch_if bd res new_pc cpu)"

definition mips64_exec_BLEZL :: "'m insn_fn" where
  "mips64_exec_BLEZL ops bd cpu insn =
    (let new_pc = branch_target cpu insn; res = (gpr cpu (insn_rs insn) <=s 0)
     in branch_likely bd res new_pc cpu)"

definition mips64_exec_BLTZ :: "'m insn_fn" where
  "mips64_exec_BLTZ ops bd cpu insn =
    (let new_pc = branch_target cpu insn; res = (gpr cpu (insn_rs insn) <s 0)
     in branch_if bd res new_pc cpu)"

definition mips64_exec_BLTZAL :: "'m insn_fn" where
  "mips64_exec_BLTZAL ops bd cpu insn =
    (let new_pc = branch_target cpu insn;
         cpu = set_gpr MIPS_GPR_RA (pc cpu + 8) cpu;
         res = (gpr cpu (insn_rs insn) <s 0)
     in branch_if bd res new_pc cpu)"

definition mips64_exec_BLTZALL :: "'m insn_fn" where
  "mips64_exec_BLTZALL ops bd cpu insn =
    (let new_pc = branch_target cpu insn;
         cpu = set_gpr MIPS_GPR_RA (pc cpu + 8) cpu;
         res = (gpr cpu (insn_rs insn) <s 0)
     in branch_likely bd res new_pc cpu)"

definition mips64_exec_BLTZL :: "'m insn_fn" where
  "mips64_exec_BLTZL ops bd cpu insn =
    (let new_pc = branch_target cpu insn; res = (gpr cpu (insn_rs insn) <s 0)
     in branch_likely bd res new_pc cpu)"

definition mips64_exec_BNE :: "'m insn_fn" where
  "mips64_exec_BNE ops bd cpu insn =
    (let new_pc = branch_target cpu insn; res = (gpr cpu (insn_rs insn) \<noteq> gpr cpu (insn_rt insn))
     in branch_if bd res new_pc cpu)"

definition mips64_exec_BNEL :: "'m insn_fn" where
  "mips64_exec_BNEL ops bd cpu insn =
    (let new_pc = branch_target cpu insn; res = (gpr cpu (insn_rs insn) \<noteq> gpr cpu (insn_rt insn))
     in branch_likely bd res new_pc cpu)"

definition mips64_exec_BREAK :: "'m insn_fn" where
  "mips64_exec_BREAK ops bd cpu insn =
    ret1 (mips64_exec_break (bits insn 6 25) cpu)"

definition mips64_exec_CACHE :: "'m insn_fn" where
  "mips64_exec_CACHE ops bd cpu insn =
    mips64_exec_memop2 ops MIPS_MEMOP_CACHE (insn_rs insn) (insn_imm insn) (insn_rt insn) False cpu"

definition mips64_exec_CFC0 :: "'m insn_fn" where
  "mips64_exec_CFC0 ops bd cpu insn =
    ret0 (mips64_cp0_exec_cfc0 (insn_rt insn) (insn_rd insn) cpu)"

definition mips64_exec_CTC0 :: "'m insn_fn" where
  "mips64_exec_CTC0 ops bd cpu insn =
    ret0 (mips64_cp0_exec_ctc0 (insn_rt insn) (insn_rd insn) cpu)"

definition mips64_exec_DADDIU :: "'m insn_fn" where
  "mips64_exec_DADDIU ops bd cpu insn =
    (let val = sign_extend (insn_imm insn) 16
     in ret0 (set_gpr (insn_rt insn) (gpr cpu (insn_rs insn) + val) cpu))"

definition mips64_exec_DADDU :: "'m insn_fn" where
  "mips64_exec_DADDU ops bd cpu insn =
    ret0 (set_gpr (insn_rd insn) (gpr cpu (insn_rs insn) + gpr cpu (insn_rt insn)) cpu)"

text \<open>
  C division truncates towards zero (\<open>sdiv\<close>, \<open>smod\<close>); by zero, and of the most negative
  value by -1, it traps on the host.
\<close>

definition c_div32 :: "u32 \<Rightarrow> u32 \<Rightarrow> u32" where
  "c_div32 a b = word_of_int (sint a sdiv sint b)"

definition c_mod32 :: "u32 \<Rightarrow> u32 \<Rightarrow> u32" where
  "c_mod32 a b = word_of_int (sint a smod sint b)"

definition mips64_exec_DIV :: "'m insn_fn" where
  "mips64_exec_DIV ops bd cpu insn =
    (let a = ucast (gpr cpu (insn_rs insn)) :: u32; b = ucast (gpr cpu (insn_rt insn)) :: u32
     in if b = 0 \<or> (a = 0x80000000 \<and> b = -1) then Inl Div_By_Zero
        else (let cpu = cpu\<lparr>lo := scast (c_div32 a b)\<rparr>;
                  cpu = cpu\<lparr>hi := scast (c_mod32 a b)\<rparr>;
                  cpu = cpu\<lparr>lo := sign_extend (lo cpu) 32\<rparr>;
                  cpu = cpu\<lparr>hi := sign_extend (hi cpu) 32\<rparr>
              in ret0 cpu))"

definition mips64_exec_DIVU :: "'m insn_fn" where
  "mips64_exec_DIVU ops bd cpu insn =
    (if gpr cpu (insn_rt insn) = 0 then ret0 cpu
     else (let a = ucast (gpr cpu (insn_rs insn)) :: u32; b = ucast (gpr cpu (insn_rt insn)) :: u32
           in if b = 0 then Inl Div_By_Zero
              else (let cpu = cpu\<lparr>lo := ucast (a div b)\<rparr>;
                        cpu = cpu\<lparr>hi := ucast (a mod b)\<rparr>;
                        cpu = cpu\<lparr>lo := sign_extend (lo cpu) 32\<rparr>;
                        cpu = cpu\<lparr>hi := sign_extend (hi cpu) 32\<rparr>
                    in ret0 cpu)))"

definition mips64_exec_DMFC0 :: "'m insn_fn" where
  "mips64_exec_DMFC0 ops bd cpu insn =
    lift0 (mips64_cp0_exec_dmfc0 (insn_rt insn) (insn_rd insn) cpu)"

definition mips64_exec_DMFC1 :: "'m insn_fn" where
  "mips64_exec_DMFC1 ops bd cpu insn =
    ret0 (mips64_exec_dmfc1 (insn_rt insn) (insn_rd insn) cpu)"

definition mips64_exec_DMTC0 :: "'m insn_fn" where
  "mips64_exec_DMTC0 ops bd cpu insn =
    lift0 (mips64_cp0_exec_dmtc0 (insn_rt insn) (insn_rd insn) cpu)"

definition mips64_exec_DMTC1 :: "'m insn_fn" where
  "mips64_exec_DMTC1 ops bd cpu insn =
    ret0 (mips64_exec_dmtc1 (insn_rt insn) (insn_rd insn) cpu)"

definition mips64_exec_DSLL :: "'m insn_fn" where
  "mips64_exec_DSLL ops bd cpu insn =
    ret0 (set_gpr (insn_rd insn) (push_bit (insn_sa insn) (gpr cpu (insn_rt insn))) cpu)"

definition mips64_exec_DSLL32 :: "'m insn_fn" where
  "mips64_exec_DSLL32 ops bd cpu insn =
    ret0 (set_gpr (insn_rd insn) (push_bit (32 + insn_sa insn) (gpr cpu (insn_rt insn))) cpu)"

definition mips64_exec_DSLLV :: "'m insn_fn" where
  "mips64_exec_DSLLV ops bd cpu insn =
    ret0 (set_gpr (insn_rd insn) (push_bit (unat (gpr cpu (insn_rs insn) AND 0x3f)) (gpr cpu (insn_rt insn))) cpu)"

definition mips64_exec_DSRA :: "'m insn_fn" where
  "mips64_exec_DSRA ops bd cpu insn =
    ret0 (set_gpr (insn_rd insn) (signed_drop_bit (insn_sa insn) (gpr cpu (insn_rt insn))) cpu)"

definition mips64_exec_DSRA32 :: "'m insn_fn" where
  "mips64_exec_DSRA32 ops bd cpu insn =
    ret0 (set_gpr (insn_rd insn) (signed_drop_bit (32 + insn_sa insn) (gpr cpu (insn_rt insn))) cpu)"

definition mips64_exec_DSRAV :: "'m insn_fn" where
  "mips64_exec_DSRAV ops bd cpu insn =
    ret0 (set_gpr (insn_rd insn) (signed_drop_bit (unat (gpr cpu (insn_rs insn) AND 0x3f)) (gpr cpu (insn_rt insn))) cpu)"

definition mips64_exec_DSRL :: "'m insn_fn" where
  "mips64_exec_DSRL ops bd cpu insn =
    ret0 (set_gpr (insn_rd insn) (drop_bit (insn_sa insn) (gpr cpu (insn_rt insn))) cpu)"

definition mips64_exec_DSRL32 :: "'m insn_fn" where
  "mips64_exec_DSRL32 ops bd cpu insn =
    ret0 (set_gpr (insn_rd insn) (drop_bit (32 + insn_sa insn) (gpr cpu (insn_rt insn))) cpu)"

definition mips64_exec_DSRLV :: "'m insn_fn" where
  "mips64_exec_DSRLV ops bd cpu insn =
    ret0 (set_gpr (insn_rd insn) (drop_bit (unat (gpr cpu (insn_rs insn) AND 0x3f)) (gpr cpu (insn_rt insn))) cpu)"

definition mips64_exec_DSUBU :: "'m insn_fn" where
  "mips64_exec_DSUBU ops bd cpu insn =
    ret0 (set_gpr (insn_rd insn) (gpr cpu (insn_rs insn) - gpr cpu (insn_rt insn)) cpu)"

definition mips64_exec_ERET :: "'m insn_fn" where
  "mips64_exec_ERET ops bd cpu insn =
    ret1 (mips64_exec_eret cpu)"

definition mips64_exec_J :: "'m insn_fn" where
  "mips64_exec_J ops bd cpu insn =
    jump_to bd (jump_target cpu insn) cpu"

definition mips64_exec_JAL :: "'m insn_fn" where
  "mips64_exec_JAL ops bd cpu insn =
    jump_to bd (jump_target cpu insn) (set_gpr MIPS_GPR_RA (pc cpu + 8) cpu)"

definition mips64_exec_JALR :: "'m insn_fn" where
  "mips64_exec_JALR ops bd cpu insn =
    (let cpu = set_gpr (insn_rd insn) (pc cpu + 8) cpu; new_pc = gpr cpu (insn_rs insn)
     in jump_to bd new_pc cpu)"

definition mips64_exec_JR :: "'m insn_fn" where
  "mips64_exec_JR ops bd cpu insn =
    (let new_pc = gpr cpu (insn_rs insn) in jump_to bd new_pc cpu)"

definition mips64_exec_LB :: "'m insn_fn" where
  "mips64_exec_LB ops bd cpu insn =
    mips64_exec_memop2 ops MIPS_MEMOP_LB (insn_rs insn) (insn_imm insn) (insn_rt insn) True cpu"

definition mips64_exec_LBU :: "'m insn_fn" where
  "mips64_exec_LBU ops bd cpu insn =
    mips64_exec_memop2 ops MIPS_MEMOP_LBU (insn_rs insn) (insn_imm insn) (insn_rt insn) True cpu"

definition mips64_exec_LD :: "'m insn_fn" where
  "mips64_exec_LD ops bd cpu insn =
    mips64_exec_memop2 ops MIPS_MEMOP_LD (insn_rs insn) (insn_imm insn) (insn_rt insn) True cpu"

definition mips64_exec_LDC1 :: "'m insn_fn" where
  "mips64_exec_LDC1 ops bd cpu insn =
    mips64_exec_memop2 ops MIPS_MEMOP_LDC1 (insn_rs insn) (insn_imm insn) (insn_rt insn) True cpu"

definition mips64_exec_LDL :: "'m insn_fn" where
  "mips64_exec_LDL ops bd cpu insn =
    mips64_exec_memop2 ops MIPS_MEMOP_LDL (insn_rs insn) (insn_imm insn) (insn_rt insn) True cpu"

definition mips64_exec_LDR :: "'m insn_fn" where
  "mips64_exec_LDR ops bd cpu insn =
    mips64_exec_memop2 ops MIPS_MEMOP_LDR (insn_rs insn) (insn_imm insn) (insn_rt insn) True cpu"

definition mips64_exec_LH :: "'m insn_fn" where
  "mips64_exec_LH ops bd cpu insn =
    mips64_exec_memop2 ops MIPS_MEMOP_LH (insn_rs insn) (insn_imm insn) (insn_rt insn) True cpu"

definition mips64_exec_LHU :: "'m insn_fn" where
  "mips64_exec_LHU ops bd cpu insn =
    mips64_exec_memop2 ops MIPS_MEMOP_LHU (insn_rs insn) (insn_imm insn) (insn_rt insn) True cpu"

definition mips64_exec_LI :: "'m insn_fn" where
  "mips64_exec_LI ops bd cpu insn =
    ret0 (set_gpr (insn_rt insn) (sign_extend (insn_imm insn) 16) cpu)"

definition mips64_exec_LL :: "'m insn_fn" where
  "mips64_exec_LL ops bd cpu insn =
    mips64_exec_memop2 ops MIPS_MEMOP_LL (insn_rs insn) (insn_imm insn) (insn_rt insn) True cpu"

definition mips64_exec_LUI :: "'m insn_fn" where
  "mips64_exec_LUI ops bd cpu insn =
    ret0 (set_gpr (insn_rt insn) (push_bit 16 (sign_extend (insn_imm insn) 16)) cpu)"

definition mips64_exec_LW :: "'m insn_fn" where
  "mips64_exec_LW ops bd cpu insn =
    mips64_exec_memop2 ops MIPS_MEMOP_LW (insn_rs insn) (insn_imm insn) (insn_rt insn) True cpu"

definition mips64_exec_LWL :: "'m insn_fn" where
  "mips64_exec_LWL ops bd cpu insn =
    mips64_exec_memop2 ops MIPS_MEMOP_LWL (insn_rs insn) (insn_imm insn) (insn_rt insn) True cpu"

definition mips64_exec_LWR :: "'m insn_fn" where
  "mips64_exec_LWR ops bd cpu insn =
    mips64_exec_memop2 ops MIPS_MEMOP_LWR (insn_rs insn) (insn_imm insn) (insn_rt insn) True cpu"

definition mips64_exec_LWU :: "'m insn_fn" where
  "mips64_exec_LWU ops bd cpu insn =
    mips64_exec_memop2 ops MIPS_MEMOP_LWU (insn_rs insn) (insn_imm insn) (insn_rt insn) True cpu"

definition mips64_exec_MFC0 :: "'m insn_fn" where
  "mips64_exec_MFC0 ops bd cpu insn =
    lift0 (mips64_cp0_exec_mfc0 (insn_rt insn) (insn_rd insn) cpu)"

definition mips64_exec_MFC1 :: "'m insn_fn" where
  "mips64_exec_MFC1 ops bd cpu insn =
    ret0 (mips64_exec_mfc1 (insn_rt insn) (insn_rd insn) cpu)"

definition mips64_exec_MFHI :: "'m insn_fn" where
  "mips64_exec_MFHI ops bd cpu insn =
    (if insn_rd insn \<noteq> 0 then ret0 (set_gpr (insn_rd insn) (hi cpu) cpu) else ret0 cpu)"

definition mips64_exec_MFLO :: "'m insn_fn" where
  "mips64_exec_MFLO ops bd cpu insn =
    (if insn_rd insn \<noteq> 0 then ret0 (set_gpr (insn_rd insn) (lo cpu) cpu) else ret0 cpu)"

definition mips64_exec_MOVE :: "'m insn_fn" where
  "mips64_exec_MOVE ops bd cpu insn =
    ret0 (set_gpr (insn_rd insn) (sign_extend (gpr cpu (insn_rs insn)) 32) cpu)"

definition mips64_exec_MTC0 :: "'m insn_fn" where
  "mips64_exec_MTC0 ops bd cpu insn =
    lift0 (mips64_cp0_exec_mtc0 (insn_rt insn) (insn_rd insn) cpu)"

definition mips64_exec_MTC1 :: "'m insn_fn" where
  "mips64_exec_MTC1 ops bd cpu insn =
    ret0 (mips64_exec_mtc1 (insn_rt insn) (insn_rd insn) cpu)"

definition mips64_exec_MTHI :: "'m insn_fn" where
  "mips64_exec_MTHI ops bd cpu insn =
    ret0 (cpu\<lparr>hi := gpr cpu (insn_rs insn)\<rparr>)"

definition mips64_exec_MTLO :: "'m insn_fn" where
  "mips64_exec_MTLO ops bd cpu insn =
    ret0 (cpu\<lparr>lo := gpr cpu (insn_rs insn)\<rparr>)"

definition mips64_exec_MUL :: "'m insn_fn" where
  "mips64_exec_MUL ops bd cpu insn =
    (let val = ucast (gpr cpu (insn_rs insn)) * ucast (gpr cpu (insn_rt insn)) :: u32
     in ret0 (set_gpr (insn_rd insn) (sign_extend (scast val) 32) cpu))"

definition mips64_exec_MULT :: "'m insn_fn" where
  "mips64_exec_MULT ops bd cpu insn =
    (let val = scast (ucast (gpr cpu (insn_rs insn)) :: u32) :: u64;
         val = val * scast (ucast (gpr cpu (insn_rt insn)) :: u32);
         cpu = cpu\<lparr>lo := sign_extend val 32\<rparr>
     in ret0 (cpu\<lparr>hi := sign_extend (signed_drop_bit 32 val) 32\<rparr>))"

definition mips64_exec_MULTU :: "'m insn_fn" where
  "mips64_exec_MULTU ops bd cpu insn =
    (let val = ucast (ucast (gpr cpu (insn_rs insn)) :: u32) :: u64;
         val = val * ucast (ucast (gpr cpu (insn_rt insn)) :: u32);
         cpu = cpu\<lparr>lo := sign_extend val 32\<rparr>
     in ret0 (cpu\<lparr>hi := sign_extend (drop_bit 32 val) 32\<rparr>))"

definition mips64_exec_NOP :: "'m insn_fn" where
  "mips64_exec_NOP ops bd cpu insn =
    ret0 cpu"

definition mips64_exec_NOR :: "'m insn_fn" where
  "mips64_exec_NOR ops bd cpu insn =
    ret0 (set_gpr (insn_rd insn) (NOT (gpr cpu (insn_rs insn) OR gpr cpu (insn_rt insn))) cpu)"

definition mips64_exec_OR :: "'m insn_fn" where
  "mips64_exec_OR ops bd cpu insn =
    ret0 (set_gpr (insn_rd insn) (gpr cpu (insn_rs insn) OR gpr cpu (insn_rt insn)) cpu)"

definition mips64_exec_ORI :: "'m insn_fn" where
  "mips64_exec_ORI ops bd cpu insn =
    ret0 (set_gpr (insn_rt insn) (gpr cpu (insn_rs insn) OR insn_imm insn) cpu)"

definition mips64_exec_PREF :: "'m insn_fn" where
  "mips64_exec_PREF ops bd cpu insn =
    ret0 cpu"

definition mips64_exec_PREFI :: "'m insn_fn" where
  "mips64_exec_PREFI ops bd cpu insn =
    ret0 cpu"

definition mips64_exec_SB :: "'m insn_fn" where
  "mips64_exec_SB ops bd cpu insn =
    mips64_exec_memop2 ops MIPS_MEMOP_SB (insn_rs insn) (insn_imm insn) (insn_rt insn) False cpu"

definition mips64_exec_SC :: "'m insn_fn" where
  "mips64_exec_SC ops bd cpu insn =
    mips64_exec_memop2 ops MIPS_MEMOP_SC (insn_rs insn) (insn_imm insn) (insn_rt insn) True cpu"

definition mips64_exec_SD :: "'m insn_fn" where
  "mips64_exec_SD ops bd cpu insn =
    mips64_exec_memop2 ops MIPS_MEMOP_SD (insn_rs insn) (insn_imm insn) (insn_rt insn) False cpu"

definition mips64_exec_SDL :: "'m insn_fn" where
  "mips64_exec_SDL ops bd cpu insn =
    mips64_exec_memop2 ops MIPS_MEMOP_SDL (insn_rs insn) (insn_imm insn) (insn_rt insn) False cpu"

definition mips64_exec_SDR :: "'m insn_fn" where
  "mips64_exec_SDR ops bd cpu insn =
    mips64_exec_memop2 ops MIPS_MEMOP_SDR (insn_rs insn) (insn_imm insn) (insn_rt insn) False cpu"

definition mips64_exec_SDC1 :: "'m insn_fn" where
  "mips64_exec_SDC1 ops bd cpu insn =
    mips64_exec_memop2 ops MIPS_MEMOP_SDC1 (insn_rs insn) (insn_imm insn) (insn_rt insn) False cpu"

definition mips64_exec_SH :: "'m insn_fn" where
  "mips64_exec_SH ops bd cpu insn =
    mips64_exec_memop2 ops MIPS_MEMOP_SH (insn_rs insn) (insn_imm insn) (insn_rt insn) False cpu"

definition mips64_exec_SLL :: "'m insn_fn" where
  "mips64_exec_SLL ops bd cpu insn =
    (let res = push_bit (insn_sa insn) (ucast (gpr cpu (insn_rt insn))) :: u32
     in ret0 (set_gpr (insn_rd insn) (sign_extend (ucast res) 32) cpu))"

definition mips64_exec_SLLV :: "'m insn_fn" where
  "mips64_exec_SLLV ops bd cpu insn =
    (let res = push_bit (unat (gpr cpu (insn_rs insn) AND 0x1f)) (ucast (gpr cpu (insn_rt insn))) :: u32
     in ret0 (set_gpr (insn_rd insn) (sign_extend (ucast res) 32) cpu))"

definition mips64_exec_SLT :: "'m insn_fn" where
  "mips64_exec_SLT ops bd cpu insn =
    (if gpr cpu (insn_rs insn) <s gpr cpu (insn_rt insn) then ret0 (set_gpr (insn_rd insn) 1 cpu) else ret0 (set_gpr (insn_rd insn) 0 cpu))"

definition mips64_exec_SLTI :: "'m insn_fn" where
  "mips64_exec_SLTI ops bd cpu insn =
    (let val = sign_extend (insn_imm insn) 16 in
     if gpr cpu (insn_rs insn) <s val then ret0 (set_gpr (insn_rt insn) 1 cpu) else ret0 (set_gpr (insn_rt insn) 0 cpu))"

definition mips64_exec_SLTIU :: "'m insn_fn" where
  "mips64_exec_SLTIU ops bd cpu insn =
    (let val = sign_extend (insn_imm insn) 16 in
     if gpr cpu (insn_rs insn) < val then ret0 (set_gpr (insn_rt insn) 1 cpu) else ret0 (set_gpr (insn_rt insn) 0 cpu))"

definition mips64_exec_SLTU :: "'m insn_fn" where
  "mips64_exec_SLTU ops bd cpu insn =
    (if gpr cpu (insn_rs insn) < gpr cpu (insn_rt insn) then ret0 (set_gpr (insn_rd insn) 1 cpu) else ret0 (set_gpr (insn_rd insn) 0 cpu))"

definition mips64_exec_SRA :: "'m insn_fn" where
  "mips64_exec_SRA ops bd cpu insn =
    (let res = signed_drop_bit (insn_sa insn) (ucast (gpr cpu (insn_rt insn))) :: u32
     in ret0 (set_gpr (insn_rd insn) (sign_extend (scast res) 32) cpu))"

definition mips64_exec_SRAV :: "'m insn_fn" where
  "mips64_exec_SRAV ops bd cpu insn =
    (let res = signed_drop_bit (unat (gpr cpu (insn_rs insn) AND 0x1f)) (ucast (gpr cpu (insn_rt insn))) :: u32
     in ret0 (set_gpr (insn_rd insn) (sign_extend (scast res) 32) cpu))"

definition mips64_exec_SRL :: "'m insn_fn" where
  "mips64_exec_SRL ops bd cpu insn =
    (let res = drop_bit (insn_sa insn) (ucast (gpr cpu (insn_rt insn))) :: u32
     in ret0 (set_gpr (insn_rd insn) (sign_extend (ucast res) 32) cpu))"

definition mips64_exec_SRLV :: "'m insn_fn" where
  "mips64_exec_SRLV ops bd cpu insn =
    (let res = drop_bit (unat (gpr cpu (insn_rs insn) AND 0x1f)) (ucast (gpr cpu (insn_rt insn))) :: u32
     in ret0 (set_gpr (insn_rd insn) (sign_extend (ucast res) 32) cpu))"

definition mips64_exec_SUB :: "'m insn_fn" where
  "mips64_exec_SUB ops bd cpu insn =
    (let res = ucast (gpr cpu (insn_rs insn)) - ucast (gpr cpu (insn_rt insn)) :: u32
     in ret0 (set_gpr (insn_rd insn) (sign_extend (ucast res) 32) cpu))"

definition mips64_exec_SUBU :: "'m insn_fn" where
  "mips64_exec_SUBU ops bd cpu insn =
    (let res = ucast (gpr cpu (insn_rs insn)) - ucast (gpr cpu (insn_rt insn)) :: u32
     in ret0 (set_gpr (insn_rd insn) (sign_extend (ucast res) 32) cpu))"

definition mips64_exec_SW :: "'m insn_fn" where
  "mips64_exec_SW ops bd cpu insn =
    mips64_exec_memop2 ops MIPS_MEMOP_SW (insn_rs insn) (insn_imm insn) (insn_rt insn) False cpu"

definition mips64_exec_SWL :: "'m insn_fn" where
  "mips64_exec_SWL ops bd cpu insn =
    mips64_exec_memop2 ops MIPS_MEMOP_SWL (insn_rs insn) (insn_imm insn) (insn_rt insn) False cpu"

definition mips64_exec_SWR :: "'m insn_fn" where
  "mips64_exec_SWR ops bd cpu insn =
    mips64_exec_memop2 ops MIPS_MEMOP_SWR (insn_rs insn) (insn_imm insn) (insn_rt insn) False cpu"

definition mips64_exec_SYNC :: "'m insn_fn" where
  "mips64_exec_SYNC ops bd cpu insn =
    ret0 cpu"

definition mips64_exec_SYSCALL :: "'m insn_fn" where
  "mips64_exec_SYSCALL ops bd cpu insn =
    ret1 (mips64_exec_syscall cpu)"

definition mips64_exec_TEQ :: "'m insn_fn" where
  "mips64_exec_TEQ ops bd cpu insn =
    (if gpr cpu (insn_rs insn) = gpr cpu (insn_rt insn) then ret1 (mips64_trigger_trap_exception cpu) else ret0 cpu)"

definition mips64_exec_TEQI :: "'m insn_fn" where
  "mips64_exec_TEQI ops bd cpu insn =
    (let val = sign_extend (insn_imm insn) 16
     in if gpr cpu (insn_rs insn) = val then ret1 (mips64_trigger_trap_exception cpu) else ret0 cpu)"

definition mips64_exec_TLBP :: "'m insn_fn" where
  "mips64_exec_TLBP ops bd cpu insn =
    ret0 (mips64_cp0_exec_tlbp cpu)"

definition mips64_exec_TLBR :: "'m insn_fn" where
  "mips64_exec_TLBR ops bd cpu insn =
    ret0 (mips64_cp0_exec_tlbr cpu)"

definition mips64_exec_TLBWI :: "'m insn_fn" where
  "mips64_exec_TLBWI ops bd cpu insn =
    ret0 (mips64_cp0_exec_tlbwi ops cpu)"

definition mips64_exec_TLBWR :: "'m insn_fn" where
  "mips64_exec_TLBWR ops bd cpu insn =
    lift0 (mips64_cp0_exec_tlbwr ops cpu)"

definition mips64_exec_XOR :: "'m insn_fn" where
  "mips64_exec_XOR ops bd cpu insn =
    ret0 (set_gpr (insn_rd insn) (gpr cpu (insn_rs insn) XOR gpr cpu (insn_rt insn)) cpu)"

definition mips64_exec_XORI :: "'m insn_fn" where
  "mips64_exec_XORI ops bd cpu insn =
    ret0 (set_gpr (insn_rt insn) (gpr cpu (insn_rs insn) XOR insn_imm insn) cpu)"

section \<open>The opcode table\<close>

record 'm exec_tag =
  tag_name :: string
  tag_exec :: "'m insn_fn"
  tag_mask :: u32
  tag_value :: u32
  tag_delay_slot :: bool
  tag_instr_type :: nat

definition mk_tag :: "string \<Rightarrow> 'm insn_fn \<Rightarrow> u32 \<Rightarrow> u32 \<Rightarrow> bool \<Rightarrow> nat \<Rightarrow> 'm exec_tag" where
  "mk_tag n e m v d t = \<lparr>tag_name = n, tag_exec = e, tag_mask = m, tag_value = v,
     tag_delay_slot = d, tag_instr_type = t\<rparr>"

text \<open>\<open>mips64_exec_tags\<close>, without the terminating NULL entry.\<close>

definition mips64_exec_tags :: "'m exec_tag list" where
  "mips64_exec_tags = [
    mk_tag ''li'' mips64_exec_LI 0xffe00000 0x24000000 True 16,
    mk_tag ''move'' mips64_exec_MOVE 0xfc1f07ff 0x00000021 True 15,
    mk_tag ''b'' mips64_exec_B 0xffff0000 0x10000000 False 10,
    mk_tag ''bal'' mips64_exec_BAL 0xffff0000 0x04110000 False 10,
    mk_tag ''beqz'' mips64_exec_BEQZ 0xfc1f0000 0x10000000 False 9,
    mk_tag ''bnez'' mips64_exec_BNEZ 0xfc1f0000 0x14000000 False 9,
    mk_tag ''add'' mips64_exec_ADD 0xfc0007ff 0x00000020 True 3,
    mk_tag ''addi'' mips64_exec_ADDI 0xfc000000 0x20000000 True 6,
    mk_tag ''addiu'' mips64_exec_ADDIU 0xfc000000 0x24000000 True 6,
    mk_tag ''addu'' mips64_exec_ADDU 0xfc0007ff 0x00000021 True 3,
    mk_tag ''and'' mips64_exec_AND 0xfc0007ff 0x00000024 True 3,
    mk_tag ''andi'' mips64_exec_ANDI 0xfc000000 0x30000000 True 5,
    mk_tag ''beq'' mips64_exec_BEQ 0xfc000000 0x10000000 False 8,
    mk_tag ''beql'' mips64_exec_BEQL 0xfc000000 0x50000000 False 8,
    mk_tag ''bgez'' mips64_exec_BGEZ 0xfc1f0000 0x04010000 False 9,
    mk_tag ''bgezal'' mips64_exec_BGEZAL 0xfc1f0000 0x04110000 False 9,
    mk_tag ''bgezall'' mips64_exec_BGEZALL 0xfc1f0000 0x04130000 False 9,
    mk_tag ''bgezl'' mips64_exec_BGEZL 0xfc1f0000 0x04030000 False 9,
    mk_tag ''bgtz'' mips64_exec_BGTZ 0xfc1f0000 0x1c000000 False 9,
    mk_tag ''bgtzl'' mips64_exec_BGTZL 0xfc1f0000 0x5c000000 False 9,
    mk_tag ''blez'' mips64_exec_BLEZ 0xfc1f0000 0x18000000 False 9,
    mk_tag ''blezl'' mips64_exec_BLEZL 0xfc1f0000 0x58000000 False 9,
    mk_tag ''bltz'' mips64_exec_BLTZ 0xfc1f0000 0x04000000 False 9,
    mk_tag ''bltzal'' mips64_exec_BLTZAL 0xfc1f0000 0x04100000 False 9,
    mk_tag ''bltzall'' mips64_exec_BLTZALL 0xfc1f0000 0x04120000 False 9,
    mk_tag ''bltzl'' mips64_exec_BLTZL 0xfc1f0000 0x04020000 False 9,
    mk_tag ''bne'' mips64_exec_BNE 0xfc000000 0x14000000 False 8,
    mk_tag ''bnel'' mips64_exec_BNEL 0xfc000000 0x54000000 False 8,
    mk_tag ''break'' mips64_exec_BREAK 0xfc00003f 0x0000000d True 0,
    mk_tag ''cache'' mips64_exec_CACHE 0xfc000000 0xbc000000 True 2,
    mk_tag ''cfc0'' mips64_exec_CFC0 0xffe007ff 0x40400000 True 18,
    mk_tag ''ctc0'' mips64_exec_CTC0 0xffe007ff 0x40600000 True 18,
    mk_tag ''daddiu'' mips64_exec_DADDIU 0xfc000000 0x64000000 True 5,
    mk_tag ''daddu'' mips64_exec_DADDU 0xfc0007ff 0x0000002d True 3,
    mk_tag ''div'' mips64_exec_DIV 0xfc00ffff 0x0000001a True 17,
    mk_tag ''divu'' mips64_exec_DIVU 0xfc00ffff 0x0000001b True 17,
    mk_tag ''dmfc0'' mips64_exec_DMFC0 0xffe007f8 0x40200000 True 18,
    mk_tag ''dmfc1'' mips64_exec_DMFC1 0xffe007ff 0x44200000 True 19,
    mk_tag ''dmtc0'' mips64_exec_DMTC0 0xffe007f8 0x40a00000 True 18,
    mk_tag ''dmtc1'' mips64_exec_DMTC1 0xffe007ff 0x44a00000 True 19,
    mk_tag ''dsll'' mips64_exec_DSLL 0xffe0003f 0x00000038 True 7,
    mk_tag ''dsll32'' mips64_exec_DSLL32 0xffe0003f 0x0000003c True 7,
    mk_tag ''dsllv'' mips64_exec_DSLLV 0xfc0007ff 0x00000014 True 4,
    mk_tag ''dsra'' mips64_exec_DSRA 0xffe0003f 0x0000003b True 7,
    mk_tag ''dsra32'' mips64_exec_DSRA32 0xffe0003f 0x0000003f True 7,
    mk_tag ''dsrav'' mips64_exec_DSRAV 0xfc0007ff 0x00000017 True 4,
    mk_tag ''dsrl'' mips64_exec_DSRL 0xffe0003f 0x0000003a True 7,
    mk_tag ''dsrl32'' mips64_exec_DSRL32 0xffe0003f 0x0000003e True 7,
    mk_tag ''dsrlv'' mips64_exec_DSRLV 0xfc0007ff 0x00000016 True 4,
    mk_tag ''dsubu'' mips64_exec_DSUBU 0xfc0007ff 0x0000002f True 3,
    mk_tag ''eret'' mips64_exec_ERET 0xffffffff 0x42000018 False 1,
    mk_tag ''j'' mips64_exec_J 0xfc000000 0x08000000 False 11,
    mk_tag ''jal'' mips64_exec_JAL 0xfc000000 0x0c000000 False 11,
    mk_tag ''jalr'' mips64_exec_JALR 0xfc1f003f 0x00000009 False 15,
    mk_tag ''jr'' mips64_exec_JR 0xfc1ff83f 0x00000008 False 13,
    mk_tag ''lb'' mips64_exec_LB 0xfc000000 0x80000000 True 2,
    mk_tag ''lbu'' mips64_exec_LBU 0xfc000000 0x90000000 True 2,
    mk_tag ''ld'' mips64_exec_LD 0xfc000000 0xdc000000 True 2,
    mk_tag ''ldc1'' mips64_exec_LDC1 0xfc000000 0xd4000000 True 3,
    mk_tag ''ldl'' mips64_exec_LDL 0xfc000000 0x68000000 True 2,
    mk_tag ''ldr'' mips64_exec_LDR 0xfc000000 0x6c000000 True 2,
    mk_tag ''lh'' mips64_exec_LH 0xfc000000 0x84000000 True 2,
    mk_tag ''lhu'' mips64_exec_LHU 0xfc000000 0x94000000 True 2,
    mk_tag ''ll'' mips64_exec_LL 0xfc000000 0xc0000000 True 2,
    mk_tag ''lui'' mips64_exec_LUI 0xffe00000 0x3c000000 True 16,
    mk_tag ''lw'' mips64_exec_LW 0xfc000000 0x8c000000 True 2,
    mk_tag ''lwl'' mips64_exec_LWL 0xfc000000 0x88000000 True 2,
    mk_tag ''lwr'' mips64_exec_LWR 0xfc000000 0x98000000 True 2,
    mk_tag ''lwu'' mips64_exec_LWU 0xfc000000 0x9c000000 True 2,
    mk_tag ''mfc0'' mips64_exec_MFC0 0xffe007ff 0x40000000 True 18,
    mk_tag ''mfc0_1'' mips64_exec_CFC0 0xffe007ff 0x40000001 True 19,
    mk_tag ''mfc1'' mips64_exec_MFC1 0xffe007ff 0x44000000 True 19,
    mk_tag ''mfhi'' mips64_exec_MFHI 0xffff07ff 0x00000010 True 14,
    mk_tag ''mflo'' mips64_exec_MFLO 0xffff07ff 0x00000012 True 14,
    mk_tag ''mtc0'' mips64_exec_MTC0 0xffe007ff 0x40800000 True 18,
    mk_tag ''mtc1'' mips64_exec_MTC1 0xffe007ff 0x44800000 True 19,
    mk_tag ''mthi'' mips64_exec_MTHI 0xfc1fffff 0x00000011 True 13,
    mk_tag ''mtlo'' mips64_exec_MTLO 0xfc1fffff 0x00000013 True 13,
    mk_tag ''mul'' mips64_exec_MUL 0xfc0007ff 0x70000002 True 4,
    mk_tag ''mult'' mips64_exec_MULT 0xfc00ffff 0x00000018 True 17,
    mk_tag ''multu'' mips64_exec_MULTU 0xfc00ffff 0x00000019 True 17,
    mk_tag ''nop'' mips64_exec_NOP 0xffffffff 0x00000000 True 1,
    mk_tag ''nor'' mips64_exec_NOR 0xfc0007ff 0x00000027 True 3,
    mk_tag ''or'' mips64_exec_OR 0xfc0007ff 0x00000025 True 3,
    mk_tag ''ori'' mips64_exec_ORI 0xfc000000 0x34000000 True 5,
    mk_tag ''pref'' mips64_exec_PREF 0xfc000000 0xcc000000 True 0,
    mk_tag ''prefi'' mips64_exec_PREFI 0xfc0007ff 0x4c00000f True 0,
    mk_tag ''sb'' mips64_exec_SB 0xfc000000 0xa0000000 True 2,
    mk_tag ''sc'' mips64_exec_SC 0xfc000000 0xe0000000 True 2,
    mk_tag ''sd'' mips64_exec_SD 0xfc000000 0xfc000000 True 2,
    mk_tag ''sdc1'' mips64_exec_SDC1 0xfc000000 0xf4000000 True 3,
    mk_tag ''sdl'' mips64_exec_SDL 0xfc000000 0xb0000000 True 2,
    mk_tag ''sdr'' mips64_exec_SDR 0xfc000000 0xb4000000 True 2,
    mk_tag ''sh'' mips64_exec_SH 0xfc000000 0xa4000000 True 2,
    mk_tag ''sll'' mips64_exec_SLL 0xffe0003f 0x00000000 True 7,
    mk_tag ''sllv'' mips64_exec_SLLV 0xfc0007ff 0x00000004 True 4,
    mk_tag ''slt'' mips64_exec_SLT 0xfc0007ff 0x0000002a True 3,
    mk_tag ''slti'' mips64_exec_SLTI 0xfc000000 0x28000000 True 5,
    mk_tag ''sltiu'' mips64_exec_SLTIU 0xfc000000 0x2c000000 True 5,
    mk_tag ''sltu'' mips64_exec_SLTU 0xfc0007ff 0x0000002b True 3,
    mk_tag ''sra'' mips64_exec_SRA 0xffe0003f 0x00000003 True 7,
    mk_tag ''srav'' mips64_exec_SRAV 0xfc0007ff 0x00000007 True 4,
    mk_tag ''srl'' mips64_exec_SRL 0xffe0003f 0x00000002 True 7,
    mk_tag ''srlv'' mips64_exec_SRLV 0xfc0007ff 0x00000006 True 4,
    mk_tag ''sub'' mips64_exec_SUB 0xfc0007ff 0x00000022 True 3,
    mk_tag ''subu'' mips64_exec_SUBU 0xfc0007ff 0x00000023 True 3,
    mk_tag ''sw'' mips64_exec_SW 0xfc000000 0xac000000 True 2,
    mk_tag ''swl'' mips64_exec_SWL 0xfc000000 0xa8000000 True 2,
    mk_tag ''swr'' mips64_exec_SWR 0xfc000000 0xb8000000 True 2,
    mk_tag ''sync'' mips64_exec_SYNC 0xfffff83f 0x0000000f True 1,
    mk_tag ''syscall'' mips64_exec_SYSCALL 0xfc00003f 0x0000000c True 1,
    mk_tag ''teq'' mips64_exec_TEQ 0xfc00003f 0x00000034 True 17,
    mk_tag ''teqi'' mips64_exec_TEQI 0xfc1f0000 0x040c0000 True 20,
    mk_tag ''tlbp'' mips64_exec_TLBP 0xffffffff 0x42000008 True 1,
    mk_tag ''tlbr'' mips64_exec_TLBR 0xffffffff 0x42000001 True 1,
    mk_tag ''tlbwi'' mips64_exec_TLBWI 0xffffffff 0x42000002 True 1,
    mk_tag ''tlbwr'' mips64_exec_TLBWR 0xffffffff 0x42000006 True 1,
    mk_tag ''xor'' mips64_exec_XOR 0xfc0007ff 0x00000026 True 3,
    mk_tag ''xori'' mips64_exec_XORI 0xfc000000 0x38000000 True 5,
    mk_tag ''unknown'' mips64_exec_unknown 0x00000000 0x00000000 True 0]"

definition mips64_exec_chk_lo :: "'m exec_tag \<Rightarrow> u32 \<Rightarrow> bool" where
  "mips64_exec_chk_lo tag value \<longleftrightarrow> value AND tag_mask tag = tag_value tag AND 0xFFFF"

definition mips64_exec_chk_hi :: "'m exec_tag \<Rightarrow> u32 \<Rightarrow> bool" where
  "mips64_exec_chk_hi tag value \<longleftrightarrow> value AND drop_bit 16 (tag_mask tag) = drop_bit 16 (tag_value tag)"

text \<open>The CRC that identifies the table on disk: masks and values, in memory order.\<close>

definition tags_crc :: "'m exec_tag list \<Rightarrow> u32" where
  "tags_crc tags = fold (\<lambda>t crc.
      crc32_compute (NOT (crc32_compute (NOT crc) (le_bytes 4 (tag_mask t)))) (le_bytes 4 (tag_value t)))
    tags 0"

definition mips64_exec_create_ilt :: "'m itself \<Rightarrow> insn_lookup option \<Rightarrow> insn_lookup outcome" where
  "mips64_exec_create_ilt ty cache =
    (let tags = mips64_exec_tags :: 'm exec_tag list
     in ilt_create cache (tags_crc tags) (length tags)
          (\<lambda>i. mips64_exec_chk_lo (tags ! i)) (\<lambda>i. mips64_exec_chk_hi (tags ! i)))"

section \<open>Execution of one instruction\<close>

definition mips64_exec_bdslot ::
  "'m mips_ops \<Rightarrow> ('m cpu_mips \<Rightarrow> u32 \<Rightarrow> 'm exec_result) \<Rightarrow> 'm delay_slot" where
  "mips64_exec_bdslot ops exec cpu =
     bind_out (mips64_exec_fetch ops (pc cpu + 4) cpu) (\<lambda>(insn, cpu). exec cpu insn)"

primrec mips64_exec_single_instruction ::
  "insn_lookup \<Rightarrow> 'm mips_ops \<Rightarrow> nat \<Rightarrow> 'm cpu_mips \<Rightarrow> u32 \<Rightarrow> 'm exec_result" where
  "mips64_exec_single_instruction ilt ops 0 = (\<lambda>cpu insn. Inl Stack_Overflow)"
| "mips64_exec_single_instruction ilt ops (Suc frames) = (\<lambda>cpu insn.
     (let cpu = mips64_exec_inc_cp0_cnt cpu
      in bind_out (ilt_lookup ilt insn) (\<lambda>index.
           if index < 0 \<or> int (length (mips64_exec_tags :: 'm exec_tag list)) \<le> index then Inl Out_Of_Bounds
           else tag_exec (mips64_exec_tags ! nat index) ops
                  (mips64_exec_bdslot ops (mips64_exec_single_instruction ilt ops frames)) cpu insn)))"

definition mips64_exec_single_step ::
  "insn_lookup \<Rightarrow> 'm mips_ops \<Rightarrow> nat \<Rightarrow> 'm cpu_mips \<Rightarrow> u32 \<Rightarrow> 'm exec_result" where
  "mips64_exec_single_step ilt ops frames cpu insn =
     bind_out (mips64_exec_single_instruction ilt ops frames cpu insn) (\<lambda>r.
       case r of Ret res cpu \<Rightarrow> ret0 (if res = 0 then cpu\<lparr>pc := pc cpu + 4\<rparr> else cpu)
               | Exec_Loop cpu \<Rightarrow> Inr (Exec_Loop cpu))"

section \<open>The run loop\<close>

text \<open>
  What one turn of \<open>mips64_exec_run_cpu\<close> reads and writes beside the CPU: the state and the
  idle counter of the generic CPU, and the local counter of the timer check.  The sleep of
  \<open>cpu_idle_loop\<close> changes none of it.
\<close>

record 'm run_state =
  rs_cpu :: "'m cpu_mips"
  rs_running :: bool            \<comment> \<open>\<open>gen->state == CPU_STATE_RUNNING\<close>\<close>
  rs_idle_count :: u32
  rs_idle_max :: u32
  rs_timer_irq_check :: u32

datatype 's turn = Stopped 's | Next_Turn 's

definition run_idle_check :: "'m run_state \<Rightarrow> 'm run_state" where
  "run_idle_check s =
    (if pc (rs_cpu s) = idle_pc (rs_cpu s) then
       (let s = s\<lparr>rs_idle_count := rs_idle_count s + 1\<rparr>
        in if rs_idle_count s = rs_idle_max s then s\<lparr>rs_idle_count := 0\<rparr> else s)
     else s)"

definition run_timer_check :: "'m run_state \<Rightarrow> 'm run_state" where
  "run_timer_check s =
    (let s = s\<lparr>rs_timer_irq_check := rs_timer_irq_check s + 1\<rparr>; cpu = rs_cpu s
     in if rs_timer_irq_check s = timer_irq_check_itv cpu then
          (let s = s\<lparr>rs_timer_irq_check := 0\<rparr>
           in if timer_irq_pending cpu \<noteq> 0 \<and> irq_disable cpu = 0 then
                (let cpu = mips64_trigger_timer_irq cpu;
                     cpu = mips64_trigger_irq cpu;
                     cpu = cpu\<lparr>timer_irq_pending := timer_irq_pending cpu - 1\<rparr>
                 in s\<lparr>rs_cpu := cpu\<rparr>)
              else s)
        else s)"

definition mips64_exec_run_turn :: "insn_lookup \<Rightarrow> 'm mips_ops \<Rightarrow> nat \<Rightarrow> 'm run_state \<Rightarrow> 'm run_state turn outcome" where
  "mips64_exec_run_turn ilt ops frames s =
    (if \<not> rs_running s then Inr (Stopped s)
     else (let s = run_timer_check (run_idle_check s);
               cpu = set_gpr 0 0 (rs_cpu s)
           in if irq_pending cpu \<noteq> 0 then Inr (Next_Turn (s\<lparr>rs_cpu := mips64_trigger_irq cpu\<rparr>))
              else bind_out (mips64_exec_fetch ops (pc cpu) cpu) (\<lambda>(insn, cpu).
                   bind_out (mips64_exec_single_instruction ilt ops frames cpu insn) (\<lambda>r.
                     case r of
                       Ret res cpu \<Rightarrow>
                         Inr (Next_Turn (s\<lparr>rs_cpu := (if res = 0 then cpu\<lparr>pc := pc cpu + 4\<rparr> else cpu)\<rparr>))
                     | Exec_Loop cpu \<Rightarrow> Inr (Next_Turn (s\<lparr>rs_cpu := cpu, rs_idle_count := 0\<rparr>))))))"

end
