(* ===== verification/Mips64_Decode.thy ===== *)
theory Mips64_Decode
  imports Mips64_Exec
begin

text \<open>
  Decoding: the lookup table that \<open>mips64_exec_create_ilt\<close> compiles from
  \<open>mips64_exec_tags\<close> sends every opcode to the first entry whose mask and value it meets, so
  that the execution of one instruction is the function of that entry.  Then the depth of the
  recursion through delay slots: two frames are enough unless a branch sits in a delay slot.
\<close>

lemmas exec_insn_defs =
  mips64_exec_unknown_def mips64_exec_ADD_def mips64_exec_ADDI_def mips64_exec_ADDIU_def
  mips64_exec_ADDU_def mips64_exec_AND_def mips64_exec_ANDI_def mips64_exec_B_def
  mips64_exec_BAL_def mips64_exec_BEQ_def mips64_exec_BEQL_def mips64_exec_BEQZ_def
  mips64_exec_BNEZ_def mips64_exec_BGEZ_def mips64_exec_BGEZAL_def mips64_exec_BGEZALL_def
  mips64_exec_BGEZL_def mips64_exec_BGTZ_def mips64_exec_BGTZL_def mips64_exec_BLEZ_def
  mips64_exec_BLEZL_def mips64_exec_BLTZ_def mips64_exec_BLTZAL_def mips64_exec_BLTZALL_def
  mips64_exec_BLTZL_def mips64_exec_BNE_def mips64_exec_BNEL_def mips64_exec_BREAK_def
  mips64_exec_CACHE_def mips64_exec_CFC0_def mips64_exec_CTC0_def mips64_exec_DADDIU_def
  mips64_exec_DADDU_def mips64_exec_DIV_def mips64_exec_DIVU_def mips64_exec_DMFC0_def
  mips64_exec_DMFC1_def mips64_exec_DMTC0_def mips64_exec_DMTC1_def mips64_exec_DSLL_def
  mips64_exec_DSLL32_def mips64_exec_DSLLV_def mips64_exec_DSRA_def mips64_exec_DSRA32_def
  mips64_exec_DSRAV_def mips64_exec_DSRL_def mips64_exec_DSRL32_def mips64_exec_DSRLV_def
  mips64_exec_DSUBU_def mips64_exec_ERET_def mips64_exec_J_def mips64_exec_JAL_def
  mips64_exec_JALR_def mips64_exec_JR_def mips64_exec_LB_def mips64_exec_LBU_def
  mips64_exec_LD_def mips64_exec_LDC1_def mips64_exec_LDL_def mips64_exec_LDR_def
  mips64_exec_LH_def mips64_exec_LHU_def mips64_exec_LI_def mips64_exec_LL_def
  mips64_exec_LUI_def mips64_exec_LW_def mips64_exec_LWL_def mips64_exec_LWR_def
  mips64_exec_LWU_def mips64_exec_MFC0_def mips64_exec_MFC1_def mips64_exec_MFHI_def
  mips64_exec_MFLO_def mips64_exec_MOVE_def mips64_exec_MTC0_def mips64_exec_MTC1_def
  mips64_exec_MTHI_def mips64_exec_MTLO_def mips64_exec_MUL_def mips64_exec_MULT_def
  mips64_exec_MULTU_def mips64_exec_NOP_def mips64_exec_NOR_def mips64_exec_OR_def
  mips64_exec_ORI_def mips64_exec_PREF_def mips64_exec_PREFI_def mips64_exec_SB_def
  mips64_exec_SC_def mips64_exec_SD_def mips64_exec_SDL_def mips64_exec_SDR_def
  mips64_exec_SDC1_def mips64_exec_SH_def mips64_exec_SLL_def mips64_exec_SLLV_def
  mips64_exec_SLT_def mips64_exec_SLTI_def mips64_exec_SLTIU_def mips64_exec_SLTU_def
  mips64_exec_SRA_def mips64_exec_SRAV_def mips64_exec_SRL_def mips64_exec_SRLV_def
  mips64_exec_SUB_def mips64_exec_SUBU_def mips64_exec_SW_def mips64_exec_SWL_def
  mips64_exec_SWR_def mips64_exec_SYNC_def mips64_exec_SYSCALL_def mips64_exec_TEQ_def
  mips64_exec_TEQI_def mips64_exec_TLBP_def mips64_exec_TLBR_def mips64_exec_TLBWI_def
  mips64_exec_TLBWR_def mips64_exec_XOR_def mips64_exec_XORI_def

section \<open>Decoding\<close>

lemma length_tags: "length mips64_exec_tags = 120"
  by (simp add: mips64_exec_tags_def)

definition tag_matches :: "u32 \<Rightarrow> 'm exec_tag \<Rightarrow> bool" where
  "tag_matches insn t \<longleftrightarrow> insn AND tag_mask t = tag_value t"

lemma hi_half_eq: "drop_bit 16 (a :: u32) = drop_bit 16 b \<longleftrightarrow> (\<forall>n. 16 \<le> n \<longrightarrow> bit a n = bit b n)"
proof
  assume e: "drop_bit 16 a = drop_bit 16 b"
  show "\<forall>n. 16 \<le> n \<longrightarrow> bit a n = bit b n"
  proof (intro allI impI)
    fix n :: nat assume "16 \<le> n"
    then obtain k where "n = 16 + k" using le_Suc_ex by blast
    then show "bit a n = bit b n" using e bit_drop_bit_eq [of 16 a] bit_drop_bit_eq [of 16 b] by (metis comp_apply)
  qed
next
  assume "\<forall>n. 16 \<le> n \<longrightarrow> bit a n = bit b n"
  then show "drop_bit 16 a = drop_bit 16 b"
    by (intro bit_word_eqI) (simp add: bit_drop_bit_eq)
qed

lemma lo_half_eq: "take_bit 16 (a :: u32) = take_bit 16 b \<longleftrightarrow> (\<forall>n. n < 16 \<longrightarrow> bit a n = bit b n)"
proof
  assume e: "take_bit 16 a = take_bit 16 b"
  show "\<forall>n. n < 16 \<longrightarrow> bit a n = bit b n"
    using e bit_take_bit_iff [of 16 a] bit_take_bit_iff [of 16 b] by metis
next
  assume "\<forall>n. n < 16 \<longrightarrow> bit a n = bit b n"
  then show "take_bit 16 a = take_bit 16 b"
    by (intro bit_word_eqI) (auto simp: bit_take_bit_iff)
qed

lemma half_checks:
  "mips64_exec_chk_hi t (drop_bit 16 insn) \<and> mips64_exec_chk_lo t (insn AND 0xFFFF) \<longleftrightarrow> tag_matches insn t"
proof -
  let ?m = "tag_mask t" and ?v = "tag_value t"
  have m: "(0xFFFF :: u32) = mask 16" by (simp add: mask_eq_exp_minus_1)
  have "insn AND 0xFFFF AND ?m = take_bit 16 (insn AND ?m)" "?v AND 0xFFFF = take_bit 16 ?v"
    unfolding m by (simp_all add: take_bit_eq_mask ac_simps)
  then have lo: "mips64_exec_chk_lo t (insn AND 0xFFFF) \<longleftrightarrow> take_bit 16 (insn AND ?m) = take_bit 16 ?v"
    by (simp only: mips64_exec_chk_lo_def and.assoc)
  have hi: "mips64_exec_chk_hi t (drop_bit 16 insn) \<longleftrightarrow> drop_bit 16 (insn AND ?m) = drop_bit 16 ?v"
    by (simp only: mips64_exec_chk_hi_def drop_bit_and)
  have "insn AND ?m = ?v \<longleftrightarrow> (\<forall>n. bit (insn AND ?m) n = bit ?v n)"
    by (auto intro: bit_word_eqI)
  then show ?thesis
    unfolding hi lo tag_matches_def hi_half_eq lo_half_eq by (meson not_le_imp_less)
qed

definition decode :: "u32 \<Rightarrow> 'm exec_tag" where
  "decode insn = (case List.find (tag_matches insn) mips64_exec_tags of Some t \<Rightarrow> t
     | None \<Rightarrow> mk_tag ''unknown'' mips64_exec_unknown 0 0 True 0)"

lemma find_upt_nth:
  "List.find (\<lambda>i. P (xs ! i)) [0..<length xs] = Some i \<Longrightarrow> List.find P xs = Some (xs ! i) \<and> i < length xs"
proof -
  assume "List.find (\<lambda>i. P (xs ! i)) [0..<length xs] = Some i"
  then have "i < length xs" "P (xs ! i)" "\<And>j. j < i \<Longrightarrow> \<not> P (xs ! j)"
    by (auto simp: find_Some_iff)
  then show ?thesis by (auto simp: find_Some_iff)
qed

text \<open>What it means for a lookup table to belong to the opcode table.\<close>

definition ilt_ok :: "'m itself \<Rightarrow> insn_lookup \<Rightarrow> bool" where
  "ilt_ok ty ilt \<longleftrightarrow> (\<forall>insn. ilt_lookup ilt insn =
     Inr (first_rule (length (mips64_exec_tags :: 'm exec_tag list))
       (\<lambda>i. tag_matches insn ((mips64_exec_tags :: 'm exec_tag list) ! i))))"

lemma create_ilt_ok: "\<exists>ilt. mips64_exec_create_ilt TYPE('m) None = Inr ilt \<and> ilt_ok TYPE('m) ilt"
proof -
  have "length (mips64_exec_tags :: 'm exec_tag list) < 2 ^ 31" by (simp add: length_tags)
  from ilt_compiled [OF this, of "tags_crc (mips64_exec_tags :: 'm exec_tag list)"
      "\<lambda>i. mips64_exec_chk_lo ((mips64_exec_tags :: 'm exec_tag list) ! i)"
      "\<lambda>i. mips64_exec_chk_hi ((mips64_exec_tags :: 'm exec_tag list) ! i)"]
  show ?thesis
    unfolding mips64_exec_create_ilt_def Let_def ilt_ok_def by (simp add: half_checks)
qed

lemma last_tag: "tag_matches insn (mips64_exec_tags ! 119)"
  by (simp add: tag_matches_def mips64_exec_tags_def mk_tag_def)

lemma lookup_decode:
  fixes ilt :: insn_lookup
  assumes "ilt_ok TYPE('m) ilt"
  obtains i where "ilt_lookup ilt insn = Inr (int i)" "i < 120"
    "(mips64_exec_tags :: 'm exec_tag list) ! i = decode insn"
proof -
  let ?tags = "mips64_exec_tags :: 'm exec_tag list"
  have "List.find (\<lambda>i. tag_matches insn (?tags ! i)) [0..<length ?tags] \<noteq> None"
    using last_tag [of insn] by (auto simp: find_None_iff length_tags intro!: exI [of _ 119])
  then obtain i where i: "List.find (\<lambda>i. tag_matches insn (?tags ! i)) [0..<length ?tags] = Some i" by auto
  from find_upt_nth [OF i] have f: "List.find (tag_matches insn) ?tags = Some (?tags ! i)" "i < 120"
    by (simp_all add: length_tags)
  show thesis
    using assms that [of i] i f by (simp add: ilt_ok_def first_rule_def decode_def)
qed

lemma single_instruction_decode:
  assumes "ilt_ok TYPE('m) ilt"
  shows "mips64_exec_single_instruction ilt (ops :: 'm mips_ops) (Suc frames) cpu insn =
    tag_exec (decode insn) ops (mips64_exec_bdslot ops (mips64_exec_single_instruction ilt ops frames))
      (mips64_exec_inc_cp0_cnt cpu) insn"
proof -
  obtain i where "ilt_lookup ilt insn = Inr (int i)" "i < 120"
    "(mips64_exec_tags :: 'm exec_tag list) ! i = decode insn"
    using lookup_decode [OF assms] by blast
  then show ?thesis by (simp add: Let_def length_tags)
qed

text \<open>C2: With the lookup table compiled from the opcode table, executing any 32-bit opcode runs
  the function of the first entry of \<open>mips64_exec_tags\<close> whose masked value it has; the lookup
  never fails.\<close>

theorem mips64_decode:
  "\<exists>ilt. mips64_exec_create_ilt TYPE('m) None = Inr ilt \<and>
     (\<forall>ops frames cpu insn. mips64_exec_single_instruction ilt (ops :: 'm mips_ops) (Suc frames) cpu insn =
        tag_exec (decode insn) ops (mips64_exec_bdslot ops (mips64_exec_single_instruction ilt ops frames))
          (mips64_exec_inc_cp0_cnt cpu) insn)"
  using create_ilt_ok [where 'm = 'm] single_instruction_decode [where 'm = 'm] by blast

text \<open>Instructions marked as allowed in a delay slot never run one themselves.\<close>

lemma delay_slot_flag:
  assumes "t \<in> set mips64_exec_tags" "tag_delay_slot t"
  shows "tag_exec t ops bd cpu insn = tag_exec t ops bd' cpu insn"
  using assms unfolding mips64_exec_tags_def
  by (simp only: list.set insert_iff empty_iff) (elim disjE; simp add: mk_tag_def exec_insn_defs)

lemma decode_in_tags: "(decode insn :: 'm exec_tag) \<in> set mips64_exec_tags"
proof -
  obtain t where "List.find (tag_matches insn) (mips64_exec_tags :: 'm exec_tag list) = Some t"
  proof (cases "List.find (tag_matches insn) (mips64_exec_tags :: 'm exec_tag list)")
    case None
    moreover have "mips64_exec_tags ! 119 \<in> set (mips64_exec_tags :: 'm exec_tag list)"
      by (rule nth_mem) (simp add: length_tags)
    ultimately show ?thesis using last_tag [of insn] by (auto simp: find_None_iff)
  qed blast
  then show ?thesis by (auto simp: decode_def dest: find_Some_in_set)
qed

lemma plain_instruction_frames:
  assumes "ilt_ok TYPE('m) ilt" "tag_delay_slot (decode insn :: 'm exec_tag)"
  shows "mips64_exec_single_instruction ilt (ops :: 'm mips_ops) (Suc f) cpu insn =
    mips64_exec_single_instruction ilt ops (Suc g) cpu insn"
  unfolding single_instruction_decode [OF assms(1)]
  by (rule delay_slot_flag [OF decode_in_tags assms(2)])

text \<open>Every instruction runs its delay slot, if any, at its own program counter.\<close>

lemma delay_slot_pc:
  assumes "t \<in> set mips64_exec_tags" "\<And>c. pc c = pc cpu \<Longrightarrow> bd c = bd' c"
  shows "tag_exec t ops bd cpu insn = tag_exec t ops bd' cpu insn"
  using assms(1) unfolding mips64_exec_tags_def
  by (simp only: list.set insert_iff empty_iff)
    (elim disjE; simp add: mk_tag_def exec_insn_defs jump_to_def branch_if_def branch_likely_def Let_def assms(2))


lemma fetch_cached:
  assumes "njm_exec_page cpu = addr AND NOT 0xFFF" "njm_exec_ptr cpu = Some page"
  shows "mips64_exec_fetch ops addr cpu =
    Inr (host_insn ops (machine cpu) page (unat (drop_bit 2 (addr AND 0xFFF))), cpu)"
  using assms by (simp add: mips64_exec_fetch_def Let_def MIPS_MIN_PAGE_IMASK_def)

lemma inc_cnt_simps [simp]:
  "pc (mips64_exec_inc_cp0_cnt cpu) = pc cpu" "gpr (mips64_exec_inc_cp0_cnt cpu) = gpr cpu"
  "njm_exec_page (mips64_exec_inc_cp0_cnt cpu) = njm_exec_page cpu"
  "njm_exec_ptr (mips64_exec_inc_cp0_cnt cpu) = njm_exec_ptr cpu"
  "machine (mips64_exec_inc_cp0_cnt cpu) = machine cpu"
  "cp0 (mips64_exec_inc_cp0_cnt cpu) = cp0 cpu" "lo (mips64_exec_inc_cp0_cnt cpu) = lo cpu"
  "hi (mips64_exec_inc_cp0_cnt cpu) = hi cpu" "ll_bit (mips64_exec_inc_cp0_cnt cpu) = ll_bit cpu"
  by (simp_all add: mips64_exec_inc_cp0_cnt_def)


section \<open>Witnesses\<close>

text \<open>A machine whose memory is full of one instruction, and a CPU that has its page at hand.\<close>

definition fill_ops :: "u32 \<Rightarrow> unit mips_ops" where
  "fill_ops insn = sample_ops\<lparr>host_insn := (\<lambda>_ _ _. insn)\<rparr>"

definition ready_cpu :: "unit cpu_mips" where
  "ready_cpu = sample_cpu\<lparr>njm_exec_page := 0xffffffffbfc00000, njm_exec_ptr := Some 0\<rparr>"

lemma fill_ops_fetch: "mips64_exec_fetch (fill_ops insn) addr cpu = Inr (i, c) \<Longrightarrow> i = insn"
  by (auto simp: mips64_exec_fetch_def Let_def fill_ops_def bind_out_Inr_iff split: option.splits)

lemma decode_nop: "decode 0 = mk_tag ''nop'' mips64_exec_NOP 0xffffffff 0 True 1"
  by (simp add: decode_def mips64_exec_tags_def tag_matches_def mk_tag_def)



end
