(* ===== verification/Mips64_Insn.thy ===== *)
theory Mips64_Insn
  imports Mips64_Decode
begin

text \<open>
  What the instructions of \<open>mips64_exec.c\<close> compute: 32-bit results in sign-extended form,
  signed and unsigned products and quotients as integers, the relation between the plain and the
  likely branches, and the delay-slot behaviours in which the interpreter departs from a MIPS
  processor.
\<close>

section \<open>Signed values of 32-bit halves\<close>

lemma ucast_sign_extend32 [simp]: "(ucast (sign_extend x 32) :: u32) = ucast x"
  by (rule bit_word_eqI) (simp add: bit_ucast_iff bit_sign_extend)

lemma ucast_ucast32 [simp]: "(ucast (ucast (w :: u32) :: u64) :: u32) = w"
  by (rule bit_word_eqI) (simp add: bit_ucast_iff)

lemma sint_ucast32: "sint (ucast x :: u32) = signed_take_bit 31 (uint x)" for x :: u64
  by transfer (simp add: signed_take_bit_take_bit signed_take_bit_eq_take_bit_shift take_bit_take_bit)

lemma sint_bounds32: "- (2 ^ 31) \<le> sint (a :: u32) \<and> sint a < 2 ^ 31"
  using sint_greater_eq [of a] sint_less [of a] by simp

lemma sint_range64: "- (2 ^ 63) \<le> k \<Longrightarrow> k < 2 ^ 63 \<Longrightarrow> sint (word_of_int k :: u64) = k"
  by (simp add: signed_of_int signed_take_bit_int_eq_self)

lemma sint_range32: "- (2 ^ 31) \<le> k \<Longrightarrow> k < 2 ^ 31 \<Longrightarrow> sint (word_of_int k :: u32) = k"
  by (simp add: signed_of_int signed_take_bit_int_eq_self)

lemma abs_prod32:
  "\<bar>sint (a :: u32) * sint (b :: u32)\<bar> \<le> 2 ^ 62"
proof -
  have "\<bar>sint a\<bar> \<le> 2 ^ 31" "\<bar>sint b\<bar> \<le> 2 ^ 31"
    using sint_bounds32 [of a] sint_bounds32 [of b] by auto
  then have "\<bar>sint a\<bar> * \<bar>sint b\<bar> \<le> 2 ^ 31 * 2 ^ 31" by (intro mult_mono) auto
  then show ?thesis by (simp add: abs_mult)
qed

lemma signed_product:
  "sint (scast (a :: u32) * scast (b :: u32) :: u64) = sint a * sint b"
proof -
  have e: "(word_of_int (sint a * sint b) :: u64) = scast a * scast b" by simp
  have "- (2 ^ 63) \<le> sint a * sint b" "sint a * sint b < 2 ^ 63"
    using abs_prod32 [of a b] by (auto simp: abs_le_iff)
  then show ?thesis unfolding e [symmetric] by (rule sint_range64)
qed

lemma uint_low32: "uint (ucast (x :: u64) :: u32) = sint x mod 2 ^ 32"
proof -
  have "take_bit 32 (sint x) = take_bit 32 (uint x)"
    by (simp add: sint_uint take_bit_signed_take_bit)
  then show ?thesis by (simp add: unsigned_ucast_eq take_bit_eq_mod)
qed

lemma sint_high32: "sint (ucast (signed_drop_bit 32 (x :: u64)) :: u32) = sint x div 2 ^ 32"
proof -
  let ?y = "signed_drop_bit 32 x"
  have y: "sint ?y = sint x div 2 ^ 32"
    by (simp add: sint_signed_drop_bit_eq drop_bit_eq_div)
  have "- (2 ^ 31) \<le> sint x div 2 ^ 32" "sint x div 2 ^ 32 < 2 ^ 31"
    using sint_greater_eq [of x] sint_less [of x] by simp_all
  then have "signed_take_bit 31 (sint ?y) = sint ?y"
    unfolding y by (simp add: signed_take_bit_int_eq_self)
  moreover have "signed_take_bit 31 (sint ?y) = signed_take_bit 31 (uint ?y)"
    by (simp add: sint_uint signed_take_bit_signed_take_bit)
  ultimately show ?thesis by (simp add: sint_ucast32 y)
qed

lemma is_sext32_zero [simp, intro]: "is_sext32 0"
  by (simp add: is_sext32_def sign_extend_def)

section \<open>Results of 32-bit instructions\<close>

definition alu32_rd :: "'m insn_fn list" where
  "alu32_rd = [mips64_exec_ADD, mips64_exec_ADDU, mips64_exec_SUB, mips64_exec_SUBU, mips64_exec_MUL,
     mips64_exec_MOVE, mips64_exec_SLL, mips64_exec_SLLV, mips64_exec_SRA, mips64_exec_SRAV,
     mips64_exec_SRL, mips64_exec_SRLV]"

definition alu32_rt :: "'m insn_fn list" where
  "alu32_rt = [mips64_exec_ADDI, mips64_exec_ADDIU, mips64_exec_LUI, mips64_exec_LI]"

lemma is_sext32_sign_extend16: "is_sext32 (sign_extend x 16)"
  unfolding is_sext32_def by (rule bit_word_eqI) (auto simp: bit_sign_extend)

lemma is_sext32_lui: "is_sext32 (push_bit 16 (sign_extend x 16))"
  unfolding is_sext32_def by (rule bit_word_eqI) (auto simp: bit_sign_extend bit_push_bit_iff)

text \<open>C15: Every 32-bit arithmetic, move and shift instruction changes one register only, and leaves in
  it a 32-bit value in the sign-extended form a 64-bit MIPS processor requires.\<close>

theorem alu32_results_sign_extended:
  assumes "(f, r) \<in> set (map (\<lambda>f. (f, insn_rd insn)) alu32_rd @ map (\<lambda>f. (f, insn_rt insn)) alu32_rt)"
  shows "\<exists>v. f ops bd cpu insn = ret0 (set_gpr r v cpu) \<and> is_sext32 v"
  using assms
  by (auto simp: alu32_rd_def alu32_rt_def exec_insn_defs Let_def is_sext32_sign_extend16 is_sext32_lui)

theorem alu32_results_sign_extended_witness:
  "\<exists>v. mips64_exec_ADDU sample_ops (\<lambda>c. ret0 c) sample_cpu 0x00430821 = ret0 (set_gpr 1 v sample_cpu) \<and> is_sext32 v"
  using alu32_results_sign_extended [of mips64_exec_ADDU 1 "0x00430821" sample_ops "\<lambda>c. ret0 c" sample_cpu]
  by (simp add: alu32_rd_def bits_def)

text \<open>\<open>ADDU\<close>, \<open>ADD\<close>, \<open>SUBU\<close> and \<open>SUB\<close> on 32-bit operands compute the signed sum and
  difference whenever it fits in 32 bits.  On overflow \<open>ADD\<close> and \<open>SUB\<close> wrap like their
  unsigned companions instead of raising an exception.\<close>

theorem add_sub_signed:
  assumes "- (2 ^ 31) \<le> k" "k < 2 ^ 31"
    and "(f, k) \<in> {(mips64_exec_ADD, a + b), (mips64_exec_ADDU, a + b), (mips64_exec_SUB, a - b), (mips64_exec_SUBU, a - b)}"
    and "a = sint (ucast (gpr cpu (insn_rs insn)) :: u32)" "b = sint (ucast (gpr cpu (insn_rt insn)) :: u32)"
  shows "\<exists>v. f ops bd cpu insn = ret0 (set_gpr (insn_rd insn) v cpu) \<and> sint v = k"
proof -
  let ?a = "ucast (gpr cpu (insn_rs insn)) :: u32" and ?b = "ucast (gpr cpu (insn_rt insn)) :: u32"
  have sum: "sint (?a + ?b) = sint ?a + sint ?b"
    if "- (2 ^ 31) \<le> sint ?a + sint ?b" "sint ?a + sint ?b < 2 ^ 31"
    using sint_range32 [OF that] by simp
  have diff: "sint (?a - ?b) = sint ?a - sint ?b"
    if "- (2 ^ 31) \<le> sint ?a - sint ?b" "sint ?a - sint ?b < 2 ^ 31"
    using sint_range32 [OF that] by simp
  have se: "sint (sign_extend (ucast w) 32) = sint w" for w :: u32
    by (simp add: sint_sign_extend32)
  show ?thesis
    using assms sum diff by (auto simp: exec_insn_defs Let_def se)
qed

theorem add_sub_signed_witness:
  "\<exists>v. mips64_exec_SUBU sample_ops (\<lambda>c. ret0 c) (set_gpr 3 5 sample_cpu) 0x00430823 =
     ret0 (set_gpr 1 v (set_gpr 3 5 sample_cpu)) \<and> sint v = -5"
proof -
  have f: "insn_rs 0x00430823 = 2" "insn_rt 0x00430823 = 3" "insn_rd 0x00430823 = 1" by (simp_all add: bits_def)
  have "\<exists>v. mips64_exec_SUBU sample_ops (\<lambda>c. ret0 c) (set_gpr 3 5 sample_cpu) 0x00430823 =
      ret0 (set_gpr (insn_rd 0x00430823) v (set_gpr 3 5 sample_cpu)) \<and> sint v = -5"
    by (rule add_sub_signed [where a = 0 and b = 5]) (simp_all only: f set_gpr_simps, simp_all add: sample_cpu_simps)
  then show ?thesis unfolding f .
qed

section \<open>Products and quotients\<close>

lemma uint_high32: "uint (ucast (drop_bit 32 (x :: u64)) :: u32) = uint x div 2 ^ 32"
proof -
  have "uint (drop_bit 32 x) = uint x div 2 ^ 32"
    by (simp add: drop_bit_eq_div uint_div_distrib)
  moreover have "uint x div 2 ^ 32 < 2 ^ 32" using uint_lt2p [of x] by simp
  ultimately show ?thesis
    by (simp add: unsigned_ucast_eq take_bit_int_eq_self_iff pos_imp_zdiv_nonneg_iff)
qed

lemma unsigned_product:
  "uint (ucast (a :: u32) * ucast (b :: u32) :: u64) = uint a * uint b"
proof -
  have e: "(word_of_int (uint a * uint b) :: u64) = ucast a * ucast b" by simp
  have "uint a < 2 ^ 32" "uint b < 2 ^ 32" using uint_lt2p [of a] uint_lt2p [of b] by simp_all
  then have "uint a * uint b < 2 ^ 32 * 2 ^ 32" by (intro mult_strict_mono) auto
  then show ?thesis
    unfolding e [symmetric] by (subst unsigned_of_int) (simp add: take_bit_int_eq_self)
qed

text \<open>\<open>MULT\<close> leaves in HI and LO the two halves of the exact 64-bit signed product of the low
  words of its operands, and \<open>MULTU\<close> those of the unsigned product, both in sign-extended form.\<close>

theorem mult_exact:
  "\<exists>c u. mips64_exec_MULT ops bd cpu insn = ret0 c \<and> mips64_exec_MULTU ops bd cpu insn = ret0 u \<and>
     sint (hi c) * 2 ^ 32 + uint (ucast (lo c) :: u32) =
       sint (ucast (gpr cpu (insn_rs insn)) :: u32) * sint (ucast (gpr cpu (insn_rt insn)) :: u32) \<and>
     uint (ucast (hi u) :: u32) * 2 ^ 32 + uint (ucast (lo u) :: u32) =
       uint (ucast (gpr cpu (insn_rs insn)) :: u32) * uint (ucast (gpr cpu (insn_rt insn)) :: u32) \<and>
     is_sext32 (hi c) \<and> is_sext32 (lo c) \<and> is_sext32 (hi u) \<and> is_sext32 (lo u)"
proof -
  let ?a = "ucast (gpr cpu (insn_rs insn)) :: u32" and ?b = "ucast (gpr cpu (insn_rt insn)) :: u32"
  let ?p = "scast ?a * scast ?b :: u64" and ?q = "ucast ?a * ucast ?b :: u64"
  have "sint (sign_extend (signed_drop_bit 32 ?p) 32) * 2 ^ 32 + uint (ucast (sign_extend ?p 32) :: u32) = sint ?a * sint ?b"
    unfolding sint_sign_extend32 ucast_sign_extend32 sint_high32 uint_low32 signed_product by simp
  moreover have "uint (ucast ?q :: u32) = uint ?q mod 2 ^ 32"
    by (simp add: unsigned_ucast_eq take_bit_eq_mod)
  then have "uint (ucast (sign_extend (drop_bit 32 ?q) 32) :: u32) * 2 ^ 32 + uint (ucast (sign_extend ?q 32) :: u32) = uint ?a * uint ?b"
    unfolding ucast_sign_extend32 uint_high32 unsigned_product by simp
  ultimately show ?thesis
    unfolding mips64_exec_MULT_def mips64_exec_MULTU_def Let_def by force
qed

text \<open>C14: \<open>DIV\<close> either kills the emulator (exactly when the low word of the divisor is zero, or for
  the most negative word divided by -1) or leaves the truncated quotient in LO and the remainder,
  smaller than the divisor, in HI.\<close>

theorem div_exact:
  defines "a \<equiv> (\<lambda>cpu insn. sint (ucast (gpr cpu (insn_rs insn)) :: u32))"
    and "b \<equiv> (\<lambda>cpu insn. sint (ucast (gpr cpu (insn_rt insn)) :: u32))"
  shows "if b cpu insn = 0 \<or> a cpu insn = - (2 ^ 31) \<and> b cpu insn = -1
    then mips64_exec_DIV ops bd cpu insn = Inl Div_By_Zero
    else \<exists>c. mips64_exec_DIV ops bd cpu insn = ret0 c \<and>
      sint (lo c) * b cpu insn + sint (hi c) = a cpu insn \<and>
      \<bar>sint (hi c)\<bar> < \<bar>b cpu insn\<bar> \<and> sint (lo c) = a cpu insn sdiv b cpu insn \<and>
      is_sext32 (lo c) \<and> is_sext32 (hi c)"
proof -
  let ?a = "ucast (gpr cpu (insn_rs insn)) :: u32" and ?b = "ucast (gpr cpu (insn_rt insn)) :: u32"
  have z: "sint ?b = 0 \<longleftrightarrow> ?b = 0" by (metis signed_word_eqI signed_0)
  have m1: "sint ?b = -1 \<longleftrightarrow> ?b = -1" by (metis signed_word_eqI signed_minus_1)
  have mn: "sint ?a = - (2 ^ 31) \<longleftrightarrow> ?a = 0x80000000"
  proof -
    have "sint (0x80000000 :: u32) = - (2 ^ 31)" by simp
    then show ?thesis by (metis signed_word_eqI)
  qed
  show ?thesis
  proof (cases "?b = 0 \<or> ?a = 0x80000000 \<and> ?b = -1")
    case True
    then show ?thesis
      unfolding a_def b_def using z m1 mn by (auto simp: mips64_exec_DIV_def)
  next
    case False
    let ?q = "sint ?a sdiv sint ?b" and ?r = "sint ?a smod sint ?b"
    have bz: "sint ?b \<noteq> 0" using False z by blast
    have ra: "\<bar>sint ?a\<bar> \<le> 2 ^ 31" "\<bar>sint ?b\<bar> \<le> 2 ^ 31"
      using sint_bounds32 [of ?a] sint_bounds32 [of ?b] by auto
    have r: "- \<bar>sint ?b\<bar> < ?r" "?r < \<bar>sint ?b\<bar>" using smod_int_range [OF bz, of "sint ?a"] by auto
    have q: "- \<bar>sint ?a\<bar> \<le> ?q" "?q \<le> \<bar>sint ?a\<bar>" using sdiv_int_range [of "sint ?a" "sint ?b"] by auto
    have "?q \<noteq> 2 ^ 31"
    proof
      assume e: "?q = 2 ^ 31"
      then have "\<bar>sint ?a\<bar> = 2 ^ 31" using q(2) ra(1) by linarith
      then have a: "sint ?a = - (2 ^ 31)" using sint_bounds32 [of ?a] by linarith
      then have "sint ?b = -1" using e int_sdiv_negated_is_minus1 [of "sint ?a" "sint ?b"] by simp
      then show False using a False m1 mn by blast
    qed
    then have sq: "sint (c_div32 ?a ?b) = ?q" using q ra unfolding c_div32_def by (intro sint_range32) linarith+
    have sr: "sint (c_mod32 ?a ?b) = ?r" using r ra unfolding c_mod32_def by (intro sint_range32) linarith+
    have se: "sint (sign_extend (scast w) 32) = sint w" for w :: u32
    proof -
      have "(ucast (scast w :: u64) :: u32) = w"
        by (rule bit_word_eqI) (simp add: bit_ucast_iff bit_scast32)
      then show ?thesis by (simp add: sint_sign_extend32)
    qed
    let ?c = "cpu\<lparr>lo := sign_extend (scast (c_div32 ?a ?b)) 32, hi := sign_extend (scast (c_mod32 ?a ?b)) 32\<rparr>"
    have "mips64_exec_DIV ops bd cpu insn = ret0 ?c"
      using False by (auto simp: mips64_exec_DIV_def Let_def)
    moreover have "?q * sint ?b + ?r = sint ?a" by (simp add: sdiv_mult_smod_eq)
    moreover have "\<not> (b cpu insn = 0 \<or> a cpu insn = - (2 ^ 31) \<and> b cpu insn = -1)"
      unfolding a_def b_def using False z m1 mn by blast
    ultimately show ?thesis
      unfolding a_def b_def using r by (auto simp: se sq sr)
  qed
qed

section \<open>Branches\<close>

text \<open>The conditional branches without link, their likely forms and their conditions.\<close>

definition branch_table :: "('m insn_fn \<times> 'm insn_fn \<times> ('m cpu_mips \<Rightarrow> u32 \<Rightarrow> bool)) list" where
  "branch_table =
    [(mips64_exec_BEQ, mips64_exec_BEQL, \<lambda>c i. gpr c (insn_rs i) = gpr c (insn_rt i)),
     (mips64_exec_BNE, mips64_exec_BNEL, \<lambda>c i. gpr c (insn_rs i) \<noteq> gpr c (insn_rt i)),
     (mips64_exec_BGEZ, mips64_exec_BGEZL, \<lambda>c i. 0 \<le> sint (gpr c (insn_rs i))),
     (mips64_exec_BGTZ, mips64_exec_BGTZL, \<lambda>c i. 0 < sint (gpr c (insn_rs i))),
     (mips64_exec_BLEZ, mips64_exec_BLEZL, \<lambda>c i. sint (gpr c (insn_rs i)) \<le> 0),
     (mips64_exec_BLTZ, mips64_exec_BLTZL, \<lambda>c i. sint (gpr c (insn_rs i)) < 0)]"



section \<open>Where the interpreter departs from the processor\<close>

lemma decode_syscall: "decode 0x0000000c = mk_tag ''syscall'' mips64_exec_SYSCALL 0xfc00003f 0x0000000c True 1"
  and decode_jalr: "decode 0x03e00009 = mk_tag ''jalr'' mips64_exec_JALR 0xfc1f003f 0x00000009 False 15"
  and decode_move: "decode 0x00004021 = mk_tag ''move'' mips64_exec_MOVE 0xfc1f07ff 0x00000021 True 15"
  and decode_j: "decode 0x08000100 = mk_tag ''j'' mips64_exec_J 0xfc000000 0x08000000 False 11"
  by (simp_all add: decode_def mips64_exec_tags_def tag_matches_def mk_tag_def)

lemma slot_executes:
  assumes "ilt_ok TYPE('m) ilt"
    and "njm_exec_page c = (pc c + 4) AND NOT 0xFFF" "njm_exec_ptr c = Some page"
    and "host_insn (ops :: 'm mips_ops) (machine c) page (unat (drop_bit 2 ((pc c + 4) AND 0xFFF))) = slot"
  shows "mips64_exec_bdslot ops (mips64_exec_single_instruction ilt ops (Suc f)) c =
    tag_exec (decode slot) ops (mips64_exec_bdslot ops (mips64_exec_single_instruction ilt ops f))
      (mips64_exec_inc_cp0_cnt c) slot"
  using fetch_cached [OF assms(2,3), of ops] single_instruction_decode [OF assms(1)] assms(4)
  by (simp only: mips64_exec_bdslot_def bind_out_simps prod.case)

text \<open>A \<open>SYSCALL\<close> in the delay slot of a jump is lost: the exception is recorded (EXL set, EPC
  on the jump, branch-delay bit clear) but the jump then overwrites the program counter, so the
  exception vector is never entered.\<close>

theorem syscall_in_delay_slot_lost:
  assumes ilt: "ilt_ok TYPE('m) ilt"
    and page: "njm_exec_page cpu = (pc cpu + 4) AND NOT 0xFFF" "njm_exec_ptr cpu = Some page"
    and slot: "host_insn (ops :: 'm mips_ops) (machine cpu) page (unat (drop_bit 2 ((pc cpu + 4) AND 0xFFF))) = 0x0000000c"
    and exl: "\<not> bit (creg cpu MIPS_CP0_STATUS) 1"
  shows "\<exists>c. mips64_exec_single_instruction ilt ops 2 cpu 0x08000100 = ret1 c \<and>
    pc c = (pc cpu AND NOT 0x0fffffff) OR 0x400 \<and> bit (creg c MIPS_CP0_STATUS) 1 \<and>
    creg c MIPS_CP0_EPC = pc cpu \<and> \<not> bit (creg c MIPS_CP0_CAUSE) 31"
proof -
  let ?c = "mips64_exec_inc_cp0_cnt cpu"
  let ?s = "mips64_exec_syscall (mips64_exec_inc_cp0_cnt ?c)"
  have s: "mips64_exec_bdslot ops (mips64_exec_single_instruction ilt ops (Suc 0)) ?c = ret1 ?s"
    using slot_executes [OF ilt, of ?c page ops "0x0000000c" 0] page slot
    by (simp add: decode_syscall mk_tag_def mips64_exec_SYSCALL_def)
  have "jump_target ?c 0x08000100 = (pc cpu AND NOT 0x0fffffff) OR 0x400"
    by (simp add: jump_target_def bits_def)
  then have "mips64_exec_single_instruction ilt ops 2 cpu 0x08000100 =
      ret1 (?s\<lparr>pc := (pc cpu AND NOT 0x0fffffff) OR 0x400\<rparr>)"
    unfolding numeral_2_eq_2 single_instruction_decode [OF ilt, of ops "Suc 0" cpu "0x08000100"] decode_j
    by (simp add: mk_tag_def mips64_exec_J_def jump_to_def s del: mips64_exec_single_instruction.simps)
  moreover have "bit (creg ?s MIPS_CP0_STATUS) 1" "creg ?s MIPS_CP0_EPC = pc cpu"
    using exl by (simp_all add: mips64_exec_syscall_def trigger_exception_simps bit_or_iff bit_ucast_iff bit_status_const)
  moreover have "\<not> bit (creg ?s MIPS_CP0_CAUSE) 31"
    by (simp add: mips64_exec_syscall_def trigger_exception_cause bit_or_iff bit_and_iff bit_ucast_iff
        bit_imask bit_push_bit_iff MIPS_CP0_CAUSE_SYSCALL_def)
  ultimately show ?thesis by simp
qed

text \<open>\<open>JALR\<close> with destination \<open>$0\<close> leaves the return address in the zero register while its
  delay slot runs: a \<open>move\<close> from \<open>$0\<close> there copies that address instead of zero.\<close>

theorem jalr_zero_register_leak:
  assumes ilt: "ilt_ok TYPE('m) ilt"
    and page: "njm_exec_page cpu = (pc cpu + 4) AND NOT 0xFFF" "njm_exec_ptr cpu = Some page"
    and slot: "host_insn (ops :: 'm mips_ops) (machine cpu) page (unat (drop_bit 2 ((pc cpu + 4) AND 0xFFF))) = 0x00004021"
  shows "\<exists>c. mips64_exec_single_instruction ilt ops 2 cpu 0x03e00009 = ret1 c \<and>
    gpr c 8 = sign_extend (pc cpu + 8) 32"
proof -
  let ?c = "set_gpr 0 (pc cpu + 8) (mips64_exec_inc_cp0_cnt cpu)"
  let ?s = "set_gpr 8 (sign_extend (pc cpu + 8) 32) (mips64_exec_inc_cp0_cnt ?c)"
  have f: "insn_rs 0x00004021 = 0" "insn_rd 0x00004021 = 8" "insn_rs 0x03e00009 = 31" "insn_rd 0x03e00009 = 0"
    by (simp_all add: bits_def)
  have s: "mips64_exec_bdslot ops (mips64_exec_single_instruction ilt ops (Suc 0)) ?c = ret0 ?s"
    using slot_executes [OF ilt, of ?c page ops "0x00004021" 0] page slot
    by (simp add: decode_move mk_tag_def mips64_exec_MOVE_def f)
  show ?thesis
    unfolding numeral_2_eq_2 single_instruction_decode [OF ilt, of ops "Suc 0" cpu "0x03e00009"] decode_jalr
    by (simp add: mk_tag_def mips64_exec_JALR_def jump_to_def s f Let_def del: mips64_exec_single_instruction.simps)
qed

theorem syscall_in_delay_slot_lost_witness:
  "\<exists>ilt c. mips64_exec_single_instruction ilt (fill_ops 0x0000000c) 2 ready_cpu 0x08000100 = ret1 c \<and>
     pc c = 0xffffffffb0000400 \<and> bit (creg c MIPS_CP0_STATUS) 1"
proof -
  obtain ilt where ilt: "ilt_ok TYPE(unit) ilt" using create_ilt_ok by blast
  have r: "pc ready_cpu = 0xffffffffbfc00000" "creg ready_cpu MIPS_CP0_STATUS = 0x401"
    "njm_exec_page ready_cpu = 0xffffffffbfc00000" "njm_exec_ptr ready_cpu = Some 0"
    by (simp_all add: ready_cpu_def sample_cpu_simps)
  show ?thesis
    using syscall_in_delay_slot_lost [OF ilt, of ready_cpu 0 "fill_ops 0x0000000c"]
    by (auto simp: r fill_ops_def)
qed

theorem jalr_zero_register_leak_witness:
  "\<exists>ilt c. mips64_exec_single_instruction ilt (fill_ops 0x00004021) 2 ready_cpu 0x03e00009 = ret1 c \<and>
     gpr c 8 = 0xffffffffbfc00008"
proof -
  obtain ilt where ilt: "ilt_ok TYPE(unit) ilt" using create_ilt_ok by blast
  have r: "pc ready_cpu = 0xffffffffbfc00000"
    "njm_exec_page ready_cpu = 0xffffffffbfc00000" "njm_exec_ptr ready_cpu = Some 0"
    by (simp_all add: ready_cpu_def sample_cpu_simps)
  have n: "(0xffffffffbfc00008 :: u64) = - 1077936120" by simp
  show ?thesis
    using jalr_zero_register_leak [OF ilt, of ready_cpu 0 "fill_ops 0x00004021"] n
    by (fastforce simp: r fill_ops_def sign_extend_def)
qed

section \<open>Interrupts in the run loop\<close>

lemma trigger_irq_taken:
  assumes "irq_disable cpu = 0" "irq_line cpu n" "irq_enabled cpu n"
  shows "pc (mips64_trigger_irq cpu) = (if bit (creg cpu MIPS_CP0_STATUS) 22 then 0xffffffffbfc00380 else 0xffffffff80000180)"
    and "creg (mips64_trigger_irq cpu) MIPS_CP0_EPC = pc cpu"
    and "gpr (mips64_trigger_irq cpu) = gpr cpu"
proof -
  let ?u = "mips64_update_irq_flag (cpu\<lparr>irq_count := irq_count cpu + 1\<rparr>)"
  have "irq_pending ?u \<noteq> 0" unfolding irq_pending_update_iff using assms by auto
  then have "mips64_trigger_irq cpu = mips64_trigger_exception MIPS_CP0_CAUSE_INTERRUPT False ?u"
    using assms by (simp add: trigger_irq_alt Let_def)
  then show "pc (mips64_trigger_irq cpu) = (if bit (creg cpu MIPS_CP0_STATUS) 22 then 0xffffffffbfc00380 else 0xffffffff80000180)"
    "creg (mips64_trigger_irq cpu) MIPS_CP0_EPC = pc cpu" "gpr (mips64_trigger_irq cpu) = gpr cpu"
    using assms by (simp_all add: trigger_exception_simps update_irq_flag_simps irq_enabled_def)
qed

lemma set_gpr_irq [simp]:
  "irq_line (set_gpr r v cpu) n = irq_line cpu n" "irq_enabled (set_gpr r v cpu) n = irq_enabled cpu n"
  "irq_disable (set_gpr r v cpu) = irq_disable cpu"
  by (simp_all add: irq_line_def irq_enabled_def set_gpr_def)

text \<open>When the pending flag is set and an enabled line is asserted, the next turn of the run loop
  (one that is not due for the timer check) executes no instruction: it enters the exception
  vector with EPC on the instruction that was about to run and the zero register cleared.\<close>

theorem run_turn_takes_interrupt:
  assumes "rs_running s" "rs_timer_irq_check s + 1 \<noteq> timer_irq_check_itv (rs_cpu s)"
    and "irq_pending (rs_cpu s) \<noteq> 0" "irq_disable (rs_cpu s) = 0"
    and "irq_line (rs_cpu s) n" "irq_enabled (rs_cpu s) n"
  shows "\<exists>s'. mips64_exec_run_turn ilt ops frames s = Inr (Next_Turn s') \<and>
    creg (rs_cpu s') MIPS_CP0_EPC = pc (rs_cpu s) \<and>
    pc (rs_cpu s') \<in> {0xffffffffbfc00380, 0xffffffff80000180} \<and>
    gpr (rs_cpu s') = (gpr (rs_cpu s))(0 := 0)"
proof -
  let ?t = "run_timer_check (run_idle_check s)"
  have idle: "rs_cpu (run_idle_check s) = rs_cpu s"
    "rs_timer_irq_check (run_idle_check s) = rs_timer_irq_check s"
    by (simp_all add: run_idle_check_def Let_def)
  then have t: "rs_cpu ?t = rs_cpu s"
    using assms(2) by (simp add: run_timer_check_def Let_def)
  let ?c = "set_gpr 0 0 (rs_cpu s)"
  have "mips64_exec_run_turn ilt ops frames s = Inr (Next_Turn (?t\<lparr>rs_cpu := mips64_trigger_irq ?c\<rparr>))"
    using assms(1,3) t by (simp add: mips64_exec_run_turn_def Let_def)
  moreover have "irq_disable ?c = 0" "irq_line ?c n" "irq_enabled ?c n" using assms by simp_all
  from trigger_irq_taken [OF this]
  have "pc (mips64_trigger_irq ?c) \<in> {0xffffffffbfc00380, 0xffffffff80000180}"
    "creg (mips64_trigger_irq ?c) MIPS_CP0_EPC = pc (rs_cpu s)"
    "gpr (mips64_trigger_irq ?c) = (gpr (rs_cpu s))(0 := 0)" by simp_all
  ultimately show ?thesis by simp
qed

definition sample_run :: "unit run_state" where
  "sample_run = \<lparr>rs_cpu = (mips64_set_irq 2 sample_cpu)\<lparr>irq_pending := 1\<rparr>, rs_running = True,
     rs_idle_count = 0, rs_idle_max = 500, rs_timer_irq_check = 0\<rparr>"

theorem run_turn_takes_interrupt_witness:
  "\<exists>ilt s'. mips64_exec_run_turn ilt sample_ops 2 sample_run = Inr (Next_Turn s') \<and>
     creg (rs_cpu s') MIPS_CP0_EPC = 0xffffffffbfc00000"
proof -
  have p: "rs_running sample_run" "rs_timer_irq_check sample_run + 1 \<noteq> timer_irq_check_itv (rs_cpu sample_run)"
    "irq_pending (rs_cpu sample_run) \<noteq> 0" "irq_disable (rs_cpu sample_run) = 0"
    by (simp_all add: sample_run_def mips64_set_irq_def sample_cpu_def)
  have "irq_line (rs_cpu sample_run) 2" "irq_enabled (rs_cpu sample_run) 2"
    by (simp_all add: irq_line_def irq_enabled_def sample_run_def mips64_set_irq_def bit_or_iff bit_irq_bit sample_cpu_simps)
  from run_turn_takes_interrupt [OF p this]
  show ?thesis by (simp add: sample_run_def mips64_set_irq_def sample_cpu_simps) blast
qed

end
