(* ===== verification/Mips64_Mts.thy ===== *)
theory Mips64_Mts
  imports Mips64_Cp0
begin

text \<open>
  Memory access of the MIPS64 processor: \<open>stable/mips64_mem.c\<close> and the template
  \<open>stable/mips_mts.c\<close> it includes twice.  The MTS cache maps virtual pages to host pages; a
  miss goes through the address map of the processor, the TLB and the device list.  The
  template is modelled once, with the address size (\<open>MTS_ADDR_SIZE\<close>) as its argument: the
  32-bit instance keeps the addresses of an entry in 32 bits, as \<open>mts_addr\<close> truncates them.
  The union of the two caches is one map, since an address mode is left only
  through \<open>shutdown\<close> and the other is entered through \<open>init\<close>.

  The handlers of the devices see the machine; what they do to the processor, whose interrupt lines
  they drive, is \<open>dev_irqs\<close>.  What C leaves open is a parameter (\<open>mts_env\<close>): the contents of the uninitialised \<open>data\<close> (\<open>junk\<close>),
  and the result of a shift by the width of its operand, which \<open>swr\<close>, \<open>sdr\<close> and \<open>ldr\<close> perform
  for the last byte of a word.
\<close>

section \<open>State\<close>

definition MTS_DEVID_MASK :: u64 where "MTS_DEVID_MASK = 0xfc000000"
definition MTS_DEVID_SHIFT :: nat where "MTS_DEVID_SHIFT = 26"
definition MTS_DEVOFF_MASK :: u64 where "MTS_DEVOFF_MASK = 0x03ffffff"
definition MTS64_HASH_SHIFT :: nat where "MTS64_HASH_SHIFT = 12"
definition MTS64_HASH_MASK :: u64 where "MTS64_HASH_MASK = 0x3fff"

record mts_entry =
  gvpa :: u64
  gppa :: u64
  hpa :: u64
  mts_flags :: u32

text \<open>
  The machine behind the processor.  \<open>mts_asz\<close> says which cache the union holds, and so the
  functions that \<open>mts_map\<close> and \<open>mts_unmap\<close> point to; \<open>exec_blk_map\<close> holds the start address of the compiled
  block in each slot; it is \<open>None\<close> when the processor does not compile.
\<close>

record 'd mts_machine =
  mach_vm :: "'d vm_instance"
  mts_asz :: u32
  mts_cache :: "nat \<Rightarrow> mts_entry"
  exec_blk_map :: "(nat \<Rightarrow> u64 option) option"

type_synonym 'd mcpu = "'d mts_machine cpu_mips"

record 'd mts_env =
  handlers :: "'d handlers"
  dev_irqs :: "'d vm_instance \<Rightarrow> 'd mcpu \<Rightarrow> 'd mcpu"
  undef_mem_handler :: "(u64 \<Rightarrow> nat \<Rightarrow> mts_op \<Rightarrow> u64 \<Rightarrow> 'd mcpu \<Rightarrow> (bool \<times> u64) \<times> 'd mcpu) option"
  junk :: u64
  ub_shr32 :: "u32 \<Rightarrow> u32"             \<comment> \<open>\<open>x >> 32\<close> on 32 bits\<close>
  ub_shl64 :: "u64 \<Rightarrow> u64"             \<comment> \<open>\<open>x << 64\<close> on 64 bits\<close>
  ub_shr64 :: "u64 \<Rightarrow> u64"             \<comment> \<open>\<open>x >> 64\<close> on 64 bits\<close>

definition c_shr32 :: "'d mts_env \<Rightarrow> u32 \<Rightarrow> nat \<Rightarrow> u32" where
  "c_shr32 env x n = (if n < 32 then drop_bit n x else ub_shr32 env x)"

definition c_shl64 :: "'d mts_env \<Rightarrow> u64 \<Rightarrow> nat \<Rightarrow> u64" where
  "c_shl64 env x n = (if n < 64 then push_bit n x else ub_shl64 env x)"

definition c_shr64 :: "'d mts_env \<Rightarrow> u64 \<Rightarrow> nat \<Rightarrow> u64" where
  "c_shr64 env x n = (if n < 64 then drop_bit n x else ub_shr64 env x)"

abbreviation cvm :: "'d mcpu \<Rightarrow> 'd vm_instance" where
  "cvm cpu \<equiv> mach_vm (machine cpu)"

definition set_vm :: "'d vm_instance \<Rightarrow> 'd mcpu \<Rightarrow> 'd mcpu" where
  "set_vm vm cpu = cpu\<lparr>machine := (machine cpu)\<lparr>mach_vm := vm\<rparr>\<rparr>"

definition set_cache :: "nat \<Rightarrow> mts_entry \<Rightarrow> 'd mcpu \<Rightarrow> 'd mcpu" where
  "set_cache b e cpu = cpu\<lparr>machine := (machine cpu)\<lparr>mts_cache := (mts_cache (machine cpu))(b := e)\<rparr>\<rparr>"

type_synonym 'd access_outcome = "'d mcpu access outcome"

section \<open>Exceptional accesses (mips64_mem.c)\<close>

definition raise_mem :: "u64 \<Rightarrow> u32 \<Rightarrow> 'd mcpu \<Rightarrow> 'd mcpu access" where
  "raise_mem vaddr code cpu =
    Trap (mips64_trigger_exception code False (set_creg MIPS_CP0_BADVADDR vaddr cpu))"

definition mips64_access_special ::
  "'d mts_env \<Rightarrow> u64 \<Rightarrow> u32 \<Rightarrow> mips_memop \<Rightarrow> mts_op \<Rightarrow> nat \<Rightarrow> u64 \<Rightarrow> 'd mcpu \<Rightarrow> 'd mcpu access" where
  "mips64_access_special env vaddr msk op_code op_ty op_sz data cpu =
    (if msk = MTS_ACC_U then
       (let data = (if op_ty = MTS_READ then 0 else data)
        in case undef_mem_handler env of
             None \<Rightarrow> Access 0 data cpu
           | Some h \<Rightarrow> (let ((handled, data), cpu) = h vaddr op_sz op_ty data cpu in Access 0 data cpu))
     else if msk = MTS_ACC_T then
       (if op_code \<noteq> MIPS_MEMOP_LOOKUP then
          (let cpu = (if vaddr = 0 then set_vm (vm_stop (cvm cpu)) cpu else cpu)
           in raise_mem vaddr (if op_ty = MTS_READ then MIPS_CP0_CAUSE_TLB_LOAD
                               else MIPS_CP0_CAUSE_TLB_SAVE) cpu)
        else Access 0 data cpu)
     else if msk = MTS_ACC_AE then
       (if op_code \<noteq> MIPS_MEMOP_LOOKUP then
          raise_mem vaddr (if op_ty = MTS_READ then MIPS_CP0_CAUSE_ADDR_LOAD
                           else MIPS_CP0_CAUSE_ADDR_SAVE) cpu
        else Access 0 data cpu)
     else Access 0 data cpu)"

section \<open>The cache (mips_mts.c)\<close>

text \<open>The type of the addresses in an entry: \<open>m_uint32_t\<close> or \<open>m_uint64_t\<close>.\<close>

definition mts_addr :: "u32 \<Rightarrow> u64 \<Rightarrow> u64" where
  "mts_addr asz a = (if asz = 32 then take_bit 32 a else a)"

definition mts_hash :: "u64 \<Rightarrow> nat" where
  "mts_hash vaddr = unat (drop_bit MTS64_HASH_SHIFT vaddr AND MTS64_HASH_MASK)"

text \<open>\<open>memset\<close> with \<open>0xFF\<close>.\<close>

definition mts_empty :: "u32 \<Rightarrow> mts_entry" where
  "mts_empty asz = \<lparr>gvpa = mts_addr asz (-1), gppa = mts_addr asz (-1), hpa = -1, mts_flags = -1\<rparr>"

definition mts_init :: "u32 \<Rightarrow> 'd mts_machine \<Rightarrow> 'd mts_machine" where
  "mts_init asz m = m\<lparr>mts_asz := asz, mts_cache := (\<lambda>_. mts_empty asz)\<rparr>"

definition mts_invalidate_cache :: "u32 \<Rightarrow> 'd mts_machine \<Rightarrow> 'd mts_machine" where
  "mts_invalidate_cache asz m = m\<lparr>mts_cache := (\<lambda>_. mts_empty asz)\<rparr>"

definition mts_invalidate_tlb_entry :: "u32 \<Rightarrow> nat \<Rightarrow> 'd mts_machine \<Rightarrow> 'd mts_machine" where
  "mts_invalidate_tlb_entry asz tlb_index m = mts_invalidate_cache asz m"

text \<open>
  The mapping of a page: the entry of the cache, rewritten, or the entry \<open>alt_entry\<close> of the
  caller when the address belongs to a device that has no host memory; none when there is no device.
  The \<open>gvpa\<close> and \<open>gppa\<close> of \<open>alt_entry\<close> stay uninitialised.
\<close>

definition mts_map_page ::
  "'d mts_env \<Rightarrow> u32 \<Rightarrow> mts_op \<Rightarrow> mts_map_res \<Rightarrow> nat \<Rightarrow> 'd mcpu \<Rightarrow> (mts_entry option \<times> 'd mcpu) outcome" where
  "mts_map_page env asz op_ty mp bucket cpu =
    (case dev_lookup (mm_paddr mp) (mm_cached mp) (cvm cpu) of
       None \<Rightarrow> Inr (None, cpu)
     | Some p \<Rightarrow>
        let dev = dev_heap (cvm cpu) p;
            entry = (\<lambda>host flags. \<lparr>gvpa = mts_addr asz (mm_vaddr mp), gppa = mts_addr asz (mm_paddr mp),
                                   hpa = host, mts_flags = flags\<rparr>)
        in if has_flag dev VDEVICE_FLAG_SPARSE then
             bind_out (dev_sparse_get_host_addr p (mm_paddr mp) op_ty (cvm cpu)) (\<lambda>((host_ptr, cow), vm).
               let e = entry host_ptr (if cow then MTS_FLAG_COW else 0)
               in Inr (Some e, set_cache bucket e (set_vm vm cpu)))
           else if host_addr dev = 0 \<or> has_flag dev VDEVICE_FLAG_NO_MTS_MMAP then
             (let offset = ucast (mm_paddr mp + ucast (mm_offset mp) - phys_addr dev) :: u32
              in Inr (Some \<lparr>gvpa = junk env, gppa = junk env,
                            hpa = ucast (push_bit MTS_DEVID_SHIFT (of_nat (dev_id dev) :: u32) + offset),
                            mts_flags = MTS_FLAG_DEV\<rparr>, cpu))
           else
             (let e = entry (host_addr dev + (mm_paddr mp - phys_addr dev)) 0
              in Inr (Some e, set_cache bucket e cpu)))"

section \<open>Address maps (mips64_mem.c)\<close>

text \<open>The outcome of a slow lookup: an entry, or the special access that was made.\<close>

datatype 'c lookup = Found mts_entry 'c | Special "'c access"

definition slow_map ::
  "'d mts_env \<Rightarrow> u32 \<Rightarrow> u64 \<Rightarrow> mips_memop \<Rightarrow> nat \<Rightarrow> mts_op \<Rightarrow> u64 \<Rightarrow> mts_map_res \<Rightarrow> 'd mcpu \<Rightarrow>
   'd mcpu lookup outcome" where
  "slow_map env asz vaddr op_code op_sz op_ty data mp cpu =
    bind_out (mts_map_page env asz op_ty mp (mts_hash vaddr) cpu) (\<lambda>(e, cpu).
      case e of Some e \<Rightarrow> Inr (Found e cpu)
      | None \<Rightarrow> Inr (Special (mips64_access_special env vaddr MTS_ACC_U op_code op_ty op_sz data cpu)))"

definition slow_tlb ::
  "'d mts_env \<Rightarrow> u32 \<Rightarrow> u64 \<Rightarrow> mips_memop \<Rightarrow> nat \<Rightarrow> mts_op \<Rightarrow> u64 \<Rightarrow> 'd mcpu \<Rightarrow> 'd mcpu lookup outcome" where
  "slow_tlb env asz vaddr op_code op_sz op_ty data cpu =
    (case mips64_cp0_tlb_lookup cpu vaddr of
       None \<Rightarrow> Inr (Special (mips64_access_special env vaddr MTS_ACC_T op_code op_ty op_sz data cpu))
     | Some mp \<Rightarrow> slow_map env asz vaddr op_code op_sz op_ty data mp cpu)"

text \<open>An unmapped segment that starts at \<open>base\<close>.\<close>

definition segment_map :: "u64 \<Rightarrow> u64 \<Rightarrow> bool \<Rightarrow> mts_map_res" where
  "segment_map base vaddr cached =
    \<lparr>mm_vaddr = vaddr AND MIPS_MIN_PAGE_MASK, mm_paddr = (vaddr AND MIPS_MIN_PAGE_MASK) - base,
     mm_offset = ucast (vaddr AND ucast MIPS_MIN_PAGE_IMASK), mm_cached = cached, mm_tlb_index = 0\<rparr>"

definition MIPS64_XKPHYS_PHYS_MASK :: u64 where "MIPS64_XKPHYS_PHYS_MASK = mask 36"
definition MIPS64_XKPHYS_CCA_SHIFT :: nat where "MIPS64_XKPHYS_CCA_SHIFT = 59"

definition mips64_mts64_slow_lookup ::
  "'d mts_env \<Rightarrow> u64 \<Rightarrow> mips_memop \<Rightarrow> nat \<Rightarrow> mts_op \<Rightarrow> u64 \<Rightarrow> 'd mcpu \<Rightarrow> 'd mcpu lookup outcome" where
  "mips64_mts64_slow_lookup env vaddr op_code op_sz op_ty data cpu =
    (let zone = ucast (drop_bit 40 vaddr) :: u32;
         sub_zone = ucast (drop_bit 29 vaddr AND 0x7FF) :: u32;
         via_tlb = slow_tlb env 64 vaddr op_code op_sz op_ty data cpu;
         via_map = (\<lambda>mp. slow_map env 64 vaddr op_code op_sz op_ty data mp cpu);
         err_address = Inr (Special (mips64_access_special env vaddr MTS_ACC_AE op_code op_ty op_sz data cpu))
     in if zone \<in> {0x000000, 0x400000, 0xc00000} then via_tlb
        else if zone = 0xffffff then
          (if sub_zone = 0x7fc then via_map (segment_map 0xFFFFFFFF80000000 vaddr True)
           else if sub_zone = 0x7fd then via_map (segment_map 0xFFFFFFFFA0000000 vaddr False)
           else if sub_zone = 0x7fe \<or> sub_zone = 0x7ff then via_tlb
           else err_address)
        else if zone \<in> {0x800000, 0x880000, 0x900000, 0x980000, 0xa00000, 0xa80000, 0xb00000, 0xb80000} then
          (let cca = ucast (drop_bit MIPS64_XKPHYS_CCA_SHIFT vaddr AND 0x03) :: u32
           in via_map \<lparr>mm_vaddr = vaddr AND MIPS_MIN_PAGE_MASK,
                mm_paddr = (vaddr AND MIPS64_XKPHYS_PHYS_MASK) AND MIPS_MIN_PAGE_MASK,
                mm_offset = ucast (vaddr AND ucast MIPS_MIN_PAGE_IMASK),
                mm_cached = mips64_cca_cached (ucast cca), mm_tlb_index = 0\<rparr>)
        else err_address)"

definition mips64_mts32_slow_lookup ::
  "'d mts_env \<Rightarrow> u64 \<Rightarrow> mips_memop \<Rightarrow> nat \<Rightarrow> mts_op \<Rightarrow> u64 \<Rightarrow> 'd mcpu \<Rightarrow> 'd mcpu lookup outcome" where
  "mips64_mts32_slow_lookup env vaddr op_code op_sz op_ty data cpu =
    (let zone = ucast (drop_bit 29 vaddr AND 0x7) :: u32
     in if zone = 4 then
          slow_map env 32 vaddr op_code op_sz op_ty data (segment_map 0xFFFFFFFF80000000 vaddr True) cpu
        else if zone = 5 then
          slow_map env 32 vaddr op_code op_sz op_ty data (segment_map 0xFFFFFFFFA0000000 vaddr False) cpu
        else slow_tlb env 32 vaddr op_code op_sz op_ty data cpu)"

definition mts_slow_lookup ::
  "'d mts_env \<Rightarrow> u32 \<Rightarrow> u64 \<Rightarrow> mips_memop \<Rightarrow> nat \<Rightarrow> mts_op \<Rightarrow> u64 \<Rightarrow> 'd mcpu \<Rightarrow> 'd mcpu lookup outcome" where
  "mts_slow_lookup env asz =
    (if asz = 32 then mips64_mts32_slow_lookup env else mips64_mts64_slow_lookup env)"

section \<open>Access\<close>

definition raw_access :: "u64 \<Rightarrow> u64 \<Rightarrow> mts_entry \<Rightarrow> 'd mcpu \<Rightarrow> 'd mcpu access" where
  "raw_access vaddr data entry cpu =
    Access (hpa entry + (vaddr AND ucast MIPS_MIN_PAGE_IMASK)) data cpu"

definition entry_access ::
  "'d mts_env \<Rightarrow> u64 \<Rightarrow> nat \<Rightarrow> mts_op \<Rightarrow> u64 \<Rightarrow> mts_entry \<Rightarrow> 'd mcpu \<Rightarrow> 'd access_outcome" where
  "entry_access env vaddr op_sz op_ty data entry cpu =
    (if mts_flags entry AND MTS_FLAG_DEV \<noteq> 0 then
       (let dev_id = unat (drop_bit MTS_DEVID_SHIFT (hpa entry AND MTS_DEVID_MASK));
            haddr = hpa entry AND MTS_DEVOFF_MASK
        in bind_out (dev_access_fast (handlers env) dev_id (ucast haddr) op_sz op_ty data (cvm cpu))
             (\<lambda>((ptr, data), vm). Inr (Access ptr data (dev_irqs env vm (set_vm vm cpu)))))
     else Inr (raw_access vaddr data entry cpu))"

definition mts_hit :: "u32 \<Rightarrow> u64 \<Rightarrow> mts_op \<Rightarrow> 'd mcpu \<Rightarrow> bool" where
  "mts_hit asz vaddr op_ty cpu \<longleftrightarrow>
    (let entry = mts_cache (machine cpu) (mts_hash vaddr)
     in mts_addr asz (vaddr AND MIPS_MIN_PAGE_MASK) = gvpa entry \<and>
        \<not> (op_ty = MTS_WRITE \<and> mts_flags entry AND MTS_FLAG_COW \<noteq> 0))"

definition mts_access ::
  "'d mts_env \<Rightarrow> u32 \<Rightarrow> u64 \<Rightarrow> mips_memop \<Rightarrow> nat \<Rightarrow> mts_op \<Rightarrow> u64 \<Rightarrow> 'd mcpu \<Rightarrow> 'd access_outcome" where
  "mts_access env asz vaddr op_code op_sz op_ty data cpu =
    (if mts_hit asz vaddr op_ty cpu
     then Inr (raw_access vaddr data (mts_cache (machine cpu) (mts_hash vaddr)) cpu)
     else bind_out (mts_slow_lookup env asz vaddr op_code op_sz op_ty data cpu)
            (\<lambda>r. case r of Special a \<Rightarrow> Inr a
                 | Found entry cpu \<Rightarrow> entry_access env vaddr op_sz op_ty data entry cpu))"

text \<open>The physical page of a virtual address, or -1; \<open>None\<close> for a return code of -1.\<close>

definition mts_translate :: "'d mts_env \<Rightarrow> u32 \<Rightarrow> u64 \<Rightarrow> 'd mcpu \<Rightarrow> (u32 option \<times> 'd mcpu) outcome" where
  "mts_translate env asz vaddr cpu =
    (let entry = mts_cache (machine cpu) (mts_hash vaddr);
         page = (\<lambda>e. ucast (drop_bit 12 (gppa e)) :: u32)
     in if mts_addr asz (vaddr AND MIPS_MIN_PAGE_MASK) = gvpa entry then Inr (Some (page entry), cpu)
        else bind_out (mts_slow_lookup env asz vaddr MIPS_MEMOP_LOOKUP 4 MTS_READ 0 cpu)
               (\<lambda>r. case r of Special a \<Rightarrow> Inr (None, acc_cpu a)
                    | Found e cpu \<Rightarrow> Inr (Some (page e), cpu)))"

section \<open>Memory operations\<close>

definition MIPS_GPR_COUNT :: nat where "MIPS_GPR_COUNT = 32"

text \<open>An access whose exception leaves the instruction, and the guest values in host memory.\<close>

definition on_access ::
  "'d access_outcome \<Rightarrow> (u64 \<Rightarrow> u64 \<Rightarrow> 'd mcpu \<Rightarrow> 'd mts_machine exec_result) \<Rightarrow> 'd mts_machine exec_result" where
  "on_access r f = bind_out r (\<lambda>a. case a of
     Trap cpu \<Rightarrow> Inr (Exec_Loop cpu) | Access haddr data cpu \<Rightarrow> f haddr data cpu)"

text \<open>The two halves of every operation: read the data, or write it, unless a device did it.\<close>

definition mts_load ::
  "'d mts_env \<Rightarrow> u32 \<Rightarrow> u64 \<Rightarrow> mips_memop \<Rightarrow> nat \<Rightarrow> 'd mcpu \<Rightarrow>
   (u64 \<Rightarrow> 'd mcpu \<Rightarrow> 'd mts_machine exec_result) \<Rightarrow> 'd mts_machine exec_result" where
  "mts_load env asz vaddr op sz cpu f =
    on_access (mts_access env asz vaddr op sz MTS_READ (junk env) cpu) (\<lambda>haddr data cpu.
      f (if haddr \<noteq> 0 then vmtoh sz (host_read haddr sz (cvm cpu)) else data) cpu)"

definition mts_store ::
  "'d mts_env \<Rightarrow> u32 \<Rightarrow> u64 \<Rightarrow> mips_memop \<Rightarrow> nat \<Rightarrow> u64 \<Rightarrow> 'd mcpu \<Rightarrow> 'd mts_machine exec_result" where
  "mts_store env asz vaddr op sz data cpu =
    on_access (mts_access env asz vaddr op sz MTS_WRITE data cpu) (\<lambda>haddr data cpu.
      ret0 (if haddr \<noteq> 0 then set_vm (host_write haddr (htovm sz data) (cvm cpu)) cpu else cpu))"

type_synonym 'd memop = "'d mts_env \<Rightarrow> u32 \<Rightarrow> u64 \<Rightarrow> nat \<Rightarrow> 'd mcpu \<Rightarrow> 'd mts_machine exec_result"

definition mts_lb :: "'d memop" where
  "mts_lb env asz vaddr reg cpu =
    mts_load env asz vaddr MIPS_MEMOP_LB 1 cpu (\<lambda>data cpu. ret0 (set_gpr reg (sign_extend data 8) cpu))"

definition mts_lbu :: "'d memop" where
  "mts_lbu env asz vaddr reg cpu =
    mts_load env asz vaddr MIPS_MEMOP_LBU 1 cpu (\<lambda>data cpu. ret0 (set_gpr reg (data AND 0xff) cpu))"

definition mts_lh :: "'d memop" where
  "mts_lh env asz vaddr reg cpu =
    mts_load env asz vaddr MIPS_MEMOP_LH 2 cpu (\<lambda>data cpu. ret0 (set_gpr reg (sign_extend data 16) cpu))"

definition mts_lhu :: "'d memop" where
  "mts_lhu env asz vaddr reg cpu =
    mts_load env asz vaddr MIPS_MEMOP_LHU 2 cpu (\<lambda>data cpu. ret0 (set_gpr reg (data AND 0xffff) cpu))"

definition mts_lw :: "'d memop" where
  "mts_lw env asz vaddr reg cpu =
    mts_load env asz vaddr MIPS_MEMOP_LW 4 cpu (\<lambda>data cpu. ret0 (set_gpr reg (sign_extend data 32) cpu))"

definition mts_lwu :: "'d memop" where
  "mts_lwu env asz vaddr reg cpu =
    mts_load env asz vaddr MIPS_MEMOP_LWU 4 cpu (\<lambda>data cpu. ret0 (set_gpr reg (data AND 0xffffffff) cpu))"

definition mts_ld :: "'d memop" where
  "mts_ld env asz vaddr reg cpu =
    mts_load env asz vaddr MIPS_MEMOP_LD 8 cpu (\<lambda>data cpu. ret0 (set_gpr reg data cpu))"

definition mts_sb :: "'d memop" where
  "mts_sb env asz vaddr reg cpu =
    mts_store env asz vaddr MIPS_MEMOP_SB 1 (gpr cpu reg AND 0xff) cpu"

definition mts_sh :: "'d memop" where
  "mts_sh env asz vaddr reg cpu =
    mts_store env asz vaddr MIPS_MEMOP_SH 2 (gpr cpu reg AND 0xffff) cpu"

definition mts_sw :: "'d memop" where
  "mts_sw env asz vaddr reg cpu =
    mts_store env asz vaddr MIPS_MEMOP_SW 4 (gpr cpu reg AND 0xffffffff) cpu"

definition mts_sd :: "'d memop" where
  "mts_sd env asz vaddr reg cpu = mts_store env asz vaddr MIPS_MEMOP_SD 8 (gpr cpu reg) cpu"

definition mts_ldc1 :: "'d memop" where
  "mts_ldc1 env asz vaddr reg cpu =
    mts_load env asz vaddr MIPS_MEMOP_LDC1 8 cpu (\<lambda>data cpu.
      ret0 (cpu\<lparr>fpu_reg := (fpu_reg cpu)(reg := data)\<rparr>))"

definition mts_sdc1 :: "'d memop" where
  "mts_sdc1 env asz vaddr reg cpu = mts_store env asz vaddr MIPS_MEMOP_SDC1 8 (fpu_reg cpu reg) cpu"

section \<open>Unaligned loads and stores\<close>

definition mts_lwl :: "'d memop" where
  "mts_lwl env asz vaddr reg cpu =
    mts_load env asz (vaddr AND NOT 3) MIPS_MEMOP_LWL 4 cpu (\<lambda>data cpu.
      let m_shift = unat (push_bit 3 (ucast (vaddr AND 3) :: u32));
          r_mask = push_bit m_shift 1 - 1;
          data = push_bit m_shift data;
          r = (gpr cpu reg AND r_mask) OR data
      in ret0 (set_gpr reg (sign_extend r 32) cpu))"

definition mts_lwr :: "'d memop" where
  "mts_lwr env asz vaddr reg cpu =
    mts_load env asz (vaddr AND NOT 3) MIPS_MEMOP_LWR 4 cpu (\<lambda>data cpu.
      let m_shift = unat (push_bit 3 (ucast ((vaddr AND 3) + 1) :: u32));
          r_mask = push_bit m_shift 1 - 1;
          data = sign_extend (drop_bit (32 - m_shift) data) 32;
          r_mask = sign_extend r_mask 32
      in ret0 (set_gpr reg ((gpr cpu reg AND NOT r_mask) OR data) cpu))"

definition mts_ldl :: "'d memop" where
  "mts_ldl env asz vaddr reg cpu =
    mts_load env asz (vaddr AND NOT 7) MIPS_MEMOP_LDL 8 cpu (\<lambda>data cpu.
      let m_shift = unat (push_bit 3 (ucast (vaddr AND 7) :: u32));
          r_mask = push_bit m_shift 1 - 1;
          data = push_bit m_shift data
      in ret0 (set_gpr reg ((gpr cpu reg AND r_mask) OR data) cpu))"

definition mts_ldr :: "'d memop" where
  "mts_ldr env asz vaddr reg cpu =
    mts_load env asz (vaddr AND NOT 7) MIPS_MEMOP_LDR 8 cpu (\<lambda>data cpu.
      let m_shift = unat (push_bit 3 (ucast ((vaddr AND 7) + 1) :: u32));
          r_mask = c_shl64 env 1 m_shift - 1;
          data = drop_bit (64 - m_shift) data
      in ret0 (set_gpr reg ((gpr cpu reg AND NOT r_mask) OR data) cpu))"

definition mts_swl :: "'d memop" where
  "mts_swl env asz vaddr reg cpu =
    mts_load env asz (vaddr AND NOT 3) MIPS_MEMOP_SWL 4 cpu (\<lambda>data cpu.
      let r_shift = unat (push_bit 3 (ucast (vaddr AND 3) :: u32));
          d_mask = ucast (drop_bit r_shift 0xffffffff :: u32) :: u64;
          data = (data AND NOT d_mask) OR drop_bit r_shift (gpr cpu reg AND 0xffffffff)
      in mts_store env asz (vaddr AND NOT 3) MIPS_MEMOP_SWL 4 data cpu)"

definition mts_swr :: "'d memop" where
  "mts_swr env asz vaddr reg cpu =
    mts_load env asz (vaddr AND NOT 3) MIPS_MEMOP_SWR 4 cpu (\<lambda>data cpu.
      let r_shift = unat (push_bit 3 (ucast ((vaddr AND 3) + 1) :: u32));
          d_mask = ucast (c_shr32 env 0xffffffff r_shift) :: u64;
          data = (data AND d_mask) OR (push_bit (32 - r_shift) (gpr cpu reg) AND 0xffffffff)
      in mts_store env asz (vaddr AND NOT 3) MIPS_MEMOP_SWR 4 data cpu)"

definition mts_sdl :: "'d memop" where
  "mts_sdl env asz vaddr reg cpu =
    mts_load env asz (vaddr AND NOT 7) MIPS_MEMOP_SDL 8 cpu (\<lambda>data cpu.
      let r_shift = unat (push_bit 3 (ucast (vaddr AND 7) :: u32));
          d_mask = drop_bit r_shift 0xffffffffffffffff;
          data = (data AND NOT d_mask) OR drop_bit r_shift (gpr cpu reg)
      in mts_store env asz (vaddr AND NOT 7) MIPS_MEMOP_SDL 8 data cpu)"

definition mts_sdr :: "'d memop" where
  "mts_sdr env asz vaddr reg cpu =
    mts_load env asz (vaddr AND NOT 7) MIPS_MEMOP_SDR 8 cpu (\<lambda>data cpu.
      let r_shift = unat (push_bit 3 (ucast ((vaddr AND 7) + 1) :: u32));
          d_mask = c_shr64 env 0xffffffffffffffff r_shift;
          data = (data AND d_mask) OR push_bit (64 - r_shift) (gpr cpu reg)
      in mts_store env asz (vaddr AND NOT 7) MIPS_MEMOP_SDR 8 data cpu)"

section \<open>Linked accesses and the CACHE instruction\<close>

definition mts_ll :: "'d memop" where
  "mts_ll env asz vaddr reg cpu =
    mts_load env asz vaddr MIPS_MEMOP_LL 4 cpu (\<lambda>data cpu.
      ret0 ((set_gpr reg (sign_extend data 32) cpu)\<lparr>ll_bit := 1\<rparr>))"

definition mts_sc :: "'d memop" where
  "mts_sc env asz vaddr reg cpu =
    then_do (if ll_bit cpu \<noteq> 0
             then mts_store env asz vaddr MIPS_MEMOP_SC 4 (gpr cpu reg AND 0xffffffff) cpu
             else ret0 cpu)
      (\<lambda>cpu. ret0 (set_gpr reg (ucast (ll_bit cpu)) cpu))"

definition MIPS_JIT_PC_HASH_MASK :: u32 where "MIPS_JIT_PC_HASH_MASK = 0xffff"

definition mips64_jit_get_pc_hash :: "u64 \<Rightarrow> nat" where
  "mips64_jit_get_pc_hash addr =
    (let page_hash = sbox_u32 (ucast (drop_bit 12 addr))
     in unat ((page_hash XOR drop_bit 12 page_hash) AND MIPS_JIT_PC_HASH_MASK))"

definition mts_cache_op :: "'d memop" where
  "mts_cache_op env asz vaddr op cpu =
    (case exec_blk_map (machine cpu) of
       None \<Rightarrow> ret0 cpu
     | Some blocks \<Rightarrow>
        let pc_hash = mips64_jit_get_pc_hash vaddr
        in if blocks pc_hash = Some (vaddr AND MIPS_MIN_PAGE_MASK)
           then ret0 (upd_machine (\<lambda>m. m\<lparr>exec_blk_map := Some (blocks(pc_hash := None))\<rparr>) cpu)
           else ret0 cpu)"

section \<open>The access vectors\<close>

text \<open>The instruction fetch: the host address of the instruction, or \<open>NULL\<close>.\<close>

definition mts_lookup :: "'d mts_env \<Rightarrow> u32 \<Rightarrow> u64 \<Rightarrow> 'd mcpu \<Rightarrow> 'd access_outcome" where
  "mts_lookup env asz vaddr cpu = mts_access env asz vaddr MIPS_MEMOP_LOOKUP 4 MTS_READ (junk env) cpu"

definition mts_api_map :: "u64 \<Rightarrow> u64 \<Rightarrow> u32 \<Rightarrow> bool \<Rightarrow> nat \<Rightarrow> 'd mts_machine \<Rightarrow> 'd mts_machine" where
  "mts_api_map vaddr paddr len cache_access tlb_index m = m"

text \<open>The index is -1, here \<open>None\<close>, when the caller gives none.\<close>

definition mts_api_unmap :: "u32 \<Rightarrow> u64 \<Rightarrow> u32 \<Rightarrow> nat option \<Rightarrow> 'd mts_machine \<Rightarrow> 'd mts_machine" where
  "mts_api_unmap asz vaddr len tlb_index m =
    (case tlb_index of Some i \<Rightarrow> mts_invalidate_tlb_entry asz i m | None \<Rightarrow> mts_invalidate_cache asz m)"

definition mts_api_rebuild :: "u32 \<Rightarrow> 'd mcpu \<Rightarrow> 'd mcpu" where
  "mts_api_rebuild asz cpu = upd_machine (mts_invalidate_cache asz) cpu"

fun mts_memop :: "mips_memop \<Rightarrow> 'd memop" where
  "mts_memop MIPS_MEMOP_LB = mts_lb" | "mts_memop MIPS_MEMOP_LBU = mts_lbu"
| "mts_memop MIPS_MEMOP_LH = mts_lh" | "mts_memop MIPS_MEMOP_LHU = mts_lhu"
| "mts_memop MIPS_MEMOP_LW = mts_lw" | "mts_memop MIPS_MEMOP_LWU = mts_lwu"
| "mts_memop MIPS_MEMOP_LD = mts_ld" | "mts_memop MIPS_MEMOP_SB = mts_sb"
| "mts_memop MIPS_MEMOP_SH = mts_sh" | "mts_memop MIPS_MEMOP_SW = mts_sw"
| "mts_memop MIPS_MEMOP_SD = mts_sd" | "mts_memop MIPS_MEMOP_LWL = mts_lwl"
| "mts_memop MIPS_MEMOP_LWR = mts_lwr" | "mts_memop MIPS_MEMOP_LDL = mts_ldl"
| "mts_memop MIPS_MEMOP_LDR = mts_ldr" | "mts_memop MIPS_MEMOP_SWL = mts_swl"
| "mts_memop MIPS_MEMOP_SWR = mts_swr" | "mts_memop MIPS_MEMOP_SDL = mts_sdl"
| "mts_memop MIPS_MEMOP_SDR = mts_sdr" | "mts_memop MIPS_MEMOP_LL = mts_ll"
| "mts_memop MIPS_MEMOP_SC = mts_sc" | "mts_memop MIPS_MEMOP_LDC1 = mts_ldc1"
| "mts_memop MIPS_MEMOP_SDC1 = mts_sdc1" | "mts_memop MIPS_MEMOP_CACHE = mts_cache_op"
| "mts_memop MIPS_MEMOP_LOOKUP = (\<lambda>env asz vaddr reg cpu. Inl Null_Deref)"

definition mips64_mem_shutdown :: "'d mcpu \<Rightarrow> 'd mcpu" where
  "mips64_mem_shutdown cpu = cpu"

text \<open>The process ends (\<open>None\<close>) for any other mode.\<close>

definition mips64_set_addr_mode :: "u32 \<Rightarrow> 'd mcpu \<Rightarrow> 'd mcpu option" where
  "mips64_set_addr_mode mode cpu =
    (if addr_mode cpu \<noteq> mode then
       (if mode = 32 \<or> mode = 64
        then Some (upd_machine (mts_init mode) (mips64_mem_shutdown cpu)\<lparr>addr_mode := mode\<rparr>)
        else None)
     else Some cpu)"

text \<open>\<open>mips64_jit_flush(cpu,0)\<close>: every compiled block goes.\<close>

definition mips64_jit_flush_all :: "'d mcpu \<Rightarrow> 'd mcpu" where
  "mips64_jit_flush_all cpu =
    upd_machine (\<lambda>m. m\<lparr>exec_blk_map := map_option (\<lambda>_ _. None) (exec_blk_map m)\<rparr>) cpu"

text \<open>The function pointers of the processor.\<close>

definition mts_ops :: "'d mts_env \<Rightarrow> 'd mts_machine mips_ops" where
  "mts_ops env = \<lparr>
     mem_op_fn = (\<lambda>op vaddr reg cpu. mts_memop op env (addr_mode cpu) vaddr reg cpu),
     mem_op_lookup = (\<lambda>vaddr cpu. bind_out (mts_lookup env (addr_mode cpu) vaddr cpu)
       (\<lambda>a. case a of Trap cpu \<Rightarrow> Inr (cpu, None)
          | Access haddr data cpu \<Rightarrow> Inr (cpu, if haddr = 0 then None else Some (unat haddr)))),
     host_insn = (\<lambda>m page off. m_ntoh32 (host_read (of_nat page + of_nat (4 * off)) 4 (mach_vm m)) 0),
     mts_map = (\<lambda>vaddr paddr len cached i m. mts_api_map vaddr paddr len cached i m),
     mts_unmap = (\<lambda>vaddr len i m. mts_api_unmap (mts_asz m) vaddr len (Some i) m),
     mts_set_addr_mode = (\<lambda>mode cpu. case mips64_set_addr_mode mode cpu of Some cpu \<Rightarrow> cpu | None \<Rightarrow> cpu),
     mts_rebuild = (\<lambda>cpu. mts_api_rebuild (addr_mode cpu) cpu),
     jit_flush = mips64_jit_flush_all\<rparr>"

end
