(* ===== verification/Mips64_Mem.thy ===== *)
theory Mips64_Mem
  imports Mips64_Mts
begin

text \<open>
  What the MIPS64 processor sees in memory.  \<open>addr_map\<close> is the address map of the architecture
  without the cache, \<open>ram_loc\<close> the host address of a virtual address that denotes memory in one
  block.  A cache is \<open>mts_coherent\<close> when every hit gives what the address map gives; on a coherent
  cache loads, stores and exceptions are those of the map, whatever is cached.
\<close>

section \<open>The address map\<close>

definition addr_map :: "u32 \<Rightarrow> u64 \<Rightarrow> 'm cpu_mips \<Rightarrow> u32 + mts_map_res" where
  "addr_map asz vaddr cpu =
    (let tlb = (case mips64_cp0_tlb_lookup cpu vaddr of None \<Rightarrow> Inl MTS_ACC_T | Some mp \<Rightarrow> Inr mp);
         kseg0 = Inr (segment_map 0xFFFFFFFF80000000 vaddr True);
         kseg1 = Inr (segment_map 0xFFFFFFFFA0000000 vaddr False)
     in if asz = 32 then
          (let zone = ucast (drop_bit 29 vaddr AND 0x7) :: u32
           in if zone = 4 then kseg0 else if zone = 5 then kseg1 else tlb)
        else
          (let zone = ucast (drop_bit 40 vaddr) :: u32;
               sub_zone = ucast (drop_bit 29 vaddr AND 0x7FF) :: u32
           in if zone \<in> {0x000000, 0x400000, 0xc00000} then tlb
              else if zone = 0xffffff then
                (if sub_zone = 0x7fc then kseg0 else if sub_zone = 0x7fd then kseg1
                 else if sub_zone = 0x7fe \<or> sub_zone = 0x7ff then tlb else Inl MTS_ACC_AE)
              else if zone \<in> {0x800000, 0x880000, 0x900000, 0x980000, 0xa00000, 0xa80000, 0xb00000, 0xb80000}
              then Inr \<lparr>mm_vaddr = vaddr AND MIPS_MIN_PAGE_MASK,
                mm_paddr = (vaddr AND MIPS64_XKPHYS_PHYS_MASK) AND MIPS_MIN_PAGE_MASK,
                mm_offset = ucast (vaddr AND ucast MIPS_MIN_PAGE_IMASK),
                mm_cached = mips64_cca_cached
                  (ucast (ucast (drop_bit MIPS64_XKPHYS_CCA_SHIFT vaddr AND 0x03) :: u32)), mm_tlb_index = 0\<rparr>
              else Inl MTS_ACC_AE))"

lemma slow_lookup_addr_map:
  assumes "asz = 32 \<or> asz = 64"
  shows "mts_slow_lookup env asz vaddr op sz ty data cpu =
    (case addr_map asz vaddr cpu of
       Inl acc \<Rightarrow> Inr (Special (mips64_access_special env vaddr acc op ty sz data cpu))
     | Inr mp \<Rightarrow> slow_map env asz vaddr op sz ty data mp cpu)"
proof -
  let ?f = "\<lambda>acc. Inr (Special (mips64_access_special env vaddr acc op ty sz data cpu))"
  let ?g = "\<lambda>mp. slow_map env asz vaddr op sz ty data mp cpu"
  note dist = if_distrib [of "case_sum ?f ?g"]
  have tlb: "case_sum ?f ?g (case mips64_cp0_tlb_lookup cpu vaddr of None \<Rightarrow> Inl MTS_ACC_T | Some mp \<Rightarrow> Inr mp) =
      slow_tlb env asz vaddr op sz ty data cpu"
    by (simp add: slow_tlb_def split: option.splits)
  show ?thesis
  proof (cases "asz = 32")
    case True
    then show ?thesis
      unfolding mts_slow_lookup_def mips64_mts32_slow_lookup_def addr_map_def Let_def if_P [OF True] dist tlb
      by simp
  next
    case False
    then have "asz = 64" using assms by blast
    then show ?thesis
      unfolding mts_slow_lookup_def mips64_mts64_slow_lookup_def addr_map_def Let_def if_not_P [OF False] dist tlb
      by simp
  qed
qed

lemma min_page_masks:
  "MIPS_MIN_PAGE_MASK = VM_PAGE_MASK" "(ucast MIPS_MIN_PAGE_IMASK :: u64) = VM_PAGE_IMASK"
  by (simp_all add: MIPS_MIN_PAGE_MASK_def VM_PAGE_MASK_def MIPS_MIN_PAGE_IMASK_def VM_PAGE_IMASK_def)

lemma bit_page_masks [word_bits]:
  "bit VM_PAGE_MASK n \<longleftrightarrow> 12 \<le> n \<and> n < 64" "bit VM_PAGE_IMASK n \<longleftrightarrow> n < 12"
  by (auto simp: page_imask bit_not_iff bit_mask_iff)

lemma addr_map_vaddr: "addr_map asz vaddr cpu = Inr mp \<Longrightarrow> mm_vaddr mp = vaddr AND VM_PAGE_MASK"
proof -
  have "mm_vaddr mp = vaddr AND VM_PAGE_MASK" if "tlb_lookup_loop cpu vaddr is = Some mp" for "is"
    using that by (induction "is") (auto simp: tlb_translate_def tlb_half_map_def Let_def min_page_masks
      split: if_splits)
  then show "addr_map asz vaddr cpu = Inr mp \<Longrightarrow> mm_vaddr mp = vaddr AND VM_PAGE_MASK"
    by (auto simp: addr_map_def Let_def segment_map_def min_page_masks mips64_cp0_tlb_lookup_def
        split: if_splits option.splits)
qed

text \<open>Addresses of the same page are mapped to the same physical page.\<close>

definition tlb_masks_ok :: "'m cpu_mips \<Rightarrow> bool" where
  "tlb_masks_ok cpu \<longleftrightarrow> (\<forall>i. te_mask (cp0_tlb (cp0 cpu) i) AND NOT (ucast MIPS_TLB_PAGE_MASK) = 0)"

definition same_target :: "mts_map_res \<Rightarrow> mts_map_res \<Rightarrow> bool" where
  "same_target m m' \<longleftrightarrow> mm_vaddr m' = mm_vaddr m \<and> mm_paddr m' = mm_paddr m \<and> mm_cached m' = mm_cached m"

lemma same_page_bits: "v' AND VM_PAGE_MASK = v AND VM_PAGE_MASK \<Longrightarrow> 12 \<le> n \<Longrightarrow> bit v' n = bit v n"
proof -
  assume e: "v' AND VM_PAGE_MASK = v AND VM_PAGE_MASK" and n: "12 \<le> n"
  have "bit (v' AND VM_PAGE_MASK) n = bit (v AND VM_PAGE_MASK) n" by (simp add: e)
  then show ?thesis using n by (auto simp: bit_and_iff word_bits dest: bit_imp_le_length)
qed

lemma same_page_drop:
  assumes "v' AND VM_PAGE_MASK = v AND VM_PAGE_MASK" "12 \<le> k"
  shows "drop_bit k v' = drop_bit k v"
proof (rule bit_word_eqI)
  fix n
  show "bit (drop_bit k v') n = bit (drop_bit k v) n"
    using same_page_bits [OF assms(1), of "k + n"] assms(2) by (simp add: bit_drop_bit_eq)
qed

lemma same_page_and:
  assumes "v' AND VM_PAGE_MASK = v AND VM_PAGE_MASK" "\<And>n. bit m n \<Longrightarrow> 12 \<le> n"
  shows "v' AND m = v AND m"
  by (rule bit_word_eqI) (use same_page_bits [OF assms(1)] assms(2) in \<open>auto simp: bit_and_iff\<close>)

lemma bit_vpn2_mask: "bit (mips64_cp0_get_vpn2_mask cpu) n \<Longrightarrow> 12 \<le> n"
proof -
  have "(MIPS_TLB_VPN2_MASK_64 :: u64) = push_bit 13 (drop_bit 13 MIPS_TLB_VPN2_MASK_64)"
    by (simp add: MIPS_TLB_VPN2_MASK_64_def)
  moreover have "12 \<le> n" if "bit MIPS_TLB_VPN2_MASK_64 n" for n
  proof -
    have "bit (push_bit 13 (drop_bit 13 (MIPS_TLB_VPN2_MASK_64 :: u64))) n"
      using that calculation by simp
    then show ?thesis unfolding bit_push_bit_iff by linarith
  qed
  ultimately show "bit (mips64_cp0_get_vpn2_mask cpu) n \<Longrightarrow> 12 \<le> n"
    by (auto simp: mips64_cp0_get_vpn2_mask_def bit_vpn2_32 split: if_splits)
qed

lemma te_mask_bits:
  assumes "tlb_masks_ok cpu" and m_def: "m = te_mask (cp0_tlb (cp0 cpu) i)"
  shows "bit m n \<Longrightarrow> 13 \<le> n \<and> n < 25" "bit (get_page_size (ucast m)) n \<Longrightarrow> 12 \<le> n"
proof -
  have b: "13 \<le> n \<and> n < 25" if "bit m n" for n
  proof -
    have "\<not> bit (m AND NOT (ucast MIPS_TLB_PAGE_MASK)) n"
      using assms(1) by (simp add: tlb_masks_ok_def m_def)
    then show ?thesis using that by (auto simp: bit_and_iff bit_not_iff bit_ucast_iff bit_page_mask
          dest: bit_imp_le_length)
  qed
  then show "bit m n \<Longrightarrow> 13 \<le> n \<and> n < 25" .
  have "(ucast m :: u32) = push_bit 13 (drop_bit 13 (ucast m))"
    by (rule bit_word_eqI) (use b in \<open>force simp: bit_push_bit_iff bit_drop_bit_eq bit_ucast_iff\<close>)
  then have "(ucast m :: u32) + 0x2000 = push_bit 13 (drop_bit 13 (ucast m) + 1)"
    by (simp add: push_bit_add)
  then have "get_page_size (ucast m) = drop_bit 1 (push_bit 13 (drop_bit 13 (ucast m) + 1))"
    by (simp add: get_page_size_def)
  moreover have "bit (drop_bit 1 (push_bit 13 x)) n \<Longrightarrow> 12 \<le> n" for x :: u32
    by (auto simp: bit_drop_bit_eq bit_push_bit_iff)
  ultimately show "bit (get_page_size (ucast m)) n \<Longrightarrow> 12 \<le> n" by metis
qed

lemma tlb_entry_matches_page:
  assumes "v' AND VM_PAGE_MASK = v AND VM_PAGE_MASK"
  shows "tlb_entry_matches cpu v' e = tlb_entry_matches cpu v e"
proof -
  have "v' AND mips64_cp0_get_vpn2_mask cpu = v AND mips64_cp0_get_vpn2_mask cpu"
    by (rule same_page_and [OF assms bit_vpn2_mask])
  then show ?thesis by (simp add: tlb_entry_matches_def Let_def)
qed

lemma tlb_half_map_page:
  assumes "v' AND VM_PAGE_MASK = v AND VM_PAGE_MASK"
  shows "same_target (tlb_half_map cpu v el ps i) (tlb_half_map cpu v' el ps i)"
  using assms by (simp add: same_target_def tlb_half_map_def Let_def min_page_masks)

lemma tlb_translate_page:
  assumes "v' AND VM_PAGE_MASK = v AND VM_PAGE_MASK" "tlb_masks_ok cpu"
  shows "rel_option same_target (tlb_translate cpu v (cp0_tlb (cp0 cpu) j) i)
           (tlb_translate cpu v' (cp0_tlb (cp0 cpu) j) i)"
proof -
  let ?ps = "ucast (get_page_size (ucast (te_mask (cp0_tlb (cp0 cpu) j)))) :: u64"
  have "v' AND ?ps = v AND ?ps"
    by (rule same_page_and [OF assms(1)]) (auto simp: bit_ucast_iff dest: te_mask_bits(2) [OF assms(2) refl])
  then show ?thesis
    by (simp add: tlb_translate_def Let_def tlb_half_map_page [OF assms(1)])
qed

lemma tlb_lookup_page:
  assumes "v' AND VM_PAGE_MASK = v AND VM_PAGE_MASK" "tlb_masks_ok cpu"
  shows "rel_option same_target (mips64_cp0_tlb_lookup cpu v) (mips64_cp0_tlb_lookup cpu v')"
proof -
  have "rel_option same_target (tlb_lookup_loop cpu v js) (tlb_lookup_loop cpu v' js)" for js
    by (induction js) (simp_all add: tlb_entry_matches_page [OF assms(1)] tlb_translate_page [OF assms])
  then show ?thesis by (simp add: mips64_cp0_tlb_lookup_def)
qed

lemma if_rel:
  "rel_sum R S a a' \<Longrightarrow> rel_sum R S b b' \<Longrightarrow> rel_sum R S (if c then a else b) (if c then a' else b')"
  by simp

lemma addr_map_page:
  assumes e: "v' AND VM_PAGE_MASK = v AND VM_PAGE_MASK" and t: "tlb_masks_ok cpu"
  shows "rel_sum (=) same_target (addr_map asz v cpu) (addr_map asz v' cpu)"
proof -
  have d: "drop_bit 29 v' = drop_bit 29 v" "drop_bit 40 v' = drop_bit 40 v" "drop_bit 59 v' = drop_bit 59 v"
    using same_page_drop [OF e] by simp_all
  have x: "(v' AND mask 36) AND VM_PAGE_MASK = (v AND mask 36) AND VM_PAGE_MASK"
    by (metis (no_types) e and.assoc and.commute)
  have s: "same_target (segment_map b v c) (segment_map b v' c)" for b c
    using e by (simp add: same_target_def segment_map_def min_page_masks)
  have tl: "rel_sum (=) same_target
      (case mips64_cp0_tlb_lookup cpu v of None \<Rightarrow> Inl MTS_ACC_T | Some mp \<Rightarrow> Inr mp)
      (case mips64_cp0_tlb_lookup cpu v' of None \<Rightarrow> Inl MTS_ACC_T | Some mp \<Rightarrow> Inr mp)"
    using tlb_lookup_page [OF e t] by (cases rule: option.rel_cases) auto
  have xk: "same_target \<lparr>mm_vaddr = v AND VM_PAGE_MASK, mm_paddr = (v AND mask 36) AND VM_PAGE_MASK,
      mm_offset = o1, mm_cached = c, mm_tlb_index = 0\<rparr>
     \<lparr>mm_vaddr = v' AND VM_PAGE_MASK, mm_paddr = (v' AND mask 36) AND VM_PAGE_MASK,
      mm_offset = o2, mm_cached = c, mm_tlb_index = 0\<rparr>" for o1 o2 c
    by (simp add: same_target_def e x)
  show ?thesis
    unfolding addr_map_def Let_def d MIPS64_XKPHYS_CCA_SHIFT_def MIPS64_XKPHYS_PHYS_MASK_def min_page_masks
    by (intro if_rel tl rel_sum.intros s xk refl)
qed

lemma mts_hash_page: "v' AND VM_PAGE_MASK = v AND VM_PAGE_MASK \<Longrightarrow> mts_hash v' = mts_hash v"
  unfolding mts_hash_def MTS64_HASH_SHIFT_def by (simp only: same_page_drop [of v' v 12] order.refl)

section \<open>Coherence\<close>

text \<open>The page of the memory device behind an address, as host memory.\<close>

definition ram_page :: "mts_map_res \<Rightarrow> 'd vm_instance \<Rightarrow> u64 option" where
  "ram_page mp vm =
    (case dev_lookup (mm_paddr mp) (mm_cached mp) vm of
       None \<Rightarrow> None
     | Some p \<Rightarrow>
        let dev = dev_heap vm p
        in if has_flag dev VDEVICE_FLAG_SPARSE \<or> has_flag dev VDEVICE_FLAG_NO_MTS_MMAP \<or> host_addr dev = 0
           then None else Some (host_addr dev + (mm_paddr mp - phys_addr dev)))"

definition ram_loc :: "u32 \<Rightarrow> 'd mcpu \<Rightarrow> u64 \<Rightarrow> u64 option" where
  "ram_loc asz cpu v =
    (case addr_map asz v cpu of Inl _ \<Rightarrow> None
     | Inr mp \<Rightarrow> map_option (\<lambda>page. page + (v AND VM_PAGE_IMASK)) (ram_page mp (cvm cpu)))"

text \<open>The addresses a program may use: in 32-bit mode they are in sign-extended form.\<close>

definition good_addr :: "u32 \<Rightarrow> u64 \<Rightarrow> bool" where
  "good_addr asz v \<longleftrightarrow> (asz = 32 \<longrightarrow> is_sext32 v)"

definition mts_match :: "u32 \<Rightarrow> u64 \<Rightarrow> 'd mcpu \<Rightarrow> bool" where
  "mts_match asz v cpu \<longleftrightarrow> gvpa (mts_cache (machine cpu) (mts_hash v)) = mts_addr asz (v AND VM_PAGE_MASK)"

definition mts_coherent :: "u32 \<Rightarrow> 'd mcpu \<Rightarrow> bool" where
  "mts_coherent asz cpu \<longleftrightarrow>
    (\<forall>v. good_addr asz v \<longrightarrow> mts_match asz v cpu \<longrightarrow>
      (\<exists>mp. addr_map asz v cpu = Inr mp \<and>
         (\<forall>page. ram_page mp (cvm cpu) = Some page \<longrightarrow>
            hpa (mts_cache (machine cpu) (mts_hash v)) = page \<and>
            mts_flags (mts_cache (machine cpu) (mts_hash v)) = 0)))"

text \<open>What the address map depends on.\<close>

definition mmu_state :: "'d mcpu \<Rightarrow> (nat \<Rightarrow> tlb_entry) \<times> u32 \<times> u64 \<times> u32 \<times> u64 \<times> (nat \<Rightarrow> vdevice) \<times> nat list" where
  "mmu_state cpu = (cp0_tlb (cp0 cpu), tlb_entries (cp0 cpu), creg cpu MIPS_CP0_TLB_HI, addr_mode cpu,
     addr_bus_mask cpu, dev_heap (cvm cpu), dev_list (cvm cpu))"

lemma addr_map_cong:
  assumes "mmu_state cpu' = mmu_state cpu"
  shows "addr_map asz v cpu' = addr_map asz v cpu"
proof -
  note m = assms [unfolded mmu_state_def, simplified]
  have k: "mips64_cp0_get_vpn2_mask cpu' = mips64_cp0_get_vpn2_mask cpu"
    using m by (simp add: mips64_cp0_get_vpn2_mask_def)
  have 1: "tlb_entry_matches cpu' v e = tlb_entry_matches cpu v e" for e
    using m by (simp add: tlb_entry_matches_def Let_def k)
  have 2: "tlb_translate cpu' v e i = tlb_translate cpu v e i" for e i
    using m by (simp add: tlb_translate_def tlb_half_map_def Let_def)
  have 3: "tlb_lookup_loop cpu' v js = tlb_lookup_loop cpu v js" for js
    by (induction js) (use m 1 2 in simp_all)
  have "mips64_cp0_tlb_lookup cpu' v = mips64_cp0_tlb_lookup cpu v"
    using m 3 by (simp add: mips64_cp0_tlb_lookup_def)
  then show ?thesis by (simp add: addr_map_def)
qed

lemma ram_page_cong:
  "dev_heap vm' = dev_heap vm \<Longrightarrow> dev_list vm' = dev_list vm \<Longrightarrow> ram_page mp vm' = ram_page mp vm"
  by (simp add: ram_page_def dev_lookup_def Let_def split: option.splits)

lemma mmu_stateD:
  assumes "mmu_state cpu' = mmu_state cpu"
  shows "dev_heap (cvm cpu') = dev_heap (cvm cpu)" "dev_list (cvm cpu') = dev_list (cvm cpu)"
    "addr_mode cpu' = addr_mode cpu" "cp0_tlb (cp0 cpu') = cp0_tlb (cp0 cpu)"
  using assms by (simp_all add: mmu_state_def)

lemma ram_loc_cong:
  assumes "mmu_state cpu' = mmu_state cpu"
  shows "ram_loc asz cpu' v = ram_loc asz cpu v"
  by (simp add: ram_loc_def addr_map_cong [OF assms] ram_page_cong [OF mmu_stateD(1,2) [OF assms]]
      split: sum.splits)

lemma tlb_masks_ok_cong:
  assumes "mmu_state cpu' = mmu_state cpu"
  shows "tlb_masks_ok cpu' = tlb_masks_ok cpu"
  by (simp add: tlb_masks_ok_def mmu_stateD(4) [OF assms])

lemma mts_coherent_cong:
  assumes "mmu_state cpu' = mmu_state cpu" "mts_cache (machine cpu') = mts_cache (machine cpu)"
  shows "mts_coherent asz cpu' = mts_coherent asz cpu"
  by (simp add: mts_coherent_def addr_map_cong [OF assms(1)] mts_match_def assms(2)
      ram_page_cong [OF mmu_stateD(1,2) [OF assms(1)]])

text \<open>Two addresses that share an entry of the cache are in the same page.\<close>

lemma mts_addr_inj:
  assumes "good_addr asz v" "good_addr asz v'" "mts_addr asz (v' AND VM_PAGE_MASK) = mts_addr asz (v AND VM_PAGE_MASK)"
  shows "v' AND VM_PAGE_MASK = v AND VM_PAGE_MASK"
proof (cases "asz = 32")
  case True
  have s: "bit x n = bit x (if n < 32 then n else 31)" if "good_addr asz x" "n < 64" for x n
  proof -
    have "sign_extend x 32 = x" using that(1) True by (simp add: good_addr_def is_sext32_def)
    then have "bit x n = bit (sign_extend x 32) n" by simp
    also have "\<dots> = bit x (if n < 32 then n else 31)" using that(2) by (simp add: bit_sign_extend)
    finally show ?thesis .
  qed
  have low: "bit (v' AND VM_PAGE_MASK) n = bit (v AND VM_PAGE_MASK) n" if "n < 32" for n
  proof -
    have "bit (take_bit 32 (v' AND VM_PAGE_MASK)) n = bit (take_bit 32 (v AND VM_PAGE_MASK)) n"
      using assms(3) True by (simp add: mts_addr_def)
    then show ?thesis using that by (simp add: bit_take_bit_iff del: take_bit_and)
  qed
  show ?thesis
  proof (rule bit_word_eqI)
    fix n assume n: "n < LENGTH(64)"
    show "bit (v' AND VM_PAGE_MASK) n = bit (v AND VM_PAGE_MASK) n"
    proof (cases "n < 32")
      case False
      have "bit v' 31 = bit v 31" using low [of 31] by (simp add: bit_and_iff bit_page_masks)
      then show ?thesis
        using s [OF assms(1), of n] s [OF assms(2), of n] False n by (simp add: bit_and_iff)
    qed (rule low)
  qed
next
  case False
  then show ?thesis using assms(3) by (simp add: mts_addr_def)
qed

lemma mts_empty_no_match: "gvpa (mts_empty asz) \<noteq> mts_addr asz (v AND VM_PAGE_MASK)"
proof
  assume "gvpa (mts_empty asz) = mts_addr asz (v AND VM_PAGE_MASK)"
  then have "bit (mts_addr asz (-1 :: u64)) 0 = bit (mts_addr asz (v AND VM_PAGE_MASK)) 0"
    by (simp add: mts_empty_def)
  then show False by (simp add: mts_addr_def bit_take_bit_iff bit_and_iff bit_page_masks del: take_bit_minus_one_eq_mask split: if_splits)
qed

lemma empty_cache_coherent: "mts_cache (machine cpu) = (\<lambda>_. mts_empty asz) \<Longrightarrow> mts_coherent asz cpu"
  by (simp add: mts_coherent_def mts_match_def mts_empty_no_match)

section \<open>Accesses keep the cache coherent\<close>

definition with_cache :: "(nat \<Rightarrow> mts_entry) \<Rightarrow> 'd mcpu \<Rightarrow> 'd mcpu" where
  "with_cache c cpu = upd_machine (\<lambda>m. m\<lparr>mts_cache := c\<rparr>) cpu"

lemma with_cache_simps [simp]:
  "mts_cache (machine (with_cache c cpu)) = c" "cvm (with_cache c cpu) = cvm cpu"
  "mmu_state (with_cache c cpu) = mmu_state cpu" "gpr (with_cache c cpu) = gpr cpu"
  "fpu_reg (with_cache c cpu) = fpu_reg cpu" "pc (with_cache c cpu) = pc cpu"
  "cp0 (with_cache c cpu) = cp0 cpu" "ll_bit (with_cache c cpu) = ll_bit cpu"
  "with_cache c (with_cache c' cpu) = with_cache c cpu" "with_cache (mts_cache (machine cpu)) cpu = cpu"
  by (simp_all add: with_cache_def mmu_state_def)

lemma set_cache_with: "set_cache b e cpu = with_cache ((mts_cache (machine cpu))(b := e)) cpu"
  by (simp add: set_cache_def with_cache_def)

lemma set_vm_simps [simp]:
  "cvm (set_vm vm cpu) = vm" "mts_cache (machine (set_vm vm cpu)) = mts_cache (machine cpu)"
  "gpr (set_vm vm cpu) = gpr cpu" "fpu_reg (set_vm vm cpu) = fpu_reg cpu" "cp0 (set_vm vm cpu) = cp0 cpu"
  "pc (set_vm vm cpu) = pc cpu" "ll_bit (set_vm vm cpu) = ll_bit cpu"
  "addr_mode (set_vm vm cpu) = addr_mode cpu"
  by (simp_all add: set_vm_def)

lemma mmu_state_set_vm [simp]:
  "dev_heap vm = dev_heap (cvm cpu) \<Longrightarrow> dev_list vm = dev_list (cvm cpu) \<Longrightarrow> mmu_state (set_vm vm cpu) = mmu_state cpu"
  by (simp add: mmu_state_def set_vm_def)

lemma alloc_keeps_devices:
  "vm_alloc_host_page vm = (page, vm') \<Longrightarrow>
   dev_heap vm' = dev_heap vm \<and> dev_list vm' = dev_list vm \<and> dev_array vm' = dev_array vm"
  by (auto simp: vm_alloc_host_page_def take_page_def vm_chunk_create_def Let_def
      split: list.splits if_splits option.splits)

lemma sparse_keeps_devices:
  assumes "dev_sparse_get_host_addr p paddr ty vm = Inr (r, vm')"
  shows "dev_heap vm' = dev_heap vm \<and> dev_list vm' = dev_list vm"
proof -
  have new: "dev_heap vm' = dev_heap vm \<and> dev_list vm' = dev_list vm"
    if "sparse_new_page s off prepare vm = Inr (r, vm')"
      and "\<And>page vm. dev_heap (prepare page vm) = dev_heap vm \<and> dev_list (prepare page vm) = dev_list vm"
    for s off prepare
  proof -
    obtain page w where a: "vm_alloc_host_page vm = (page, w)" by (cases "vm_alloc_host_page vm")
    show ?thesis
      using that(1) alloc_keeps_devices [OF a]
      by (auto simp: sparse_new_page_def Let_def a that(2) split: if_splits)
  qed
  show ?thesis
    using assms by (auto simp: dev_sparse_get_host_addr_def Let_def split: option.splits if_splits dest!: new)
qed

lemma fill_coherent:
  assumes co: "mts_coherent asz cpu" and tm: "tlb_masks_ok cpu" and gv: "good_addr asz v"
    and am: "addr_map asz v cpu = Inr mp" and ge: "gvpa e = mts_addr asz (mm_vaddr mp)"
    and re: "\<And>page. ram_page mp (cvm cpu) = Some page \<Longrightarrow> hpa e = page \<and> mts_flags e = 0"
    and ms: "mmu_state cpu' = mmu_state cpu"
    and mc: "mts_cache (machine cpu') = (mts_cache (machine cpu))(mts_hash v := e)"
  shows "mts_coherent asz cpu'"
  unfolding mts_coherent_def
proof (intro allI impI)
  fix v' assume g': "good_addr asz v'" and m': "mts_match asz v' cpu'"
  have rp: "ram_page m (cvm cpu') = ram_page m (cvm cpu)" for m
    by (rule ram_page_cong [OF mmu_stateD(1,2) [OF ms]])
  show "\<exists>mp. addr_map asz v' cpu' = Inr mp \<and>
      (\<forall>page. ram_page mp (cvm cpu') = Some page \<longrightarrow>
        hpa (mts_cache (machine cpu') (mts_hash v')) = page \<and>
        mts_flags (mts_cache (machine cpu') (mts_hash v')) = 0)"
  proof (cases "mts_hash v' = mts_hash v")
    case True
    have "v' AND VM_PAGE_MASK = v AND VM_PAGE_MASK"
      using m' True by (intro mts_addr_inj [OF gv g']) (simp add: mts_match_def mc ge addr_map_vaddr [OF am])
    then have "rel_sum (=) same_target (addr_map asz v cpu) (addr_map asz v' cpu)"
      by (rule addr_map_page [OF _ tm])
    then obtain mp' where a': "addr_map asz v' cpu = Inr mp'" and st: "same_target mp mp'"
      using am by (auto elim: rel_sum.cases)
    have "ram_page mp' (cvm cpu) = ram_page mp (cvm cpu)"
      using st by (simp add: same_target_def ram_page_def Let_def split: option.split)
    then show ?thesis using re a' True by (simp add: addr_map_cong [OF ms] rp mc)
  next
    case False
    then have "mts_match asz v' cpu" using m' by (simp add: mts_match_def mc)
    then show ?thesis
      using co g' False by (simp add: mts_coherent_def addr_map_cong [OF ms] rp mc)
  qed
qed

text \<open>The mapping of a page leaves the devices alone and enters what the map says.\<close>

lemma map_page_effect:
  assumes "mts_map_page env asz ty mp b cpu = Inr (eo, cpu')"
  shows "mmu_state cpu' = mmu_state cpu \<and>
    (mts_cache (machine cpu') = mts_cache (machine cpu) \<or>
     (\<exists>e. mts_cache (machine cpu') = (mts_cache (machine cpu))(b := e) \<and>
        gvpa e = mts_addr asz (mm_vaddr mp) \<and>
        (\<forall>page. ram_page mp (cvm cpu) = Some page \<longrightarrow> hpa e = page \<and> mts_flags e = 0)))"
  using assms
  by (auto simp: mts_map_page_def Let_def bind_out_Inr_iff set_cache_with ram_page_def
      split: option.splits if_splits prod.splits dest!: sparse_keeps_devices)

lemma map_page_ram:
  assumes "ram_page mp (cvm cpu) = Some page"
  shows "\<exists>e. mts_map_page env asz ty mp b cpu = Inr (Some e, set_cache b e cpu) \<and>
    gvpa e = mts_addr asz (mm_vaddr mp) \<and> hpa e = page \<and> mts_flags e = 0"
  using assms by (auto simp: mts_map_page_def ram_page_def Let_def split: option.splits if_splits)

text \<open>What the handlers must leave alone: the mapping of the devices and of the TLB.\<close>

definition env_ok :: "'d mts_env \<Rightarrow> bool" where
  "env_ok env \<longleftrightarrow>
    (\<forall>h p off sz ty d vm r vm'. handlers env h p off sz ty d vm = Inr (r, vm') \<longrightarrow>
       dev_heap vm' = dev_heap vm \<and> dev_list vm' = dev_list vm) \<and>
    (\<forall>vm cpu. mmu_state (dev_irqs env vm cpu) = mmu_state cpu \<and>
       mts_cache (machine (dev_irqs env vm cpu)) = mts_cache (machine cpu)) \<and>
    (\<forall>h v sz ty d cpu. undef_mem_handler env = Some h \<longrightarrow>
       mmu_state (snd (h v sz ty d cpu)) = mmu_state cpu \<and>
       mts_cache (machine (snd (h v sz ty d cpu))) = mts_cache (machine cpu))"

text \<open>A step keeps the map and the coherence.\<close>

definition mts_kept :: "u32 \<Rightarrow> 'd mcpu \<Rightarrow> 'd mcpu \<Rightarrow> bool" where
  "mts_kept asz cpu cpu' \<longleftrightarrow> mmu_state cpu' = mmu_state cpu \<and>
     (mts_coherent asz cpu \<and> tlb_masks_ok cpu \<longrightarrow> mts_coherent asz cpu')"

lemma mts_kept_refl [simp]: "mts_kept asz cpu cpu"
  by (simp add: mts_kept_def)

lemma mts_kept_trans [trans]:
  "mts_kept asz a b \<Longrightarrow> mts_kept asz b c \<Longrightarrow> mts_kept asz a c"
  by (metis mts_kept_def tlb_masks_ok_cong)

lemma mts_kept_same:
  "mmu_state cpu' = mmu_state cpu \<Longrightarrow> mts_cache (machine cpu') = mts_cache (machine cpu) \<Longrightarrow> mts_kept asz cpu cpu'"
  using mts_coherent_cong [of cpu' cpu asz] by (simp add: mts_kept_def)

text \<open>An exception touches no register that the map depends on.\<close>

lemma exception_mmu [simp]:
  "mmu_state (mips64_trigger_exception code bd cpu) = mmu_state cpu"
  "machine (mips64_trigger_exception code bd cpu) = machine cpu"
  by (simp_all add: mips64_trigger_exception_def mips64_update_irq_flag_fast_def Let_def mmu_state_def
      cp0_numbers)

lemma raise_mem_simps [simp]:
  "mmu_state (acc_cpu (raise_mem v code cpu)) = mmu_state cpu"
  "machine (acc_cpu (raise_mem v code cpu)) = machine cpu"
  by (simp_all add: raise_mem_def) (simp add: mmu_state_def set_creg_def cp0_numbers)

lemma vm_stop_simps [simp]:
  "dev_heap (vm_stop vm) = dev_heap vm" "dev_list (vm_stop vm) = dev_list vm"
  "host_mem (vm_stop vm) = host_mem vm"
  by (simp_all add: vm_stop_def)

lemma special_kept:
  assumes "env_ok env"
  shows "mts_kept asz cpu (acc_cpu (mips64_access_special env v msk op ty sz d cpu))"
  by (rule mts_kept_same)
     (use assms in \<open>auto simp: mips64_access_special_def env_ok_def Let_def split: option.splits prod.splits;
       metis snd_conv\<close>)+

lemma slow_map_kept:
  assumes ok: "env_ok env" and gv: "good_addr asz v" and am: "addr_map asz v cpu = Inr mp"
    and sm: "slow_map env asz v op sz ty d mp cpu = Inr r"
  shows "mts_kept asz cpu (case r of Found e c \<Rightarrow> c | Special a \<Rightarrow> acc_cpu a)"
proof -
  obtain eo c where mp: "mts_map_page env asz ty mp (mts_hash v) cpu = Inr (eo, c)"
    and r: "r = (case eo of Some e \<Rightarrow> Found e c
                 | None \<Rightarrow> Special (mips64_access_special env v MTS_ACC_U op ty sz d c))"
    using sm by (auto simp: slow_map_def bind_out_Inr_iff split: option.splits)
  note ef = map_page_effect [OF mp]
  have "mts_kept asz cpu c"
  proof (cases "mts_cache (machine c) = mts_cache (machine cpu)")
    case True
    then show ?thesis using ef by (intro mts_kept_same) auto
  next
    case False
    then obtain e where "mts_cache (machine c) = (mts_cache (machine cpu))(mts_hash v := e)"
      "gvpa e = mts_addr asz (mm_vaddr mp)" "\<And>page. ram_page mp (cvm cpu) = Some page \<Longrightarrow> hpa e = page \<and> mts_flags e = 0"
      using ef by blast
    then show ?thesis
      using ef fill_coherent [OF _ _ gv am, of e c] by (auto simp: mts_kept_def)
  qed
  then show ?thesis
    by (cases eo) (auto simp: r intro: mts_kept_trans special_kept [OF ok])
qed

lemma access_kept:
  assumes ok: "env_ok env" and asz: "asz = 32 \<or> asz = 64" and gv: "good_addr asz v"
    and a: "mts_access env asz v op sz ty d cpu = Inr a"
  shows "mts_kept asz cpu (acc_cpu a)"
proof (cases "mts_hit asz v ty cpu")
  case True
  then show ?thesis using a by (auto simp: mts_access_def raw_access_def)
next
  case False
  then obtain r where sl: "mts_slow_lookup env asz v op sz ty d cpu = Inr r"
    and r: "(case r of Special b \<Rightarrow> Inr b | Found e c \<Rightarrow> entry_access env v sz ty d e c) = Inr a"
    using a by (auto simp: mts_access_def bind_out_Inr_iff)
  have k: "mts_kept asz cpu (case r of Found e c \<Rightarrow> c | Special a \<Rightarrow> acc_cpu a)"
  proof (cases "addr_map asz v cpu")
    case (Inl acc)
    then show ?thesis
      using sl special_kept [OF ok] by (auto simp: slow_lookup_addr_map [OF asz])
  next
    case (Inr mp)
    then show ?thesis
      using sl by (intro slow_map_kept [OF ok gv Inr]) (simp add: slow_lookup_addr_map [OF asz])
  qed
  show ?thesis
  proof (cases r)
    case (Special b)
    then show ?thesis using k r by simp
  next
    case (Found e c)
    have "mts_kept asz c (acc_cpu a)" if en: "entry_access env v sz ty d e c = Inr a"
    proof (cases "mts_flags e AND MTS_FLAG_DEV = 0")
      case True
      then show ?thesis using en by (auto simp: entry_access_def raw_access_def)
    next
      case False
      then obtain ptr d' vm' i off where
        "dev_access_fast (handlers env) i off sz ty d (cvm c) = Inr ((ptr, d'), vm')"
        and ac: "a = Access ptr d' (dev_irqs env vm' (set_vm vm' c))"
        using en by (auto simp: entry_access_def Let_def bind_out_Inr_iff)
      then have "dev_heap vm' = dev_heap (cvm c) \<and> dev_list vm' = dev_list (cvm c)"
        using ok by (auto simp: dev_access_fast_def dev_call_def env_ok_def split: if_splits option.splits)
      then show ?thesis
        using ok by (intro mts_kept_same) (simp_all add: ac env_ok_def)
    qed
    then show ?thesis using k r mts_kept_trans Found by auto
  qed
qed

text \<open>An access to memory, through the cache or not.\<close>

lemma ram_access:
  assumes asz: "asz = 32 \<or> asz = 64" and co: "mts_coherent asz cpu" and tm: "tlb_masks_ok cpu"
    and gv: "good_addr asz v" and h: "ram_loc asz cpu v = Some h"
  obtains c where "mts_access env asz v op sz ty d cpu = Inr (Access h d (with_cache c cpu))"
    "mts_coherent asz (with_cache c cpu)"
proof -
  obtain mp page where am: "addr_map asz v cpu = Inr mp" and rp: "ram_page mp (cvm cpu) = Some page"
    and hp: "h = page + (v AND VM_PAGE_IMASK)"
    using h by (auto simp: ram_loc_def split: sum.splits)
  show thesis
  proof (cases "mts_hit asz v ty cpu")
    case True
    then have "mts_match asz v cpu"
      by (simp add: mts_hit_def mts_match_def Let_def min_page_masks)
    then have "hpa (mts_cache (machine cpu) (mts_hash v)) = page"
      using co gv am rp by (auto simp: mts_coherent_def)
    then have "mts_access env asz v op sz ty d cpu = Inr (Access h d (with_cache (mts_cache (machine cpu)) cpu))"
      using True by (simp add: mts_access_def raw_access_def hp min_page_masks)
    then show thesis by (rule that) (simp add: co)
  next
    case False
    obtain e where e: "mts_map_page env asz ty mp (mts_hash v) cpu = Inr (Some e, set_cache (mts_hash v) e cpu)"
      "gvpa e = mts_addr asz (mm_vaddr mp)" "hpa e = page" "mts_flags e = 0"
      using map_page_ram [OF rp] by blast
    have "mts_access env asz v op sz ty d cpu =
        Inr (Access h d (with_cache ((mts_cache (machine cpu))(mts_hash v := e)) cpu))"
      using False
      by (simp add: mts_access_def slow_lookup_addr_map [OF asz] am slow_map_def e entry_access_def
          raw_access_def hp min_page_masks set_cache_with)
    moreover have "mts_coherent asz (with_cache ((mts_cache (machine cpu))(mts_hash v := e)) cpu)"
      by (rule fill_coherent [OF co tm gv am e(2)]) (use rp e(3,4) in auto)
    ultimately show thesis by (rule that)
  qed
qed

end
