(* ===== verification/Mips64_Access.thy ===== *)
theory Mips64_Access
  imports Mips64_Mem
begin

text \<open>
  Properties of the loads and stores of the MIPS64 processor on a coherent cache: what they move
  between registers and memory, the pairs of unaligned accesses, the exceptions, the devices,
  the invariant of the cache, and the states in which the cache misleads the processor.
\<close>

section \<open>Loads and stores of memory\<close>

definition mts_sys :: "u32 \<Rightarrow> 'd mcpu \<Rightarrow> bool" where
  "mts_sys asz cpu \<longleftrightarrow> (asz = 32 \<or> asz = 64) \<and> mts_coherent asz cpu \<and> tlb_masks_ok cpu"

text \<open>The address denotes memory, at the host address \<open>h\<close>.\<close>

definition ram_at :: "u32 \<Rightarrow> 'd mcpu \<Rightarrow> u64 \<Rightarrow> u64 \<Rightarrow> bool" where
  "ram_at asz cpu v h \<longleftrightarrow> good_addr asz v \<and> ram_loc asz cpu v = Some h \<and> h \<noteq> 0"

lemma mts_sys_cong:
  "mmu_state cpu' = mmu_state cpu \<Longrightarrow> mts_cache (machine cpu') = mts_cache (machine cpu) \<Longrightarrow>
   mts_sys asz cpu' = mts_sys asz cpu"
  using mts_coherent_cong [of cpu' cpu asz] tlb_masks_ok_cong [of cpu' cpu] by (simp add: mts_sys_def)

lemma ram_at_cong: "mmu_state cpu' = mmu_state cpu \<Longrightarrow> ram_at asz cpu' v h = ram_at asz cpu v h"
  using ram_loc_cong [of cpu' cpu asz v] by (simp add: ram_at_def)

lemma set_gpr_mmu [simp]: "mmu_state (set_gpr r x cpu) = mmu_state cpu"
  by (simp add: mmu_state_def set_gpr_def)

lemma load_ram:
  assumes s: "mts_sys asz cpu" and r: "ram_at asz cpu v h"
  obtains c where "mts_load env asz v op sz cpu f = f (vmtoh sz (host_read h sz (cvm cpu))) (with_cache c cpu)"
    "mts_sys asz (with_cache c cpu)"
proof -
  have sr: "asz = 32 \<or> asz = 64" "mts_coherent asz cpu" "tlb_masks_ok cpu" "good_addr asz v"
    "ram_loc asz cpu v = Some h" "h \<noteq> 0" using s r by (auto simp: mts_sys_def ram_at_def)
  obtain c where c: "mts_access env asz v op sz MTS_READ (junk env) cpu = Inr (Access h (junk env) (with_cache c cpu))"
    "mts_coherent asz (with_cache c cpu)"
    by (rule ram_access [OF sr(1-5)])
  have "tlb_masks_ok (with_cache c cpu)" using tlb_masks_ok_cong [of "with_cache c cpu" cpu] sr(3) by simp
  then have "mts_sys asz (with_cache c cpu)" using c(2) sr(1) by (simp add: mts_sys_def)
  then show thesis by (rule that [rotated]) (simp add: mts_load_def on_access_def c(1) sr(6))
qed

lemma store_ram:
  assumes s: "mts_sys asz cpu" and r: "ram_at asz cpu v h"
  obtains c where "mts_store env asz v op sz data cpu =
      ret0 (set_vm (host_write h (htovm sz data) (cvm cpu)) (with_cache c cpu))"
    "mts_sys asz (set_vm (host_write h (htovm sz data) (cvm cpu)) (with_cache c cpu))"
proof -
  have sr: "asz = 32 \<or> asz = 64" "mts_coherent asz cpu" "tlb_masks_ok cpu" "good_addr asz v"
    "ram_loc asz cpu v = Some h" "h \<noteq> 0" using s r by (auto simp: mts_sys_def ram_at_def)
  obtain c where c: "mts_access env asz v op sz MTS_WRITE data cpu = Inr (Access h data (with_cache c cpu))"
    "mts_coherent asz (with_cache c cpu)"
    by (rule ram_access [OF sr(1-5)])
  have "tlb_masks_ok (with_cache c cpu)" using tlb_masks_ok_cong [of "with_cache c cpu" cpu] sr(3) by simp
  then have "mts_sys asz (with_cache c cpu)" using c(2) sr(1) by (simp add: mts_sys_def)
  then have "mts_sys asz (set_vm (host_write h (htovm sz data) (cvm cpu)) (with_cache c cpu))"
    using mts_sys_cong [of "set_vm (host_write h (htovm sz data) (cvm cpu)) (with_cache c cpu)" "with_cache c cpu"]
    by simp
  then show thesis by (rule that [rotated]) (simp add: mts_store_def on_access_def c(1) sr(6))
qed

text \<open>What a store leaves for the loads: every pair of a store and a load of the same size, with the
  value that the load makes of the register stored.\<close>

definition store_load :: "('d memop \<times> 'd memop \<times> nat \<times> (u64 \<Rightarrow> u64)) list" where
  "store_load =
    [(mts_sb, mts_lb, 1, \<lambda>x. sign_extend x 8), (mts_sb, mts_lbu, 1, take_bit 8),
     (mts_sh, mts_lh, 2, \<lambda>x. sign_extend x 16), (mts_sh, mts_lhu, 2, take_bit 16),
     (mts_sw, mts_lw, 4, \<lambda>x. sign_extend x 32), (mts_sw, mts_lwu, 4, take_bit 32),
     (mts_sd, mts_ld, 8, \<lambda>x. x)]"

lemma and_masks:
  "(x :: u64) AND 0xff = take_bit 8 x" "x AND 0xffff = take_bit 16 x" "x AND 0xffffffff = take_bit 32 x"
  by (simp_all add: take_bit_eq_mask mask_eq_exp_minus_1)

lemma htovm_take_bit [simp]:
  "htovm 1 (take_bit 8 x) = htovm 1 x" "htovm 2 (take_bit 16 x) = htovm 2 x" "htovm 4 (take_bit 32 x) = htovm 4 x"
proof -
  have "(ucast (take_bit 8 x) :: u8) = ucast x" "(ucast (take_bit 16 x) :: u16) = ucast x"
    "(ucast (take_bit 32 x) :: u32) = ucast x"
    by (rule bit_word_eqI; auto simp: bit_ucast_iff bit_take_bit_iff)+
  then show "htovm 1 (take_bit 8 x) = htovm 1 x" "htovm 2 (take_bit 16 x) = htovm 2 x"
    "htovm 4 (take_bit 32 x) = htovm 4 x" by (simp_all add: htovm_def)
qed

lemma sign_extend_take_bit [simp]:
  "sign_extend (take_bit 8 x) 8 = sign_extend x 8" "sign_extend (take_bit 16 x) 16 = sign_extend x 16"
  "sign_extend (take_bit 32 x) 32 = sign_extend x 32"
  by (rule bit_word_eqI; auto simp: bit_sign_extend bit_take_bit_iff)+

lemma pair_ram:
  assumes st: "st env asz v reg cpu = mts_store env asz v op n (g (gpr cpu reg)) cpu"
    and ld: "\<And>cpu. ld env asz v' reg' cpu = mts_load env asz v' op' n cpu (\<lambda>d cpu. ret0 (set_gpr reg' (f d) cpu))"
    and g: "\<And>x. htovm n (g x) = htovm n x" and f: "\<And>x. f (vmtoh n (htovm n x)) = conv x"
    and n: "\<And>x. length (htovm n x) = n" "n \<le> 8"
    and s: "mts_sys asz cpu" and r: "ram_at asz cpu v h" "ram_at asz cpu v' h"
  shows "\<exists>c1 c2. st env asz v reg cpu = ret0 c1 \<and> ld env asz v' reg' c1 = ret0 c2 \<and>
    gpr c1 = gpr cpu \<and> gpr c2 = (gpr cpu)(reg' := conv (gpr cpu reg)) \<and>
    cvm c2 = host_write h (htovm n (gpr cpu reg)) (cvm cpu) \<and> mts_sys asz c2"
proof -
  obtain c where 1: "mts_store env asz v op n (g (gpr cpu reg)) cpu =
      ret0 (set_vm (host_write h (htovm n (g (gpr cpu reg))) (cvm cpu)) (with_cache c cpu))"
    "mts_sys asz (set_vm (host_write h (htovm n (g (gpr cpu reg))) (cvm cpu)) (with_cache c cpu))"
    by (rule store_ram [OF s r(1)])
  let ?c1 = "set_vm (host_write h (htovm n (gpr cpu reg)) (cvm cpu)) (with_cache c cpu)"
  have "ram_at asz ?c1 v' h" using ram_at_cong [of ?c1 cpu] r(2) by simp
  then obtain c' where 2: "mts_load env asz v' op' n ?c1 (\<lambda>d cpu. ret0 (set_gpr reg' (f d) cpu)) =
      ret0 (set_gpr reg' (f (vmtoh n (host_read h n (cvm ?c1)))) (with_cache c' ?c1))"
    "mts_sys asz (with_cache c' ?c1)"
    using load_ram 1(2) unfolding g by blast
  let ?c2 = "set_gpr reg' (conv (gpr cpu reg)) (with_cache c' ?c1)"
  have "host_read h n (cvm ?c1) = htovm n (gpr cpu reg)" using n by simp
  then have "ld env asz v' reg' ?c1 = ret0 ?c2" unfolding ld 2(1) by (simp add: f)
  moreover have "mts_sys asz ?c2"
    using 2(2) mts_sys_cong [of ?c2 "with_cache c' ?c1"] by simp
  moreover have "st env asz v reg cpu = ret0 ?c1" using st 1(1) by (simp add: g)
  ultimately show ?thesis by (intro exI [of _ ?c1] exI [of _ ?c2]) simp
qed

text \<open>C3: On memory, a load gives back what the last store of its size put there, whatever virtual
  address each of them uses for the place and whether the cache holds its page; the store changes
  exactly those bytes of the machine, in big-endian order, and neither changes another register.\<close>

theorem mts_store_load:
  assumes "(st, ld, n, conv) \<in> set store_load" "mts_sys asz cpu" "ram_at asz cpu v h" "ram_at asz cpu v' h"
  shows "\<exists>c1 c2. st env asz v reg cpu = ret0 c1 \<and> ld env asz v' reg' c1 = ret0 c2 \<and>
    gpr c1 = gpr cpu \<and> gpr c2 = (gpr cpu)(reg' := conv (gpr cpu reg)) \<and>
    cvm c2 = host_write h (htovm n (gpr cpu reg)) (cvm cpu) \<and> mts_sys asz c2"
proof -
  note ram = pair_ram [OF _ _ _ _ _ _ assms(2-4)]
  note defs = mts_sb_def mts_lb_def mts_lbu_def mts_sh_def mts_lh_def mts_lhu_def mts_sw_def mts_lw_def
    mts_lwu_def mts_sd_def mts_ld_def and_masks
  show ?thesis
    using assms(1) unfolding store_load_def
  proof (simp only: list.set insert_iff empty_iff prod.inject, elim disjE conjE FalseE, goal_cases)
    case 1 then show ?case
      by (simp only:) (rule ram [where g = "take_bit 8" and f = "\<lambda>x. sign_extend x 8"]; simp add: defs del: One_nat_def)
  next
    case 2 then show ?case
      by (simp only:) (rule ram [where g = "take_bit 8" and f = "take_bit 8"]; simp add: defs del: One_nat_def)
  next
    case 3 then show ?case
      by (simp only:) (rule ram [where g = "take_bit 16" and f = "\<lambda>x. sign_extend x 16"]; simp add: defs)
  next
    case 4 then show ?case
      by (simp only:) (rule ram [where g = "take_bit 16" and f = "take_bit 16"]; simp add: defs)
  next
    case 5 then show ?case
      by (simp only:) (rule ram [where g = "take_bit 32" and f = "\<lambda>x. sign_extend x 32"]; simp add: defs)
  next
    case 6 then show ?case
      by (simp only:) (rule ram [where g = "take_bit 32" and f = "take_bit 32"]; simp add: defs)
  next
    case 7 then show ?case
      by (simp only:) (rule ram [where g = "\<lambda>x. x" and f = "\<lambda>x. x"]; simp add: defs)
  qed
qed

section \<open>Unaligned accesses\<close>

lemma small_shift:
  assumes "j \<le> 8"
  shows "(ucast (of_nat j :: u64) :: u32) = of_nat j" "unat (push_bit 3 (of_nat j :: u32)) = 8 * j"
proof -
  have "j = 0 \<or> j = 1 \<or> j = 2 \<or> j = 3 \<or> j = 4 \<or> j = 5 \<or> j = 6 \<or> j = 7 \<or> j = 8" using assms by linarith
  then show "(ucast (of_nat j :: u64) :: u32) = of_nat j" "unat (push_bit 3 (of_nat j :: u32)) = 8 * j"
    by (elim disjE; simp)+
qed

text \<open>The shift counts, from the position \<open>k\<close> of the address within its word.\<close>

lemma low_bits:
  fixes v :: u64
  assumes b: "b \<le> 3" and k_def: "k = unat v mod 2 ^ b"
  shows "unat (push_bit 3 (ucast (v AND mask b) :: u32)) = 8 * k"
    "unat (push_bit 3 (ucast (((v + mask b) AND mask b) + 1) :: u32)) = (if k = 0 then 8 * 2 ^ b else 8 * k)"
proof -
  have p: "(2 :: nat) ^ b \<le> 8" using b power_increasing [of b 3 "2 :: nat"] by simp
  have and_mod: "x AND mask b = of_nat (unat x mod 2 ^ b)" for x :: u64
  proof -
    have e: "unat (take_bit b x) = unat x mod 2 ^ b" unfolding unsigned_take_bit_eq by (rule take_bit_eq_mod)
    have "take_bit b x = of_nat (unat (take_bit b x))" by simp
    then show ?thesis unfolding e by (simp only: take_bit_eq_mask)
  qed
  have k: "k < 2 ^ b" by (simp add: k_def)
  show "unat (push_bit 3 (ucast (v AND mask b) :: u32)) = 8 * k"
    using k p by (simp add: and_mod k_def [symmetric] small_shift)
  have "b = 0 \<or> b = 1 \<or> b = 2 \<or> b = 3" using b by linarith
  then have "unat (mask b :: u64) = 2 ^ b - 1" by (elim disjE) (simp_all add: mask_eq_exp_minus_1)
  moreover have "unat (v + mask b) mod 2 ^ b = (unat v + unat (mask b :: u64)) mod 2 ^ b"
  proof -
    have "(2 :: nat) ^ b dvd 2 ^ LENGTH(64)" using b by (intro le_imp_power_dvd) simp
    then show ?thesis by (simp add: unat_word_ariths mod_mod_cancel)
  qed
  ultimately have e: "unat (v + mask b) mod 2 ^ b = (k + (2 ^ b - 1)) mod 2 ^ b"
    by (simp only: k_def mod_add_left_eq)
  have "(k + (2 ^ b - 1)) mod 2 ^ b + 1 = (if k = 0 then 2 ^ b else k)"
  proof (cases k)
    case (Suc j)
    then have "k + (2 ^ b - 1) = j + 2 ^ b" by simp
    then show ?thesis using Suc k by simp
  qed simp
  then have n: "unat (v + mask b) mod 2 ^ b + 1 = (if k = 0 then 2 ^ b else k)" unfolding e .
  have "((v + mask b) AND mask b) + 1 = of_nat (unat (v + mask b) mod 2 ^ b + 1)"
    unfolding and_mod [of "v + mask b"] by (simp only: of_nat_add of_nat_1)
  then have "((v + mask b) AND mask b) + 1 = of_nat (if k = 0 then 2 ^ b else k)" unfolding n .
  then show "unat (push_bit 3 (ucast (((v + mask b) AND mask b) + 1) :: u32)) = (if k = 0 then 8 * 2 ^ b else 8 * k)"
    using k p small_shift [of "if k = 0 then 2 ^ b else k"] by (simp split: if_splits)
qed

lemma push_mask: "push_bit n 1 - 1 = (mask n :: u64)"
  by (simp add: mask_eq_exp_minus_1 push_bit_of_1)

text \<open>The bytes that the parts of an unaligned access put together.\<close>

definition window :: "nat \<Rightarrow> nat \<Rightarrow> bytes \<Rightarrow> bytes \<Rightarrow> bytes" where
  "window n k b0 b1 = take n (drop k (b0 @ b1))"

lemma nth_window:
  assumes "length b0 = n" "length b1 = n" "k < n" "i < n"
  shows "window n k b0 b1 ! i = (if k + i < n then b0 ! (k + i) else b1 ! (k + i - n))"
proof -
  have "window n k b0 b1 ! i = (b0 @ b1) ! (k + i)"
    unfolding window_def nth_take [OF assms(4)] by (rule nth_drop) (use assms in simp)
  then show ?thesis by (simp only: nth_append assms(1))
qed

lemma length_window [simp]: "length b0 = n \<Longrightarrow> length b1 = n \<Longrightarrow> k < n \<Longrightarrow> length (window n k b0 b1) = n"
  by (simp add: window_def)

lemma byte_shift:
  fixes n :: nat
  assumes "8 * k \<le> n"
  shows "(n - 8 * k) div 8 = n div 8 - k" "(n - 8 * k) mod 8 = n mod 8" "k \<le> n div 8"
proof -
  obtain m where n: "n = m + 8 * k" using assms le_Suc_ex add.commute by metis
  have "(m + 8 * k) div 8 = m div 8 + k" "(m + 8 * k) mod 8 = m mod 8" by simp_all
  then show "(n - 8 * k) div 8 = n div 8 - k" "(n - 8 * k) mod 8 = n mod 8" "k \<le> n div 8"
    unfolding n by simp_all
qed

lemma byte_unshift:
  fixes n :: nat
  assumes "n < 8 * k" "k < w" "W = 8 * w"
  shows "(W - 8 * k + n) div 8 = n div 8 + (w - k)" "(W - 8 * k + n) mod 8 = n mod 8" "n div 8 < k"
proof -
  have e: "W - 8 * k = 8 * (w - k)" by (simp add: assms(3) diff_mult_distrib2)
  show "(W - 8 * k + n) div 8 = n div 8 + (w - k)" "(W - 8 * k + n) mod 8 = n mod 8"
    unfolding e by simp_all
  show "n div 8 < k" using assms(1) by linarith
qed

lemma ldl_ldr_value:
  assumes l: "length b0 = 8" "length b1 = 8" and k: "0 < k" "k < 8"
  shows "(((r AND mask (8 * k)) OR push_bit (8 * k) (vmtoh 8 b0)) AND NOT (mask (8 * k))) OR
     drop_bit (64 - 8 * k) (vmtoh 8 b1) = vmtoh 8 (window 8 k b0 b1)" (is "?l = ?r")
proof (rule bit_word_eqI)
  fix n assume "n < LENGTH(64)"
  then have n: "n < 64" "n div 8 < 8" by (simp_all add: div_less_iff_less_mult)
  show "bit ?l n = bit ?r n"
  proof (cases "n < 8 * k")
    case True
    have b: "(64 - 8 * k + n) div 8 = n div 8 + (8 - k)" "(64 - 8 * k + n) mod 8 = n mod 8" "n div 8 < k"
      by (rule byte_unshift [OF True k(2)]; simp)+
    have w: "window 8 k b0 b1 ! (7 - n div 8) = b1 ! (k + (7 - n div 8) - 8)"
    proof -
      have "\<not> k + (7 - n div 8) < 8" "7 - n div 8 < 8" using b(3) k(2) by linarith+
      then show ?thesis using nth_window [OF l k(2)] by simp
    qed
    have "64 - 8 * k + n < 64" using True k by linarith
    moreover have "7 - (n div 8 + (8 - k)) = k + (7 - n div 8) - 8" using b(3) k by linarith
    ultimately have "bit (drop_bit (64 - 8 * k) (vmtoh 8 b1)) n = bit (b1 ! (k + (7 - n div 8) - 8)) (n mod 8)"
      unfolding bit_drop_bit_eq comp_def bit_vmtoh8 b by simp
    then show ?thesis
      using True n by (simp add: bit_or_iff bit_and_iff bit_not_iff bit_mask_iff bit_push_bit_iff bit_vmtoh8 w)
  next
    case False
    then have ge: "8 * k \<le> n" by simp
    note b = byte_shift [OF ge]
    have w: "window 8 k b0 b1 ! (7 - n div 8) = b0 ! (k + (7 - n div 8))"
    proof -
      have "k + (7 - n div 8) < 8" "7 - n div 8 < 8" using b(3) n(2) by linarith+
      then show ?thesis using nth_window [OF l k(2)] by simp
    qed
    have e: "7 - (n div 8 - k) = k + (7 - n div 8)" using b(3) n by linarith
    have "bit (push_bit (8 * k) (vmtoh 8 b0)) n = bit (b0 ! (k + (7 - n div 8))) (n mod 8)"
      unfolding bit_push_bit_iff bit_vmtoh8 b(1,2) e using ge n(1) less_imp_diff_less [OF n(1)] by simp
    moreover have "\<not> bit (drop_bit (64 - 8 * k) (vmtoh 8 b1)) n"
    proof -
      have "\<not> 64 - 8 * k + n < 64" using ge k by linarith
      then show ?thesis unfolding bit_drop_bit_eq comp_def bit_vmtoh8 by blast
    qed
    ultimately show ?thesis
      using ge n by (simp add: bit_or_iff bit_and_iff bit_not_iff bit_mask_iff bit_vmtoh8 [of "window 8 k b0 b1"] w)
  qed
qed

lemma window_0 [simp]: "length b0 = n \<Longrightarrow> window n 0 b0 b1 = b0"
  by (simp add: window_def)

lemma lwl_lwr_value:
  assumes l: "length b0 = 4" "length b1 = 4" and k: "0 < k" "k < 4"
  shows "(sign_extend ((r AND mask (8 * k)) OR push_bit (8 * k) (vmtoh 4 b0)) 32 AND NOT (mask (8 * k))) OR
     sign_extend (drop_bit (32 - 8 * k) (vmtoh 4 b1)) 32 = sign_extend (vmtoh 4 (window 4 k b0 b1)) 32" (is "?l = ?r")
proof (rule bit_word_eqI)
  fix n assume "n < LENGTH(64)"
  then have n: "n < 64" by simp
  define j where "j = (if n < 32 then n else 31)"
  have j: "j < 32" by (simp add: j_def)
  then have j: "j < 32" "j div 8 < 4" by linarith+
  have kl: "8 * k < 32" using k by linarith
  have ge: "8 * k \<le> n \<longleftrightarrow> 8 * k \<le> j" using kl by (auto simp: j_def)
  have r: "bit ?r n = bit (window 4 k b0 b1 ! (3 - j div 8)) (j mod 8)"
    using n j by (auto simp: bit_sign_extend bit_vmtoh4 j_def)
  have d: "bit (sign_extend (drop_bit (32 - 8 * k) (vmtoh 4 b1)) 32) n = bit (drop_bit (32 - 8 * k) (vmtoh 4 b1)) j"
    using n by (simp add: bit_sign_extend j_def)
  have p: "bit (sign_extend ((r AND mask (8 * k)) OR push_bit (8 * k) (vmtoh 4 b0)) 32) n =
      bit ((r AND mask (8 * k)) OR push_bit (8 * k) (vmtoh 4 b0)) j"
    using n by (simp add: bit_sign_extend j_def)
  show "bit ?l n = bit ?r n"
  proof (cases "j < 8 * k")
    case True
    have b: "(32 - 8 * k + j) div 8 = j div 8 + (4 - k)" "(32 - 8 * k + j) mod 8 = j mod 8" "j div 8 < k"
      by (rule byte_unshift [OF True k(2)]; simp)+
    have w: "window 4 k b0 b1 ! (3 - j div 8) = b1 ! (k + (3 - j div 8) - 4)"
    proof -
      have "\<not> k + (3 - j div 8) < 4" "3 - j div 8 < 4" using b(3) k(2) by linarith+
      then show ?thesis using nth_window [OF l k(2)] by simp
    qed
    have "32 - 8 * k + j < 32" using True k by linarith
    moreover have "3 - (j div 8 + (4 - k)) = k + (3 - j div 8) - 4" using b(3) k by linarith
    ultimately have "bit (drop_bit (32 - 8 * k) (vmtoh 4 b1)) j = bit (b1 ! (k + (3 - j div 8) - 4)) (j mod 8)"
      unfolding bit_drop_bit_eq comp_def bit_vmtoh4 b by simp
    then show ?thesis
      unfolding bit_or_iff bit_and_iff r d p w using True n ge by (simp add: bit_not_iff bit_mask_iff)
  next
    case False
    then have g: "8 * k \<le> j" by simp
    note b = byte_shift [OF g]
    have w: "window 4 k b0 b1 ! (3 - j div 8) = b0 ! (k + (3 - j div 8))"
    proof -
      have "k + (3 - j div 8) < 4" "3 - j div 8 < 4" using b(3) j(2) by linarith+
      then show ?thesis using nth_window [OF l k(2)] by simp
    qed
    have e: "3 - (j div 8 - k) = k + (3 - j div 8)" using b(3) j by linarith
    have "bit (push_bit (8 * k) (vmtoh 4 b0)) j = bit (b0 ! (k + (3 - j div 8))) (j mod 8)"
      unfolding bit_push_bit_iff bit_vmtoh4 b(1,2) e using g j(1) less_imp_diff_less [OF j(1)] by simp
    moreover have "\<not> bit (drop_bit (32 - 8 * k) (vmtoh 4 b1)) j"
    proof -
      have "\<not> 32 - 8 * k + j < 32" using g k by linarith
      then show ?thesis unfolding bit_drop_bit_eq comp_def bit_vmtoh4 by blast
    qed
    ultimately show ?thesis
      unfolding bit_or_iff bit_and_iff r d p w
      using g n ge by (simp add: bit_not_iff bit_mask_iff bit_or_iff bit_and_iff)
  qed
qed

text \<open>The bytes that a partial store writes, from the bits of the word it builds.\<close>

lemma bit_htovm_nth:
  assumes "W = 4 \<or> W = 8" "i < W"
  shows "bit (htovm W x ! i) j \<longleftrightarrow> j < 8 \<and> bit x (8 * (W - 1 - i) + j)"
proof -
  have e: "htovm W x ! i = ucast (drop_bit (8 * (W - 1 - i)) x)"
    using assms nth_htovm4 [of i x] nth_htovm8 [of i x] by (auto simp: algebra_simps)
  show ?thesis unfolding e by (auto simp: bit_ucast_iff bit_drop_bit_eq)
qed

lemma bit_vmtoh_byte:
  assumes "W = 4 \<or> W = 8" "m < W" "j < 8"
  shows "bit (vmtoh W b) (8 * m + j) = bit (b ! (W - 1 - m)) j"
proof -
  have "(8 * m + j) div 8 = m" "(8 * m + j) mod 8 = j" using assms(3) by simp_all
  moreover have "8 * m + j < 8 * W" using assms(2,3) by linarith
  ultimately show ?thesis using assms(1) by (auto simp: bit_vmtoh4 bit_vmtoh8)
qed

lemma left_bytes:
  assumes W: "W = 4 \<or> W = 8" and l: "length b0 = W" and k: "k < W"
    and d: "\<And>n. n < 8 * W \<Longrightarrow> bit data n = (if n + 8 * k < 8 * W then bit r (n + 8 * k) else bit (vmtoh W b0) n)"
  shows "htovm W data = take k b0 @ take (W - k) (htovm W r)"
proof (rule nth_equalityI)
  have lh: "length (htovm W x) = W" for x using W by auto
  show "length (htovm W data) = length (take k b0 @ take (W - k) (htovm W r))" using l k by (simp add: lh)
  fix i assume "i < length (htovm W data)"
  then have i: "i < W" by (simp add: lh)
  show "htovm W data ! i = (take k b0 @ take (W - k) (htovm W r)) ! i"
  proof (rule bit_word_eqI)
    fix j assume "j < LENGTH(8)"
    then have j: "j < 8" by simp
    have n: "8 * (W - 1 - i) + j < 8 * W" using i j by linarith
    have h: "bit (htovm W data ! i) j = bit data (8 * (W - 1 - i) + j)"
      using bit_htovm_nth [OF W i] j by simp
    show "bit (htovm W data ! i) j = bit ((take k b0 @ take (W - k) (htovm W r)) ! i) j"
    proof (cases "i < k")
      case True
      have "\<not> 8 * (W - 1 - i) + j + 8 * k < 8 * W" using True i by linarith
      moreover have "bit (vmtoh W b0) (8 * (W - 1 - i) + j) = bit (b0 ! i) j"
        using bit_vmtoh_byte [OF W _ j, of "W - 1 - i" b0] i by simp
      ultimately show ?thesis using True l k unfolding h d [OF n] by (simp add: nth_append)
    next
      case False
      have lt: "8 * (W - 1 - i) + j + 8 * k < 8 * W" using False i j by linarith
      have e: "8 * (W - 1 - i) + j + 8 * k = 8 * (W - 1 - (i - k)) + j" using False i k by simp
      have ik: "i - k < W - k" "i - k < W" using False i by linarith+
      have "bit (htovm W r ! (i - k)) j = bit r (8 * (W - 1 - i) + j + 8 * k)"
        unfolding e using bit_htovm_nth [OF W ik(2)] j by simp
      then show ?thesis using False l k lt ik unfolding h d [OF n] by (simp add: nth_append lh)
    qed
  qed
qed

lemma right_bytes:
  assumes W: "W = 4 \<or> W = 8" and l: "length b1 = W" and k: "0 < k" "k < W"
    and d: "\<And>n. n < 8 * W \<Longrightarrow>
      bit data n = (if n < 8 * W - 8 * k then bit (vmtoh W b1) n else bit r (n - (8 * W - 8 * k)))"
  shows "htovm W data = drop (W - k) (htovm W r) @ drop k b1"
proof (rule nth_equalityI)
  have lh: "length (htovm W x) = W" for x using W by auto
  show "length (htovm W data) = length (drop (W - k) (htovm W r) @ drop k b1)" using l k by (simp add: lh)
  fix i assume "i < length (htovm W data)"
  then have i: "i < W" by (simp add: lh)
  show "htovm W data ! i = (drop (W - k) (htovm W r) @ drop k b1) ! i"
  proof (rule bit_word_eqI)
    fix j assume "j < LENGTH(8)"
    then have j: "j < 8" by simp
    have n: "8 * (W - 1 - i) + j < 8 * W" using i j by linarith
    have h: "bit (htovm W data ! i) j = bit data (8 * (W - 1 - i) + j)"
      using bit_htovm_nth [OF W i] j by simp
    show "bit (htovm W data ! i) j = bit ((drop (W - k) (htovm W r) @ drop k b1) ! i) j"
    proof (cases "i < k")
      case True
      have ge: "\<not> 8 * (W - 1 - i) + j < 8 * W - 8 * k" using True i k by linarith
      have e: "8 * (W - 1 - i) + j - (8 * W - 8 * k) = 8 * (W - 1 - (W - k + i)) + j" using True i k by linarith
      have ik: "W - k + i < W" using True k by linarith
      have "bit (htovm W r ! (W - k + i)) j = bit r (8 * (W - 1 - i) + j - (8 * W - 8 * k))"
        unfolding e using bit_htovm_nth [OF W ik] j by simp
      then show ?thesis using True l k ge ik unfolding h d [OF n] by (simp add: nth_append lh)
    next
      case False
      have lt: "8 * (W - 1 - i) + j < 8 * W - 8 * k" using False i j k by linarith
      have "bit (vmtoh W b1) (8 * (W - 1 - i) + j) = bit (b1 ! i) j"
        using bit_vmtoh_byte [OF W _ j, of "W - 1 - i" b1] i by simp
      then show ?thesis using False l k lt unfolding h d [OF n] by (simp add: nth_append lh)
    qed
  qed
qed

lemma hput_same: "hput m h (take k (hget m h W)) = m"
proof
  fix x
  have "m (h + of_nat (unat (x - h))) = m x" by simp
  then show "hput m h (take k (hget m h W)) x = m x" by (simp add: hput_def)
qed

lemma hput_prefix:
  assumes "k \<le> W" "W + length ys \<le> 2 ^ 64"
  shows "hput m h (take k (hget m h W) @ ys) = hput m (h + of_nat k) ys"
proof -
  have "length (take k (hget m h W)) = k" using assms(1) by simp
  then show ?thesis using hput_append [of "take k (hget m h W)" ys m h] assms by (simp add: hput_same)
qed

lemma hput_suffix:
  assumes "length ys = k" "k \<le> W" "W \<le> 2 ^ 64"
  shows "hput m h (ys @ drop k (hget m h W)) = hput m h ys"
proof
  fix x
  have "m (h + of_nat (unat (x - h))) = m x" by simp
  then show "hput m h (ys @ drop k (hget m h W)) x = hput m h ys x"
    using assms by (simp add: hput_def nth_append)
qed

lemma low3:
  fixes v :: u64
  shows "unat (push_bit 3 (ucast (v AND 3) :: u32)) = 8 * (unat v mod 4)"
    "unat (push_bit 3 (ucast (((v + 3) AND 3) + 1) :: u32)) =
       (if unat v mod 4 = 0 then 32 else 8 * (unat v mod 4))"
  using low_bits [of 2 _ v, OF _ refl] by (simp_all add: mask_eq_exp_minus_1)

lemma low7:
  fixes v :: u64
  shows "unat (push_bit 3 (ucast (v AND 7) :: u32)) = 8 * (unat v mod 8)"
    "unat (push_bit 3 (ucast (((v + 7) AND 7) + 1) :: u32)) =
       (if unat v mod 8 = 0 then 64 else 8 * (unat v mod 8))"
  using low_bits [of 3 _ v, OF _ refl] by (simp_all add: mask_eq_exp_minus_1)

lemma aligned_word:
  fixes v :: u64
  shows "unat v mod 4 = 0 \<Longrightarrow> (v + 3) AND NOT 3 = v AND NOT 3"
    "unat v mod 8 = 0 \<Longrightarrow> (v + 7) AND NOT 7 = v AND NOT 7"
proof -
  have m: "mask 2 = (3 :: u64)" "mask 3 = (7 :: u64)" by (simp_all add: mask_eq_exp_minus_1)
  have "(v + mask b) AND NOT (mask b) = v AND NOT (mask b)" if "unat v mod 2 ^ b = 0" for b
  proof -
    have "unat (take_bit b v) = take_bit b (unat v)" by (rule unsigned_take_bit_eq)
    also have "\<dots> = unat v mod 2 ^ b" by (rule take_bit_eq_mod)
    finally have "unat (take_bit b v) = 0" using that by simp
    then have "take_bit b v = 0" by (metis unsigned_0 unsigned_word_eqI)
    then have z: "\<not> bit v n" if "n < b" for n using that by (metis bit_0_eq bit_take_bit_iff bot_apply bot_bool_def)
    have "v + mask b = v OR mask b"
      by (rule disjunctive_add) (use z in \<open>auto simp: bit_mask_iff\<close>)
    then show ?thesis by (auto intro: bit_word_eqI simp: bit_and_iff bit_or_iff bit_not_iff bit_mask_iff)
  qed
  from this [of 2] this [of 3]
  show "unat v mod 4 = 0 \<Longrightarrow> (v + 3) AND NOT 3 = v AND NOT 3"
    "unat v mod 8 = 0 \<Longrightarrow> (v + 7) AND NOT 7 = v AND NOT 7" by (simp_all add: m)
qed

lemma lwl_ram:
  assumes "mts_sys asz cpu" "ram_at asz cpu (v AND NOT 3) h"
  obtains c where "mts_lwl env asz v reg cpu =
      ret0 (set_gpr reg (sign_extend ((gpr cpu reg AND mask (8 * (unat v mod 4))) OR
        push_bit (8 * (unat v mod 4)) (vmtoh 4 (host_read h 4 (cvm cpu)))) 32) (with_cache c cpu))"
    "mts_sys asz (with_cache c cpu)"
proof -
  obtain c where "mts_lwl env asz v reg cpu = (let m_shift = unat (push_bit 3 (ucast (v AND 3) :: u32));
          r_mask = push_bit m_shift 1 - 1;
          data = push_bit m_shift (vmtoh 4 (host_read h 4 (cvm cpu)));
          r = (gpr (with_cache c cpu) reg AND r_mask) OR data
      in ret0 (set_gpr reg (sign_extend r 32) (with_cache c cpu)))" and s: "mts_sys asz (with_cache c cpu)"
    unfolding mts_lwl_def by (rule load_ram [OF assms])
  then have "mts_lwl env asz v reg cpu =
      ret0 (set_gpr reg (sign_extend ((gpr cpu reg AND mask (8 * (unat v mod 4))) OR
        push_bit (8 * (unat v mod 4)) (vmtoh 4 (host_read h 4 (cvm cpu)))) 32) (with_cache c cpu))"
    by (simp add: low3 Let_def mask_eq_exp_minus_1)
  then show thesis using s by (rule that)
qed

lemma ldl_ram:
  assumes "mts_sys asz cpu" "ram_at asz cpu (v AND NOT 7) h"
  obtains c where "mts_ldl env asz v reg cpu =
      ret0 (set_gpr reg ((gpr cpu reg AND mask (8 * (unat v mod 8))) OR
        push_bit (8 * (unat v mod 8)) (vmtoh 8 (host_read h 8 (cvm cpu)))) (with_cache c cpu))"
    "mts_sys asz (with_cache c cpu)"
proof -
  obtain c where "mts_ldl env asz v reg cpu = (let m_shift = unat (push_bit 3 (ucast (v AND 7) :: u32));
          r_mask = push_bit m_shift 1 - 1;
          data = push_bit m_shift (vmtoh 8 (host_read h 8 (cvm cpu)))
      in ret0 (set_gpr reg ((gpr (with_cache c cpu) reg AND r_mask) OR data) (with_cache c cpu)))"
    and s: "mts_sys asz (with_cache c cpu)"
    unfolding mts_ldl_def by (rule load_ram [OF assms])
  then have "mts_ldl env asz v reg cpu =
      ret0 (set_gpr reg ((gpr cpu reg AND mask (8 * (unat v mod 8))) OR
        push_bit (8 * (unat v mod 8)) (vmtoh 8 (host_read h 8 (cvm cpu)))) (with_cache c cpu))"
    by (simp add: low7 Let_def mask_eq_exp_minus_1)
  then show thesis using s by (rule that)
qed

lemma sign_extend_mask:
  "sign_extend (mask 32) 32 = -1" "k < 4 \<Longrightarrow> sign_extend (mask (8 * k)) 32 = mask (8 * k)"
proof -
  show "sign_extend (mask 32) 32 = -1"
    by (rule bit_word_eqI) (auto simp: bit_sign_extend bit_mask_iff)
  assume "k < 4"
  then have "8 * k < 32" by simp
  then show "sign_extend (mask (8 * k)) 32 = mask (8 * k)"
    by (intro bit_word_eqI) (auto simp: bit_sign_extend bit_mask_iff)
qed

lemma lwr_ram:
  assumes "mts_sys asz cpu" "ram_at asz cpu ((v + 3) AND NOT 3) h"
  defines "k \<equiv> unat v mod 4" and "w \<equiv> vmtoh 4 (host_read h 4 (cvm cpu))"
  obtains c where "mts_lwr env asz (v + 3) reg cpu =
      ret0 (set_gpr reg (if k = 0 then sign_extend w 32
        else (gpr cpu reg AND NOT (mask (8 * k))) OR sign_extend (drop_bit (32 - 8 * k) w) 32) (with_cache c cpu))"
    "mts_sys asz (with_cache c cpu)"
proof -
  obtain c where e: "mts_lwr env asz (v + 3) reg cpu =
      (let m_shift = unat (push_bit 3 (ucast (((v + 3) AND 3) + 1) :: u32));
          r_mask = push_bit m_shift 1 - 1;
          data = sign_extend (drop_bit (32 - m_shift) w) 32;
          r_mask = sign_extend r_mask 32
      in ret0 (set_gpr reg ((gpr (with_cache c cpu) reg AND NOT r_mask) OR data) (with_cache c cpu)))"
    and s: "mts_sys asz (with_cache c cpu)"
    unfolding mts_lwr_def w_def by (rule load_ram [OF assms(1,2)])
  have "k < 4" by (simp add: k_def)
  have "mts_lwr env asz (v + 3) reg cpu =
      ret0 (set_gpr reg (if k = 0 then sign_extend w 32
        else (gpr cpu reg AND NOT (mask (8 * k))) OR sign_extend (drop_bit (32 - 8 * k) w) 32) (with_cache c cpu))"
    unfolding e Let_def low3 k_def [symmetric] push_mask
    using sign_extend_mask(1) sign_extend_mask(2) [OF \<open>k < 4\<close>] by (cases "k = 0") simp_all
  then show thesis using s by (rule that)
qed

lemma ldr_ram:
  assumes "mts_sys asz cpu" "ram_at asz cpu ((v + 7) AND NOT 7) h"
  defines "k \<equiv> unat v mod 8" and "w \<equiv> vmtoh 8 (host_read h 8 (cvm cpu))"
  obtains c where "mts_ldr env asz (v + 7) reg cpu =
      ret0 (set_gpr reg (if k = 0 then (gpr cpu reg AND NOT (ub_shl64 env 1 - 1)) OR w
        else (gpr cpu reg AND NOT (mask (8 * k))) OR drop_bit (64 - 8 * k) w) (with_cache c cpu))"
    "mts_sys asz (with_cache c cpu)"
proof -
  obtain c where e: "mts_ldr env asz (v + 7) reg cpu =
      (let m_shift = unat (push_bit 3 (ucast (((v + 7) AND 7) + 1) :: u32));
          r_mask = c_shl64 env 1 m_shift - 1;
          data = drop_bit (64 - m_shift) w
      in ret0 (set_gpr reg ((gpr (with_cache c cpu) reg AND NOT r_mask) OR data) (with_cache c cpu)))"
    and s: "mts_sys asz (with_cache c cpu)"
    unfolding mts_ldr_def w_def by (rule load_ram [OF assms(1,2)])
  have "8 * k < 64" using mod_less_divisor [of 8 "unat v"] by (simp add: k_def)
  have "mts_ldr env asz (v + 7) reg cpu =
      ret0 (set_gpr reg (if k = 0 then (gpr cpu reg AND NOT (ub_shl64 env 1 - 1)) OR w
        else (gpr cpu reg AND NOT (mask (8 * k))) OR drop_bit (64 - 8 * k) w) (with_cache c cpu))"
    unfolding e Let_def low7 k_def [symmetric] c_shl64_def push_mask
    using \<open>8 * k < 64\<close> by (cases "k = 0") (simp_all add: mask_eq_exp_minus_1)
  then show thesis using s by (rule that)
qed

lemma lwl_lwr_ram:
  assumes s: "mts_sys asz cpu" and r: "ram_at asz cpu (v AND NOT 3) h0" "ram_at asz cpu ((v + 3) AND NOT 3) h1"
  shows "\<exists>c1 c2. mts_lwl env asz v reg cpu = ret0 c1 \<and> mts_lwr env asz (v + 3) reg c1 = ret0 c2 \<and>
    gpr c2 = (gpr cpu)(reg := sign_extend (vmtoh 4 (window 4 (unat v mod 4)
      (host_read h0 4 (cvm cpu)) (host_read h1 4 (cvm cpu)))) 32) \<and>
    cvm c2 = cvm cpu \<and> mts_sys asz c2"
proof -
  let ?b0 = "host_read h0 4 (cvm cpu)" and ?b1 = "host_read h1 4 (cvm cpu)" and ?k = "unat v mod 4"
  define x where "x = sign_extend ((gpr cpu reg AND mask (8 * ?k)) OR push_bit (8 * ?k) (vmtoh 4 ?b0)) 32"
  obtain c where 1: "mts_lwl env asz v reg cpu = ret0 (set_gpr reg x (with_cache c cpu))"
    "mts_sys asz (with_cache c cpu)"
    using lwl_ram [OF s r(1)] unfolding x_def by blast
  let ?c1 = "set_gpr reg x (with_cache c cpu)"
  have s1: "mts_sys asz ?c1" using mts_sys_cong [of ?c1 "with_cache c cpu"] 1(2) by simp
  have r1: "ram_at asz ?c1 ((v + 3) AND NOT 3) h1" using ram_at_cong [of ?c1 cpu] r(2) by simp
  define y where "y = (\<lambda>g w. if ?k = 0 then sign_extend w 32 else (g AND NOT (mask (8 * ?k))) OR sign_extend (drop_bit (32 - 8 * ?k) w) 32)"
  obtain c' where 2: "mts_lwr env asz (v + 3) reg ?c1 =
      ret0 (set_gpr reg (y (gpr ?c1 reg) (vmtoh 4 (host_read h1 4 (cvm ?c1)))) (with_cache c' ?c1))"
    "mts_sys asz (with_cache c' ?c1)"
    using lwr_ram [OF s1 r1, of env reg] unfolding y_def by blast
  let ?c2 = "set_gpr reg (y x (vmtoh 4 ?b1)) (with_cache c' ?c1)"
  have "y x (vmtoh 4 ?b1) = sign_extend (vmtoh 4 (window 4 ?k ?b0 ?b1)) 32"
  proof (cases "?k = 0")
    case True
    then have "h1 = h0" using r aligned_word(1) [of v] by (simp add: ram_at_def)
    then show ?thesis using True by (simp add: y_def)
  next
    case False
    then show ?thesis using lwl_lwr_value [of ?b0 ?b1 ?k "gpr cpu reg"] by (simp add: y_def x_def)
  qed
  moreover have "mts_sys asz ?c2" using mts_sys_cong [of ?c2 "with_cache c' ?c1"] 2(2) by simp
  moreover have "mts_lwr env asz (v + 3) reg ?c1 = ret0 ?c2" using 2(1) by simp
  ultimately show ?thesis using 1(1) by (intro exI [of _ ?c1] exI [of _ ?c2]) simp
qed

lemma ldl_ldr_ram:
  assumes s: "mts_sys asz cpu" and r: "ram_at asz cpu (v AND NOT 7) h0" "ram_at asz cpu ((v + 7) AND NOT 7) h1"
  shows "\<exists>c1 c2. mts_ldl env asz v reg cpu = ret0 c1 \<and> mts_ldr env asz (v + 7) reg c1 = ret0 c2 \<and>
    gpr c2 = (gpr cpu)(reg := vmtoh 8 (window 8 (unat v mod 8)
      (host_read h0 8 (cvm cpu)) (host_read h1 8 (cvm cpu)))) \<and>
    cvm c2 = cvm cpu \<and> mts_sys asz c2"
proof -
  let ?b0 = "host_read h0 8 (cvm cpu)" and ?b1 = "host_read h1 8 (cvm cpu)" and ?k = "unat v mod 8"
  define x where "x = (gpr cpu reg AND mask (8 * ?k)) OR push_bit (8 * ?k) (vmtoh 8 ?b0)"
  obtain c where 1: "mts_ldl env asz v reg cpu = ret0 (set_gpr reg x (with_cache c cpu))"
    "mts_sys asz (with_cache c cpu)"
    using ldl_ram [OF s r(1)] unfolding x_def by blast
  let ?c1 = "set_gpr reg x (with_cache c cpu)"
  have s1: "mts_sys asz ?c1" using mts_sys_cong [of ?c1 "with_cache c cpu"] 1(2) by simp
  have r1: "ram_at asz ?c1 ((v + 7) AND NOT 7) h1" using ram_at_cong [of ?c1 cpu] r(2) by simp
  define y where "y = (\<lambda>g w. if ?k = 0 then (g AND NOT (ub_shl64 env 1 - 1)) OR w else (g AND NOT (mask (8 * ?k))) OR drop_bit (64 - 8 * ?k) w)"
  obtain c' where 2: "mts_ldr env asz (v + 7) reg ?c1 =
      ret0 (set_gpr reg (y (gpr ?c1 reg) (vmtoh 8 (host_read h1 8 (cvm ?c1)))) (with_cache c' ?c1))"
    "mts_sys asz (with_cache c' ?c1)"
    using ldr_ram [OF s1 r1, of env reg] unfolding y_def by blast
  let ?c2 = "set_gpr reg (y x (vmtoh 8 ?b1)) (with_cache c' ?c1)"
  have "y x (vmtoh 8 ?b1) = vmtoh 8 (window 8 ?k ?b0 ?b1)"
  proof (cases "?k = 0")
    case True
    then have "h1 = h0" using r aligned_word(2) [of v] by (simp add: ram_at_def)
    then have "y x (vmtoh 8 ?b1) = (vmtoh 8 ?b0 AND NOT (ub_shl64 env 1 - 1)) OR vmtoh 8 ?b0"
      using True by (simp add: y_def x_def)
    also have "\<dots> = vmtoh 8 ?b0" by (rule bit_word_eqI) (auto simp: bit_or_iff bit_and_iff)
    finally show ?thesis using True by simp
  next
    case False
    then show ?thesis using ldl_ldr_value [of ?b0 ?b1 ?k "gpr cpu reg"] by (simp add: y_def x_def)
  qed
  moreover have "mts_sys asz ?c2" using mts_sys_cong [of ?c2 "with_cache c' ?c1"] 2(2) by simp
  moreover have "mts_ldr env asz (v + 7) reg ?c1 = ret0 ?c2" using 2(1) by simp
  ultimately show ?thesis using 1(1) by (intro exI [of _ ?c1] exI [of _ ?c2]) simp
qed

text \<open>C4: The pairs \<open>LWL\<close>, \<open>LWR\<close> and \<open>LDL\<close>, \<open>LDR\<close> that a compiler emits for an unaligned load give the
  register the big-endian value of the bytes at the address, also across a page, whatever the
  host makes of the shift by 64 that \<open>LDR\<close> performs at an aligned address; they change nothing else.\<close>

theorem mts_unaligned_load:
  assumes "(L, R, W, conv) \<in> {(mts_lwl, mts_lwr, 4, \<lambda>x. sign_extend x 32), (mts_ldl, mts_ldr, 8, \<lambda>x. x)}"
    and "mts_sys asz cpu"
    and "ram_at asz cpu (v AND NOT (of_nat (W - 1))) h0"
    and "ram_at asz cpu ((v + of_nat (W - 1)) AND NOT (of_nat (W - 1))) h1"
  shows "\<exists>c1 c2. L env asz v reg cpu = ret0 c1 \<and> R env asz (v + of_nat (W - 1)) reg c1 = ret0 c2 \<and>
    gpr c2 = (gpr cpu)(reg := conv (vmtoh W (window W (unat v mod W)
      (host_read h0 W (cvm cpu)) (host_read h1 W (cvm cpu))))) \<and>
    cvm c2 = cvm cpu \<and> mts_sys asz c2"
  using assms(1)
proof (elim insertE emptyE)
  assume "(L, R, W, conv) = (mts_lwl, mts_lwr, 4, \<lambda>x. sign_extend x 32)"
  then show ?thesis using lwl_lwr_ram [of asz cpu v h0 h1 env reg] assms(2-4) by simp
next
  assume "(L, R, W, conv) = (mts_ldl, mts_ldr, 8, \<lambda>x. x)"
  then show ?thesis using ldl_ldr_ram [of asz cpu v h0 h1 env reg] assms(2-4) by simp
qed

text \<open>The read, modify and write of the partial stores.\<close>

lemma load_store_ram:
  assumes s: "mts_sys asz cpu" and r: "ram_at asz cpu v h"
  obtains c where
    "mts_load env asz v op W cpu (\<lambda>d cpu. mts_store env asz v op W (F d (gpr cpu reg)) cpu) =
      ret0 (set_vm (host_write h (htovm W (F (vmtoh W (host_read h W (cvm cpu))) (gpr cpu reg))) (cvm cpu))
        (with_cache c cpu))"
    "mts_sys asz (set_vm (host_write h (htovm W (F (vmtoh W (host_read h W (cvm cpu))) (gpr cpu reg))) (cvm cpu))
        (with_cache c cpu))"
proof -
  let ?w = "vmtoh W (host_read h W (cvm cpu))"
  obtain c where 1: "mts_load env asz v op W cpu (\<lambda>d cpu. mts_store env asz v op W (F d (gpr cpu reg)) cpu) =
      mts_store env asz v op W (F ?w (gpr (with_cache c cpu) reg)) (with_cache c cpu)"
    "mts_sys asz (with_cache c cpu)"
    by (rule load_ram [OF s r])
  have r1: "ram_at asz (with_cache c cpu) v h" using ram_at_cong [of "with_cache c cpu" cpu] r by simp
  let ?c1 = "with_cache c cpu"
  obtain c' where 2: "mts_store env asz v op W (F ?w (gpr ?c1 reg)) ?c1 =
      ret0 (set_vm (host_write h (htovm W (F ?w (gpr ?c1 reg))) (cvm ?c1)) (with_cache c' ?c1))"
    "mts_sys asz (set_vm (host_write h (htovm W (F ?w (gpr ?c1 reg))) (cvm ?c1)) (with_cache c' ?c1))"
    by (rule store_ram [OF 1(2) r1])
  show thesis by (rule that [of c']) (use 1(1) 2 in simp_all)
qed

lemma left_store_ram:
  assumes s: "mts_sys asz cpu" and r: "ram_at asz cpu v h" and W: "W = 4 \<or> W = 8" and k: "k < W"
    and d: "\<And>w r n. n < 8 * W \<Longrightarrow> bit (F w r) n = (if n + 8 * k < 8 * W then bit r (n + 8 * k) else bit w n)"
  obtains c where
    "mts_load env asz v op W cpu (\<lambda>d cpu. mts_store env asz v op W (F d (gpr cpu reg)) cpu) =
      ret0 (set_vm (host_write (h + of_nat k) (take (W - k) (htovm W (gpr cpu reg))) (cvm cpu)) (with_cache c cpu))"
    "mts_sys asz (set_vm (host_write (h + of_nat k) (take (W - k) (htovm W (gpr cpu reg))) (cvm cpu)) (with_cache c cpu))"
proof -
  let ?b = "host_read h W (cvm cpu)"
  have "htovm W (F (vmtoh W ?b) (gpr cpu reg)) = take k ?b @ take (W - k) (htovm W (gpr cpu reg))"
    by (rule left_bytes [OF W _ k]) (simp_all add: d)
  then have e: "host_write h (htovm W (F (vmtoh W ?b) (gpr cpu reg))) (cvm cpu) =
      host_write (h + of_nat k) (take (W - k) (htovm W (gpr cpu reg))) (cvm cpu)"
    using hput_prefix [of k W "take (W - k) (htovm W (gpr cpu reg))" "host_mem (cvm cpu)" h] k W by auto
  show thesis by (rule load_store_ram [OF s r, of env op W F reg]) (rule that; simp only: e)
qed

lemma right_store_ram:
  assumes s: "mts_sys asz cpu" and r: "ram_at asz cpu v h" and W: "W = 4 \<or> W = 8" and k: "0 < k" "k < W"
    and d: "\<And>w r n. n < 8 * W \<Longrightarrow>
      bit (F w r) n = (if n < 8 * W - 8 * k then bit w n else bit r (n - (8 * W - 8 * k)))"
  obtains c where
    "mts_load env asz v op W cpu (\<lambda>d cpu. mts_store env asz v op W (F d (gpr cpu reg)) cpu) =
      ret0 (set_vm (host_write h (drop (W - k) (htovm W (gpr cpu reg))) (cvm cpu)) (with_cache c cpu))"
    "mts_sys asz (set_vm (host_write h (drop (W - k) (htovm W (gpr cpu reg))) (cvm cpu)) (with_cache c cpu))"
proof -
  let ?b = "host_read h W (cvm cpu)"
  have "htovm W (F (vmtoh W ?b) (gpr cpu reg)) = drop (W - k) (htovm W (gpr cpu reg)) @ drop k ?b"
    by (rule right_bytes [OF W _ k]) (simp_all add: d)
  then have e: "host_write h (htovm W (F (vmtoh W ?b) (gpr cpu reg))) (cvm cpu) =
      host_write h (drop (W - k) (htovm W (gpr cpu reg))) (cvm cpu)"
    using hput_suffix [of "drop (W - k) (htovm W (gpr cpu reg))" k W "host_mem (cvm cpu)" h] k W by auto
  show thesis by (rule load_store_ram [OF s r, of env op W F reg]) (rule that; simp only: e)
qed

text \<open>The right half at an aligned address stores the whole word over itself.\<close>

lemma whole_store_ram:
  assumes s: "mts_sys asz cpu" and r: "ram_at asz cpu v h" and W: "W = 4 \<or> W = 8"
    and b: "host_read h W (cvm cpu) = htovm W (gpr cpu reg)"
    and d: "htovm W (F (vmtoh W (htovm W (gpr cpu reg))) (gpr cpu reg)) = htovm W (gpr cpu reg)"
  obtains c where
    "mts_load env asz v op W cpu (\<lambda>d cpu. mts_store env asz v op W (F d (gpr cpu reg)) cpu) =
      ret0 (set_vm (cvm cpu) (with_cache c cpu))"
    "mts_sys asz (set_vm (cvm cpu) (with_cache c cpu))"
proof -
  have l: "length (host_read h W (cvm cpu)) = W" by simp
  have "hput (host_mem (cvm cpu)) h (take W (hget (host_mem (cvm cpu)) h W)) = host_mem (cvm cpu)" by (rule hput_same)
  then have e: "host_write h (htovm W (F (vmtoh W (host_read h W (cvm cpu))) (gpr cpu reg))) (cvm cpu) = cvm cpu"
    unfolding b d by (simp add: b [symmetric])
  show thesis by (rule load_store_ram [OF s r, of env op W F reg]) (rule that; simp only: e)
qed

lemma full_masks:
  "(0xffffffff :: u32) = mask 32" "(0xffffffff :: u64) = mask 32" "(0xffffffffffffffff :: u64) = mask 64"
  by (simp_all add: mask_eq_exp_minus_1)

definition swl_word :: "nat \<Rightarrow> u64 \<Rightarrow> u64 \<Rightarrow> u64" where
  "swl_word k w r = (w AND NOT (ucast (drop_bit (8 * k) 0xffffffff :: u32))) OR drop_bit (8 * k) (r AND 0xffffffff)"

definition swr_word :: "'d mts_env \<Rightarrow> nat \<Rightarrow> u64 \<Rightarrow> u64 \<Rightarrow> u64" where
  "swr_word env m w r = (w AND ucast (c_shr32 env 0xffffffff m)) OR (push_bit (32 - m) r AND 0xffffffff)"

definition sdl_word :: "nat \<Rightarrow> u64 \<Rightarrow> u64 \<Rightarrow> u64" where
  "sdl_word k w r = (w AND NOT (drop_bit (8 * k) 0xffffffffffffffff)) OR drop_bit (8 * k) r"

definition sdr_word :: "'d mts_env \<Rightarrow> nat \<Rightarrow> u64 \<Rightarrow> u64 \<Rightarrow> u64" where
  "sdr_word env m w r = (w AND c_shr64 env 0xffffffffffffffff m) OR push_bit (64 - m) r"

lemma partial_store_words:
  "mts_swl env asz v reg cpu = mts_load env asz (v AND NOT 3) MIPS_MEMOP_SWL 4 cpu (\<lambda>d cpu.
     mts_store env asz (v AND NOT 3) MIPS_MEMOP_SWL 4 (swl_word (unat v mod 4) d (gpr cpu reg)) cpu)"
  "mts_swr env asz (v + 3) reg cpu = mts_load env asz ((v + 3) AND NOT 3) MIPS_MEMOP_SWR 4 cpu (\<lambda>d cpu.
     mts_store env asz ((v + 3) AND NOT 3) MIPS_MEMOP_SWR 4
       (swr_word env (if unat v mod 4 = 0 then 32 else 8 * (unat v mod 4)) d (gpr cpu reg)) cpu)"
  "mts_sdl env asz v reg cpu = mts_load env asz (v AND NOT 7) MIPS_MEMOP_SDL 8 cpu (\<lambda>d cpu.
     mts_store env asz (v AND NOT 7) MIPS_MEMOP_SDL 8 (sdl_word (unat v mod 8) d (gpr cpu reg)) cpu)"
  "mts_sdr env asz (v + 7) reg cpu = mts_load env asz ((v + 7) AND NOT 7) MIPS_MEMOP_SDR 8 cpu (\<lambda>d cpu.
     mts_store env asz ((v + 7) AND NOT 7) MIPS_MEMOP_SDR 8
       (sdr_word env (if unat v mod 8 = 0 then 64 else 8 * (unat v mod 8)) d (gpr cpu reg)) cpu)"
  unfolding mts_swl_def mts_swr_def mts_sdl_def mts_sdr_def low3 low7 Let_def
    swl_word_def swr_word_def sdl_word_def sdr_word_def by (rule refl)+

lemma bit_swl_word:
  assumes "n < 8 * 4"
  shows "bit (swl_word k w r) n = (if n + 8 * k < 8 * 4 then bit r (n + 8 * k) else bit w n)"
  unfolding swl_word_def full_masks bit_or_iff bit_and_iff bit_not_iff bit_ucast_iff bit_drop_bit_eq comp_def
    bit_mask_iff
  using assms by (auto simp: add.commute)

lemma bit_sdl_word:
  assumes "n < 8 * 8"
  shows "bit (sdl_word k w r) n = (if n + 8 * k < 8 * 8 then bit r (n + 8 * k) else bit w n)"
  unfolding sdl_word_def full_masks bit_or_iff bit_and_iff bit_not_iff bit_drop_bit_eq comp_def bit_mask_iff
  using assms by (auto simp: add.commute dest: bit_imp_le_length)

lemma bit_swr_word:
  assumes "n < 8 * 4" "0 < k" "k < 4"
  shows "bit (swr_word env (8 * k) w r) n = (if n < 8 * 4 - 8 * k then bit w n else bit r (n - (8 * 4 - 8 * k)))"
proof -
  have k: "8 * k < 32" using assms by linarith
  have c: "c_shr32 env (mask 32) (8 * k) = drop_bit (8 * k) (mask 32)" using k by (simp add: c_shr32_def)
  have s: "8 * k + n < 32 \<longleftrightarrow> n < 8 * 4 - 8 * k" "32 - 8 * k \<le> n \<longleftrightarrow> \<not> n < 8 * 4 - 8 * k" "32 - 8 * k = 8 * 4 - 8 * k"
    using assms by linarith+
  show ?thesis
    unfolding swr_word_def full_masks c bit_or_iff bit_and_iff bit_ucast_iff bit_drop_bit_eq comp_def
      bit_push_bit_iff bit_mask_iff s
    using assms(1) by auto
qed

lemma bit_sdr_word:
  assumes "n < 8 * 8" "0 < k" "k < 8"
  shows "bit (sdr_word env (8 * k) w r) n = (if n < 8 * 8 - 8 * k then bit w n else bit r (n - (8 * 8 - 8 * k)))"
proof -
  have k: "8 * k < 64" using assms by linarith
  have c: "c_shr64 env (mask 64) (8 * k) = drop_bit (8 * k) (mask 64)" using k by (simp add: c_shr64_def)
  have s: "8 * k + n < 64 \<longleftrightarrow> n < 8 * 8 - 8 * k" "64 - 8 * k \<le> n \<longleftrightarrow> \<not> n < 8 * 8 - 8 * k" "64 - 8 * k = 8 * 8 - 8 * k"
    using assms by linarith+
  show ?thesis
    unfolding sdr_word_def full_masks c bit_or_iff bit_and_iff bit_drop_bit_eq comp_def
      bit_push_bit_iff bit_mask_iff s
    using assms(1) by auto
qed

text \<open>At an aligned address the right half leaves the word, whatever the shift gives.\<close>

lemma whole_words:
  "htovm 4 (swr_word env 32 (vmtoh 4 (htovm 4 r)) r) = htovm 4 r"
  "htovm 8 (sdr_word env 64 (vmtoh 8 (htovm 8 r)) r) = htovm 8 r"
proof -
  have m: "x AND mask 32 = take_bit 32 x" for x :: u64 by (simp add: take_bit_eq_mask)
  have "swr_word env 32 (vmtoh 4 (htovm 4 r)) r = take_bit 32 r"
    unfolding swr_word_def full_masks(2) m
    by (rule bit_word_eqI) (auto simp: bit_or_iff bit_and_iff bit_take_bit_iff)
  then show "htovm 4 (swr_word env 32 (vmtoh 4 (htovm 4 r)) r) = htovm 4 r" by simp
  have "sdr_word env 64 (vmtoh 8 (htovm 8 r)) r = r"
    by (rule bit_word_eqI) (auto simp: sdr_word_def bit_or_iff bit_and_iff)
  then show "htovm 8 (sdr_word env 64 (vmtoh 8 (htovm 8 r)) r) = htovm 8 r" by simp
qed

lemma store_pair_ram:
  assumes W: "W = 4 \<or> W = 8" and s: "mts_sys asz cpu" and r: "ram_at asz cpu a0 h0" "ram_at asz cpu a1 h1"
    and k: "k < W" "k = 0 \<Longrightarrow> h1 = h0"
    and L: "\<And>w r n. n < 8 * W \<Longrightarrow> bit (FL w r) n = (if n + 8 * k < 8 * W then bit r (n + 8 * k) else bit w n)"
    and R: "\<And>w r n. 0 < k \<Longrightarrow> n < 8 * W \<Longrightarrow>
      bit (FR w r) n = (if n < 8 * W - 8 * k then bit w n else bit r (n - (8 * W - 8 * k)))"
    and A: "k = 0 \<Longrightarrow> htovm W (FR (vmtoh W (htovm W (gpr cpu reg))) (gpr cpu reg)) = htovm W (gpr cpu reg)"
  shows "\<exists>c1 c2. mts_load env asz a0 op W cpu (\<lambda>d cpu. mts_store env asz a0 op W (FL d (gpr cpu reg)) cpu) = ret0 c1 \<and>
    mts_load env asz a1 op' W c1 (\<lambda>d cpu. mts_store env asz a1 op' W (FR d (gpr cpu reg)) cpu) = ret0 c2 \<and>
    gpr c2 = gpr cpu \<and> cvm c2 = host_write h1 (drop (W - k) (htovm W (gpr cpu reg)))
      (host_write (h0 + of_nat k) (take (W - k) (htovm W (gpr cpu reg))) (cvm cpu)) \<and> mts_sys asz c2"
proof -
  let ?bs = "htovm W (gpr cpu reg)"
  let ?vm1 = "host_write (h0 + of_nat k) (take (W - k) ?bs) (cvm cpu)"
  obtain c where 1: "mts_load env asz a0 op W cpu (\<lambda>d cpu. mts_store env asz a0 op W (FL d (gpr cpu reg)) cpu) =
      ret0 (set_vm ?vm1 (with_cache c cpu))" "mts_sys asz (set_vm ?vm1 (with_cache c cpu))"
    by (rule left_store_ram [OF s r(1) W k(1) L])
  let ?c1 = "set_vm ?vm1 (with_cache c cpu)"
  have lh: "length ?bs = W" using W by auto
  have r1: "ram_at asz ?c1 a1 h1" using ram_at_cong [of ?c1 cpu] r(2) by simp
  obtain c' where 2: "mts_load env asz a1 op' W ?c1 (\<lambda>d cpu. mts_store env asz a1 op' W (FR d (gpr cpu reg)) cpu) =
      ret0 (set_vm (host_write h1 (drop (W - k) ?bs) ?vm1) (with_cache c' ?c1))"
    "mts_sys asz (set_vm (host_write h1 (drop (W - k) ?bs) ?vm1) (with_cache c' ?c1))"
  proof (cases "k = 0")
    case True
    have b: "host_read h1 W (cvm ?c1) = htovm W (gpr ?c1 reg)" using True k(2) lh W by auto
    have e: "cvm ?c1 = host_write h1 (drop (W - k) ?bs) ?vm1" using True by (simp add: lh)
    have A': "htovm W (FR (vmtoh W (htovm W (gpr ?c1 reg))) (gpr ?c1 reg)) = htovm W (gpr ?c1 reg)"
      using A True by simp
    show thesis
      by (rule whole_store_ram [where F = FR and reg = reg and env = env and op = op', OF 1(2) r1 W b A']) (rule that; simp only: e [symmetric])
  next
    case False
    then have k': "0 < k" by simp
    show thesis
    proof (rule right_store_ram [where F = FR and reg = reg and env = env and op = op', OF 1(2) r1 W k' k(1)], goal_cases)
      case (1 w r n) then show ?case by (rule R [OF k'])
    next
      case (2 ca) then show ?case by (intro that) simp_all
    qed
  qed
  let ?c2 = "set_vm (host_write h1 (drop (W - k) ?bs) ?vm1) (with_cache c' ?c1)"
  show ?thesis using 1(1) 2 by (intro exI [of _ ?c1] exI [of _ ?c2]) simp
qed

text \<open>C5: The pairs \<open>SWL\<close>, \<open>SWR\<close> and \<open>SDL\<close>, \<open>SDR\<close> of an unaligned store write the big-endian bytes of
  the register at the address, also across a page, and nothing else, whatever the host makes of the
  shift by the width of the word that \<open>SWR\<close> and \<open>SDR\<close> perform at an aligned address.\<close>

theorem mts_unaligned_store:
  assumes "(L, R, W) \<in> {(mts_swl, mts_swr, 4), (mts_sdl, mts_sdr, 8)}" and "mts_sys asz cpu"
    and "ram_at asz cpu (v AND NOT (of_nat (W - 1))) h0"
    and "ram_at asz cpu ((v + of_nat (W - 1)) AND NOT (of_nat (W - 1))) h1"
  shows "\<exists>c1 c2. L env asz v reg cpu = ret0 c1 \<and> R env asz (v + of_nat (W - 1)) reg c1 = ret0 c2 \<and>
    gpr c2 = gpr cpu \<and> cvm c2 = host_write h1 (drop (W - unat v mod W) (htovm W (gpr cpu reg)))
      (host_write (h0 + of_nat (unat v mod W)) (take (W - unat v mod W) (htovm W (gpr cpu reg))) (cvm cpu)) \<and>
    mts_sys asz c2"
  using assms(1)
proof (elim insertE emptyE)
  assume e: "(L, R, W) = (mts_swl, mts_swr, 4)"
  then have r: "ram_at asz cpu (v AND NOT 3) h0" "ram_at asz cpu ((v + 3) AND NOT 3) h1" using assms(3,4) by simp_all
  have "unat v mod 4 = 0 \<Longrightarrow> h1 = h0" using r aligned_word(1) [of v] by (simp add: ram_at_def)
  then have "\<exists>c1 c2. mts_swl env asz v reg cpu = ret0 c1 \<and> mts_swr env asz (v + 3) reg c1 = ret0 c2 \<and>
      gpr c2 = gpr cpu \<and> cvm c2 = host_write h1 (drop (4 - unat v mod 4) (htovm 4 (gpr cpu reg)))
        (host_write (h0 + of_nat (unat v mod 4)) (take (4 - unat v mod 4) (htovm 4 (gpr cpu reg))) (cvm cpu)) \<and>
      mts_sys asz c2"
    unfolding partial_store_words
    by (intro store_pair_ram [OF _ assms(2) r _ _ bit_swl_word]) (auto simp: bit_swr_word whole_words [simplified])
  then show ?thesis using e by simp
next
  assume e: "(L, R, W) = (mts_sdl, mts_sdr, 8)"
  then have r: "ram_at asz cpu (v AND NOT 7) h0" "ram_at asz cpu ((v + 7) AND NOT 7) h1" using assms(3,4) by simp_all
  have "unat v mod 8 = 0 \<Longrightarrow> h1 = h0" using r aligned_word(2) [of v] by (simp add: ram_at_def)
  then have "\<exists>c1 c2. mts_sdl env asz v reg cpu = ret0 c1 \<and> mts_sdr env asz (v + 7) reg c1 = ret0 c2 \<and>
      gpr c2 = gpr cpu \<and> cvm c2 = host_write h1 (drop (8 - unat v mod 8) (htovm 8 (gpr cpu reg)))
        (host_write (h0 + of_nat (unat v mod 8)) (take (8 - unat v mod 8) (htovm 8 (gpr cpu reg))) (cvm cpu)) \<and>
      mts_sys asz c2"
    unfolding partial_store_words
    by (intro store_pair_ram [OF _ assms(2) r _ _ bit_sdl_word]) (auto simp: bit_sdr_word whole_words [simplified])
  then show ?thesis using e by simp
qed

section \<open>Faults\<close>

text \<open>The address that an operation accesses, and the exception it raises.\<close>

definition mem_addr :: "mips_memop \<Rightarrow> u64 \<Rightarrow> u64" where
  "mem_addr m v =
    (if m \<in> {MIPS_MEMOP_LWL, MIPS_MEMOP_LWR, MIPS_MEMOP_SWL, MIPS_MEMOP_SWR} then v AND NOT 3
     else if m \<in> {MIPS_MEMOP_LDL, MIPS_MEMOP_LDR, MIPS_MEMOP_SDL, MIPS_MEMOP_SDR} then v AND NOT 7
     else v)"

definition writes_first :: "mips_memop \<Rightarrow> bool" where
  "writes_first m \<longleftrightarrow> m \<in> {MIPS_MEMOP_SB, MIPS_MEMOP_SH, MIPS_MEMOP_SW, MIPS_MEMOP_SD, MIPS_MEMOP_SC, MIPS_MEMOP_SDC1}"

definition fault_code :: "u32 \<Rightarrow> bool \<Rightarrow> u32" where
  "fault_code acc wr = (if acc = MTS_ACC_T then (if wr then MIPS_CP0_CAUSE_TLB_SAVE else MIPS_CP0_CAUSE_TLB_LOAD)
     else (if wr then MIPS_CP0_CAUSE_ADDR_SAVE else MIPS_CP0_CAUSE_ADDR_LOAD))"

definition fault_state :: "u32 \<Rightarrow> bool \<Rightarrow> u64 \<Rightarrow> 'd mcpu \<Rightarrow> 'd mcpu" where
  "fault_state acc wr a cpu =
    mips64_trigger_exception (fault_code acc wr) False (set_creg MIPS_CP0_BADVADDR a
      (if acc = MTS_ACC_T \<and> a = 0 then set_vm (vm_stop (cvm cpu)) cpu else cpu))"

lemma addr_map_Inl: "addr_map asz v cpu = Inl acc \<Longrightarrow> acc = MTS_ACC_T \<or> acc = MTS_ACC_AE"
  by (auto simp: addr_map_def Let_def split: if_splits option.splits)

lemma access_fault:
  assumes asz: "asz = 32 \<or> asz = 64" and co: "mts_coherent asz cpu" and g: "good_addr asz a"
    and f: "addr_map asz a cpu = Inl acc" and op: "op \<noteq> MIPS_MEMOP_LOOKUP"
  shows "mts_access env asz a op sz ty d cpu = Inr (Trap (fault_state acc (ty = MTS_WRITE) a cpu))"
proof -
  have "\<not> mts_match asz a cpu" using co g f by (auto simp: mts_coherent_def)
  then have "\<not> mts_hit asz a ty cpu" by (simp add: mts_hit_def mts_match_def Let_def min_page_masks)
  moreover have "ty = MTS_READ \<longleftrightarrow> ty \<noteq> MTS_WRITE" by (cases ty) simp_all
  ultimately show ?thesis
    using addr_map_Inl [OF f] op
    by (auto simp: mts_access_def slow_lookup_addr_map [OF asz] f mips64_access_special_def raise_mem_def
        fault_state_def fault_code_def Let_def MTS_ACC_AE_def MTS_ACC_T_def MTS_ACC_U_def)
qed

lemmas mts_op_defs = mts_lb_def mts_lbu_def mts_lh_def mts_lhu_def mts_lw_def mts_lwu_def mts_ld_def
  mts_sb_def mts_sh_def mts_sw_def mts_sd_def mts_ldc1_def mts_sdc1_def mts_lwl_def mts_lwr_def
  mts_ldl_def mts_ldr_def mts_swl_def mts_swr_def mts_sdl_def mts_sdr_def mts_ll_def mts_sc_def

text \<open>C6: An access to an address that the map does not translate raises the TLB or the address error
  exception, whatever the cache holds, with the address in \<open>BadVAddr\<close> and no other effect; an access
  to the page at 0 also stops the machine.  The partial stores report a load, because they read the
  word first.\<close>

theorem mts_faults:
  assumes "asz = 32 \<or> asz = 64" "mts_coherent asz cpu" "good_addr asz (mem_addr m v)"
    and "addr_map asz (mem_addr m v) cpu = Inl acc"
    and "m \<noteq> MIPS_MEMOP_LOOKUP" "m \<noteq> MIPS_MEMOP_CACHE" "m = MIPS_MEMOP_SC \<longrightarrow> ll_bit cpu \<noteq> 0"
  shows "mts_memop m env asz v reg cpu = Inr (Exec_Loop (fault_state acc (writes_first m) (mem_addr m v) cpu))"
proof -
  note acc = access_fault [OF assms(1-4)]
  show ?thesis
    using assms(5-7) acc
    by (cases m) (simp_all add: mts_op_defs mts_load_def mts_store_def on_access_def mem_addr_def writes_first_def)
qed

section \<open>The invariant of the cache\<close>

lemma load_kept:
  assumes "env_ok env" "asz = 32 \<or> asz = 64" "good_addr asz v"
    and "mts_load env asz v op sz cpu f = Inr r"
    and "\<And>d c. mts_kept asz cpu c \<Longrightarrow> f d c = Inr r \<Longrightarrow> mts_kept asz cpu (state_of r)"
  shows "mts_kept asz cpu (state_of r)"
proof -
  obtain a where a: "mts_access env asz v op sz MTS_READ (junk env) cpu = Inr a"
    and r: "(case a of Trap cpu \<Rightarrow> Inr (Exec_Loop cpu) | Access haddr data cpu \<Rightarrow>
       f (if haddr \<noteq> 0 then vmtoh sz (host_read haddr sz (cvm cpu)) else data) cpu) = Inr r"
    using assms(4) by (auto simp: mts_load_def on_access_def bind_out_Inr_iff)
  show ?thesis
    using access_kept [OF assms(1-3) a] r assms(5) by (cases a) auto
qed

lemma store_kept:
  assumes "env_ok env" "asz = 32 \<or> asz = 64" "good_addr asz v" "mts_store env asz v op sz data cpu = Inr r"
  shows "mts_kept asz cpu (state_of r)"
proof -
  have w: "mts_kept asz c (set_vm (host_write h bs (cvm c)) c)" for h bs and c :: "'a mcpu"
    by (rule mts_kept_same) simp_all
  obtain a where a: "mts_access env asz v op sz MTS_WRITE data cpu = Inr a"
    and r: "(case a of Trap cpu \<Rightarrow> Inr (Exec_Loop cpu) | Access haddr data cpu \<Rightarrow>
       ret0 (if haddr \<noteq> 0 then set_vm (host_write haddr (htovm sz data) (cvm cpu)) cpu else cpu)) = Inr r"
    using assms(4) by (auto simp: mts_store_def on_access_def bind_out_Inr_iff)
  show ?thesis
    using access_kept [OF assms(1-3) a] r mts_kept_trans [OF _ w] by (cases a) (auto split: if_splits)
qed

lemma kept_reg:
  "mts_kept asz cpu c \<Longrightarrow> mts_kept asz cpu (set_gpr r x c)"
  "mts_kept asz cpu c \<Longrightarrow> mts_kept asz cpu (c\<lparr>fpu_reg := g\<rparr>)"
  "mts_kept asz cpu c \<Longrightarrow> mts_kept asz cpu (c\<lparr>ll_bit := b\<rparr>)"
proof -
  have "mts_kept asz c (set_gpr r x c)" "mts_kept asz c (c\<lparr>fpu_reg := g\<rparr>)" "mts_kept asz c (c\<lparr>ll_bit := b\<rparr>)"
    by (rule mts_kept_same; simp add: mmu_state_def set_gpr_def)+
  then show "mts_kept asz cpu c \<Longrightarrow> mts_kept asz cpu (set_gpr r x c)"
    "mts_kept asz cpu c \<Longrightarrow> mts_kept asz cpu (c\<lparr>fpu_reg := g\<rparr>)"
    "mts_kept asz cpu c \<Longrightarrow> mts_kept asz cpu (c\<lparr>ll_bit := b\<rparr>)"
    using mts_kept_trans by blast+
qed

lemma memop_kept:
  assumes "env_ok env" "asz = 32 \<or> asz = 64" "good_addr asz (mem_addr m v)"
    and r: "mts_memop m env asz v reg cpu = Inr r"
  shows "mts_kept asz cpu (state_of r)"
proof -
  have g: "mem_addr m v = a \<Longrightarrow> good_addr asz a" for a using assms(3) by simp
  note ld = load_kept [OF assms(1,2) g] and sr = store_kept [OF assms(1,2) g]
  have st: "mts_kept asz cpu (state_of r)"
    if "mem_addr m v = a" "mts_kept asz cpu c" "mts_store env asz a op sz d c = Inr r" for a c op sz d
    using sr [OF that(1,3)] that(2) mts_kept_trans by blast
  consider (load) "m \<in> {MIPS_MEMOP_LB, MIPS_MEMOP_LBU, MIPS_MEMOP_LH, MIPS_MEMOP_LHU, MIPS_MEMOP_LW, MIPS_MEMOP_LWU,
      MIPS_MEMOP_LD, MIPS_MEMOP_LDC1, MIPS_MEMOP_LL, MIPS_MEMOP_LWL, MIPS_MEMOP_LWR, MIPS_MEMOP_LDL, MIPS_MEMOP_LDR}"
    | (store) "m \<in> {MIPS_MEMOP_SB, MIPS_MEMOP_SH, MIPS_MEMOP_SW, MIPS_MEMOP_SD, MIPS_MEMOP_SDC1}"
    | (part) "m \<in> {MIPS_MEMOP_SWL, MIPS_MEMOP_SWR, MIPS_MEMOP_SDL, MIPS_MEMOP_SDR}"
    | (sc) "m = MIPS_MEMOP_SC" | (cache) "m = MIPS_MEMOP_CACHE" | (look) "m = MIPS_MEMOP_LOOKUP"
    by (cases m) auto
  then show ?thesis
  proof cases
    case load
    then show ?thesis
      using r by (elim insertE emptyE; simp only: mts_memop.simps mts_op_defs Let_def;
        elim ld [rotated]; auto simp: mem_addr_def intro!: kept_reg)
  next
    case store
    then show ?thesis
      using r by (elim insertE emptyE; simp only: mts_memop.simps mts_op_defs;
        elim store_kept [OF assms(1,2) g, rotated]; simp add: mem_addr_def)
  next
    case part
    then show ?thesis
      by (insert r, elim insertE emptyE; simp only: mts_memop.simps mts_op_defs Let_def;
        elim ld [rotated]; auto simp: mem_addr_def intro: st)
  next
    case sc
    then have a: "mem_addr m v = v" by (simp add: mem_addr_def)
    show ?thesis
      using r sr [OF a] sc
      by (fastforce simp: mts_sc_def then_do_def split: sum.splits flow.splits if_splits intro: kept_reg)
  next
    case cache
    then show ?thesis
      using r
      by (auto simp: mts_cache_op_def mmu_state_def Let_def split: option.splits if_splits intro!: mts_kept_same)
  next
    case look
    then show ?thesis using r by simp
  qed
qed



section \<open>Witnesses\<close>

text \<open>A processor in 64-bit mode with 16 KB of memory at physical address 0, seen through \<open>kseg0\<close> and \<open>kseg1\<close>.\<close>

definition ram_dev :: vdevice where
  "ram_dev = \<lparr>dev_name = ''ram'', dev_id = 0, phys_addr = 0, phys_len = 0x4000, host_addr = 0x10000,
     dev_flags = VDEVICE_FLAG_CACHING, dev_fd = -1, dev_handler = None, sparse_map = None\<rparr>"

definition mem_cpu :: "unit mcpu" where
  "mem_cpu = \<lparr>cp0_virt_cnt_reg = 0, cp0_virt_cmp_reg = 0, irq_pending = 0, irq_cause = 0,
     ll_bit = 0, pc = 0xffffffffbfc00000, gpr = (\<lambda>r. if r = 4 then 0x0102030405060708 else 0), lo = 0, hi = 0,
     cp0 = cp0 sample_cpu, fpu_reg = (\<lambda>_. 0), addr_bus_mask = -1, irq_count = 0, timer_irq_count = 0,
     irq_fp_count = 0, timer_irq_pending = 0, timer_irq_check_itv = 1000, irq_disable = 0,
     idle_pc = 0, addr_mode = 64, njm_exec_page = 0, njm_exec_ptr = None, clock_divisor = 4,
     machine = \<lparr>mach_vm = (blank_vm [])\<lparr>dev_heap := (\<lambda>_. ram_dev), dev_list := [0]\<rparr>,
       mts_asz = 64, mts_cache = (\<lambda>_. mts_empty 64), exec_blk_map = None\<rparr>\<rparr>"

definition mem_env :: "unit mts_env" where
  "mem_env = \<lparr>handlers = (\<lambda>_ _ _ _ _ d vm. Inr ((0, d), vm)), dev_irqs = (\<lambda>_ c. c),
     undef_mem_handler = None, junk = 0, ub_shr32 = id, ub_shl64 = id, ub_shr64 = id\<rparr>"

lemma mem_cpu_sys: "mts_sys 64 mem_cpu"
proof -
  have "mts_coherent 64 mem_cpu" by (rule empty_cache_coherent) (simp add: mem_cpu_def)
  then show ?thesis
    by (simp add: mts_sys_def tlb_masks_ok_def mem_cpu_def sample_cpu_def empty_tlb_entry_def)
qed

lemma mem_cpu_ram:
  "ram_at 64 mem_cpu 0xFFFFFFFF80000ffc 0x10ffc" "ram_at 64 mem_cpu 0xFFFFFFFF80001000 0x11000"
  "ram_at 64 mem_cpu 0xFFFFFFFFA0000ffc 0x10ffc"
  by (simp_all add: ram_at_def good_addr_def ram_loc_def addr_map_def segment_map_def ram_page_def dev_lookup_def
      dev_covers_def mem_cpu_def ram_dev_def dev_flags_defs min_page_masks VM_PAGE_MASK_def VM_PAGE_IMASK_def Let_def)

lemma mem_cpu_gpr: "gpr mem_cpu 4 = 0x0102030405060708"
  by (simp add: mem_cpu_def)

lemma mem_env_ok: "env_ok mem_env"
  by (simp add: env_ok_def mem_env_def)

text \<open>A word stored through \<open>kseg0\<close> and read back, as a signed word, through \<open>kseg1\<close>.\<close>

theorem mts_store_load_witness:
  "\<exists>c1 c2. mts_sw mem_env 64 0xFFFFFFFF80000ffc 4 mem_cpu = ret0 c1 \<and>
     mts_lw mem_env 64 0xFFFFFFFFA0000ffc 5 c1 = ret0 c2 \<and> gpr c2 5 = 0x05060708"
proof -
  have "(mts_sw, mts_lw, 4, \<lambda>x. sign_extend x 32) \<in> set store_load" by (simp add: store_load_def)
  from mts_store_load [OF this mem_cpu_sys mem_cpu_ram(1,3), of mem_env 4 5]
  show ?thesis by (auto simp: mem_cpu_gpr sign_extend_def)
qed

theorem mts_unaligned_load_witness:
  "\<exists>c1 c2. mts_lwl mem_env 64 0xFFFFFFFF80000ffe 5 mem_cpu = ret0 c1 \<and>
     mts_lwr mem_env 64 0xFFFFFFFF80001001 5 c1 = ret0 c2 \<and> cvm c2 = cvm mem_cpu"
  using mts_unaligned_load [where L = mts_lwl and R = mts_lwr and W = 4 and conv = "\<lambda>x. sign_extend x 32"
      and v = "0xFFFFFFFF80000ffe" and env = mem_env and reg = 5, OF _ mem_cpu_sys, of "0x10ffc" "0x11000"] mem_cpu_ram
  by auto

theorem mts_unaligned_store_witness:
  "\<exists>c1 c2. mts_swl mem_env 64 0xFFFFFFFF80000ffe 4 mem_cpu = ret0 c1 \<and>
     mts_swr mem_env 64 0xFFFFFFFF80001001 4 c1 = ret0 c2 \<and> host_read 0x11000 2 (cvm c2) = [7, 8]"
  using mts_unaligned_store [where L = mts_swl and R = mts_swr and W = 4
      and v = "0xFFFFFFFF80000ffe" and env = mem_env and reg = 4, OF _ mem_cpu_sys, of "0x10ffc" "0x11000"] mem_cpu_ram
  by (auto simp: mem_cpu_gpr htovm_def hton32_bytes_def hget_def hput_def upt_rec)

text \<open>A byte stored to an unmapped user address.\<close>

theorem mts_faults_witness:
  "mts_memop MIPS_MEMOP_SB mem_env 64 0x5000 4 mem_cpu = Inr (Exec_Loop (fault_state MTS_ACC_T True 0x5000 mem_cpu))"
proof -
  have "\<not> tlb_entry_matches mem_cpu 0x5000 (cp0_tlb (cp0 mem_cpu) i)" for i
    by (simp add: tlb_entry_matches_def mips64_cp0_get_vpn2_mask_def mem_cpu_def sample_cpu_def empty_tlb_entry_def
        MIPS_TLB_VPN2_MASK_64_def Let_def)
  then have "tlb_lookup_loop mem_cpu 0x5000 js = None" for js by (induction js) simp_all
  then have "addr_map 64 0x5000 mem_cpu = Inl MTS_ACC_T"
    by (simp add: addr_map_def mips64_cp0_tlb_lookup_def)
  then show ?thesis
    using mts_faults [where m = MIPS_MEMOP_SB and asz = 64 and cpu = mem_cpu and v = "0x5000" and acc = MTS_ACC_T
        and env = mem_env and reg = 4] mem_cpu_sys
    by (simp add: mem_addr_def writes_first_def good_addr_def mts_sys_def)
qed


end
